(* ===== verification/Yan_Prelude.thy ===== *)
theory Yan_Prelude
  imports Main "HOL-Library.Word"
begin

text \<open>
  Shared material of the development.  A thrown exception is the left value of a sum
  (\<open>error + 'a\<close>); the C++ return codes (\<open>int ret; if ((ret = f()) < 0) return ret;\<close>)
  stay ordinary integers inside the right value, because the code distinguishes the two
  (some callers test the code, some drop it).  \<open>loop_ret\<close> and \<open>loop_ignore\<close>
  are the two loop shapes that occur: stop at the first negative code, or ignore the codes.
  The locale \<open>sep_builder\<close> is the contract that every text builder of the SQL layer
  shares (a flag "nothing appended yet", a separator in front of every further item); the
  builders interpret it in their own theories.
\<close>

section \<open>Errors and results\<close>

datatype error =
    Runtime_error string        \<comment> \<open>\<open>throw std::runtime_error(...)\<close>\<close>
  | Assert_failure              \<comment> \<open>a failed \<open>assert\<close>\<close>
  | Undefined_behaviour         \<comment> \<open>out-of-range index, null or dangling pointer\<close>
  | Out_of_fuel                 \<comment> \<open>the bound of a loop of the model was reached\<close>

type_synonym 'a res = "error + 'a"

text \<open>A computation that keeps its state when it throws.\<close>

type_synonym ('s, 'a) sres = "'s \<Rightarrow> 's \<times> 'a res"

named_theorems res_simps "unfolding rules of the result combinators"

definition bindE :: "'e + 'a \<Rightarrow> ('a \<Rightarrow> 'e + 'b) \<Rightarrow> 'e + 'b" where
  "bindE m f = (case m of Inl e \<Rightarrow> Inl e | Inr x \<Rightarrow> f x)"

lemma bindE_simps [simp, res_simps]:
  "bindE (Inl e) f = Inl e"
  "bindE (Inr x) f = f x"
  by (simp_all add: bindE_def)

lemma bindE_Inr_iff: "bindE m f = Inr y \<longleftrightarrow> (\<exists>x. m = Inr x \<and> f x = Inr y)"
  by (cases m) auto

lemma bindE_Inl_iff: "bindE m f = Inl e \<longleftrightarrow> m = Inl e \<or> (\<exists>x. m = Inr x \<and> f x = Inl e)"
  by (cases m) auto

text \<open>Raise an error in a computation whose exceptions have another type.\<close>

definition liftE :: "(error \<Rightarrow> 'e) \<Rightarrow> 'a res \<Rightarrow> 'e + 'a" where
  "liftE thr m = (case m of Inl e \<Rightarrow> Inl (thr e) | Inr x \<Rightarrow> Inr x)"

lemma liftE_simps [simp, res_simps]: "liftE thr (Inl e) = Inl (thr e)" "liftE thr (Inr x) = Inr x"
  by (simp_all add: liftE_def)

lemma liftE_id [simp]: "liftE (\<lambda>e. e) m = m"
  by (cases m) simp_all

definition bindS :: "('s, 'a) sres \<Rightarrow> ('a \<Rightarrow> ('s, 'b) sres) \<Rightarrow> ('s, 'b) sres" where
  "bindS m f = (\<lambda>s. case m s of (s', Inl e) \<Rightarrow> (s', Inl e) | (s', Inr x) \<Rightarrow> f x s')"

definition returnS :: "'a \<Rightarrow> ('s, 'a) sres" where
  "returnS x = (\<lambda>s. (s, Inr x))"

definition throwS :: "error \<Rightarrow> ('s, 'a) sres" where
  "throwS e = (\<lambda>s. (s, Inl e))"

lemma bindS_apply [res_simps]:
  "bindS m f s = (case m s of (s', Inl e) \<Rightarrow> (s', Inl e) | (s', Inr x) \<Rightarrow> f x s')"
  by (simp add: bindS_def)

lemma returnS_apply [simp, res_simps]: "returnS x s = (s, Inr x)"
  by (simp add: returnS_def)

lemma throwS_apply [simp, res_simps]: "throwS e s = (s, Inl e)"
  by (simp add: throwS_def)

lemma bindS_succ: "snd (m s) = Inr x \<Longrightarrow> bindS m f s = f x (fst (m s))"
  by (cases "m s") (simp add: bindS_def)

lemma bindS_throw: "snd (m s) = Inl e \<Longrightarrow> bindS m f s = (fst (m s), Inl e)"
  by (cases "m s") (simp add: bindS_def)

fun mapS :: "('a \<Rightarrow> ('s, 'b) sres) \<Rightarrow> 'a list \<Rightarrow> ('s, 'b list) sres" where
  "mapS f [] = returnS []"
| "mapS f (x # xs) = bindS (f x) (\<lambda>y. bindS (mapS f xs) (\<lambda>ys. returnS (y # ys)))"

section \<open>The two loop shapes\<close>

fun loop_ret :: "('s \<Rightarrow> 'a \<Rightarrow> 'e + int \<times> 's) \<Rightarrow> int \<Rightarrow> 's \<Rightarrow> 'a list \<Rightarrow> 'e + int \<times> 's" where
  "loop_ret f ret s [] = Inr (ret, s)"
| "loop_ret f ret s (x # xs) =
     (case f s x of
        Inl e \<Rightarrow> Inl e
      | Inr (r, s') \<Rightarrow> if r < 0 then Inr (r, s') else loop_ret f r s' xs)"

fun loop_ignore :: "('s \<Rightarrow> 'a \<Rightarrow> 'e + int \<times> 's) \<Rightarrow> 's \<Rightarrow> 'a list \<Rightarrow> 'e + 's" where
  "loop_ignore f s [] = Inr s"
| "loop_ignore f s (x # xs) =
     (case f s x of Inl e \<Rightarrow> Inl e | Inr (r, s') \<Rightarrow> loop_ignore f s' xs)"

text \<open>A loop whose body only throws or continues.\<close>

fun foldE :: "('s \<Rightarrow> 'a \<Rightarrow> 'e + 's) \<Rightarrow> 's \<Rightarrow> 'a list \<Rightarrow> 'e + 's" where
  "foldE f s [] = Inr s"
| "foldE f s (x # xs) = (case f s x of Inl e \<Rightarrow> Inl e | Inr s' \<Rightarrow> foldE f s' xs)"

lemma loop_ret_append:
  "loop_ret f ret s (xs @ ys) =
     (case loop_ret f ret s xs of
        Inl e \<Rightarrow> Inl e
      | Inr (r, s') \<Rightarrow> if r < 0 \<and> xs \<noteq> [] then Inr (r, s') else loop_ret f r s' ys)"
  by (induction xs arbitrary: ret s) (auto split: sum.splits)

lemma foldE_append:
  "foldE f s (xs @ ys) = bindE (foldE f s xs) (\<lambda>s'. foldE f s' ys)"
  by (induction xs arbitrary: s) (auto split: sum.splits)

lemma loop_ret_cong:
  "(\<And>s x. x \<in> set xs \<Longrightarrow> f s x = g s x) \<Longrightarrow> loop_ret f ret s xs = loop_ret g ret s xs"
proof (induction xs arbitrary: ret s)
  case (Cons x xs)
  have "loop_ret f r s' xs = loop_ret g r s' xs" for r s'
    by (rule Cons.IH) (simp add: Cons.prems)
  with Cons.prems [of x s] show ?case by (simp split: sum.splits)
qed simp

lemma loop_ignore_cong:
  "(\<And>s x. x \<in> set xs \<Longrightarrow> f s x = g s x) \<Longrightarrow> loop_ignore f s xs = loop_ignore g s xs"
proof (induction xs arbitrary: s)
  case (Cons x xs)
  have "loop_ignore f s' xs = loop_ignore g s' xs" for s'
    by (rule Cons.IH) (simp add: Cons.prems)
  with Cons.prems [of x s] show ?case by (simp split: sum.splits)
qed simp

lemma loop_ret_filter_skip:
  "(\<And>s x. \<not> P x \<Longrightarrow> f s x = Inr (0, s)) \<Longrightarrow> (\<And>s x r s'. f s x = Inr (r, s') \<Longrightarrow> r = 0) \<Longrightarrow>
    loop_ret f 0 s xs = loop_ret f 0 s (filter P xs)"
  by (induction xs arbitrary: s) (fastforce split: sum.splits)+

lemma loop_ret_map: "loop_ret f ret s (map g xs) = loop_ret (\<lambda>s x. f s (g x)) ret s xs"
  by (induction xs arbitrary: ret s) (auto split: sum.splits)

lemma loop_ignore_map: "loop_ignore f s (map g xs) = loop_ignore (\<lambda>s x. f s (g x)) s xs"
  by (induction xs arbitrary: s) (auto split: sum.splits)

lemma loop_ret_frame:
  "loop_ret f ret s xs = Inr (r, s') \<Longrightarrow> (\<And>s x r s'. f s x = Inr (r, s') \<Longrightarrow> g s' = g s) \<Longrightarrow> g s' = g s"
  by (induction xs arbitrary: ret s) (fastforce split: sum.splits if_splits)+

section \<open>Containers and text\<close>

text \<open>
  \<open>std::set\<close> is the strictly sorted list of its elements; \<open>insert\<close> is
  \<open>insort_insert\<close>.
\<close>

abbreviation sset_insert :: "'a::linorder \<Rightarrow> 'a list \<Rightarrow> 'a list" where
  "sset_insert \<equiv> insort_insert"

definition sset :: "'a::linorder list \<Rightarrow> bool" where
  "sset xs \<longleftrightarrow> sorted xs \<and> distinct xs"

lemma sset_Nil [simp, intro]: "sset []"
  by (simp add: sset_def)

lemma sset_insert_sset [simp, intro]: "sset xs \<Longrightarrow> sset (sset_insert x xs)"
  by (simp add: sset_def distinct_insort_insert sorted_insort_insert)

lemma set_sset_insert [simp]: "set (sset_insert x xs) = insert x (set xs)"
  by (rule set_insort_insert)

lemma sset_unique: "sset xs \<Longrightarrow> sset ys \<Longrightarrow> set xs = set ys \<Longrightarrow> xs = ys"
  by (simp add: sset_def sorted_distinct_set_unique)

text \<open>Decimal output of \<open>std::to_string\<close>.\<close>

fun string_of_nat :: "nat \<Rightarrow> string" where
  "string_of_nat n =
     (if n < 10 then [''0123456789'' ! n] else string_of_nat (n div 10) @ [''0123456789'' ! (n mod 10)])"

declare string_of_nat.simps [simp del]

definition string_of_int :: "int \<Rightarrow> string" where
  "string_of_int i = (if i < 0 then ''-'' @ string_of_nat (nat (- i)) else string_of_nat (nat i))"

text \<open>Items joined by a separator, as the comma separated lists of the SQL text are.\<close>

fun join_with :: "string \<Rightarrow> string list \<Rightarrow> string" where
  "join_with s [] = ''''"
| "join_with s [x] = x"
| "join_with s (x # y # xs) = x @ s @ join_with s (y # xs)"

lemma join_with_Cons: "join_with s (x # xs) = x @ (if xs = [] then '''' else s @ join_with s xs)"
  by (cases xs) auto

lemma join_with_concat: "xs \<noteq> [] \<Longrightarrow> join_with s xs = hd xs @ concat (map (\<lambda>x. s @ x) (tl xs))"
proof (induction xs)
  case (Cons x xs)
  then show ?case by (cases xs) (auto simp: join_with_Cons)
qed simp

definition digits :: "char set" where
  "digits = set ''0123456789''"

lemma digit_nth: "k < 10 \<Longrightarrow> ''0123456789'' ! k \<in> digits"
  unfolding digits_def by (rule nth_mem) simp

lemma digit_inj: "i < 10 \<Longrightarrow> j < 10 \<Longrightarrow> ''0123456789'' ! i = ''0123456789'' ! j \<Longrightarrow> i = j"
proof -
  assume "i < 10" "j < 10" and e: "''0123456789'' ! i = ''0123456789'' ! j"
  have "distinct ''0123456789''" by simp
  with e \<open>i < 10\<close> \<open>j < 10\<close> show "i = j"
    by (subst (asm) nth_eq_iff_index_eq) simp_all
qed

lemma string_of_nat_digits: "set (string_of_nat n) \<subseteq> digits"
proof (induction n rule: string_of_nat.induct)
  case (1 n)
  then show ?case
    by (subst string_of_nat.simps) (auto simp: digit_nth)
qed

lemma string_of_nat_nonempty [simp]: "string_of_nat n \<noteq> []"
  by (subst string_of_nat.simps) simp

lemma string_of_nat_inj: "string_of_nat m = string_of_nat n \<Longrightarrow> m = n"
proof (induction m arbitrary: n rule: string_of_nat.induct)
  case (1 m)
  show ?case
  proof (cases "m < 10")
    case True
    with "1.prems" have "n < 10"
      by (auto simp: string_of_nat.simps [of m] string_of_nat.simps [of n]
          dest: arg_cong [where f = length] split: if_splits)
    with True "1.prems" show ?thesis
      by (auto simp: string_of_nat.simps [of m] string_of_nat.simps [of n] dest: digit_inj)
  next
    case False
    with "1.prems" have n: "\<not> n < 10"
      by (auto simp: string_of_nat.simps [of m] string_of_nat.simps [of n] split: if_splits)
    with False "1.prems" have "string_of_nat (m div 10) = string_of_nat (n div 10)"
      and "''0123456789'' ! (m mod 10) = ''0123456789'' ! (n mod 10)"
      by (simp_all add: string_of_nat.simps [of m] string_of_nat.simps [of n])
    with False "1.IH" have "m div 10 = n div 10" and "m mod 10 = n mod 10"
      by (auto intro: digit_inj)
    then show ?thesis by (metis div_mult_mod_eq)
  qed
qed

lemma minus_not_digit: "CHR ''-'' \<notin> digits"
  by (simp add: digits_def)

lemma string_of_nat_no_minus: "string_of_nat n \<noteq> CHR ''-'' # s"
  using string_of_nat_digits [of n] minus_not_digit by (metis list.set_intros(1) subsetD)

lemma string_of_int_inj: "string_of_int i = string_of_int j \<Longrightarrow> i = j"
  by (auto simp: string_of_int_def string_of_nat_no_minus string_of_nat_no_minus [symmetric]
      dest: string_of_nat_inj split: if_splits)

lemma string_of_int_chars: "set (string_of_int i) \<subseteq> insert (CHR ''-'') digits"
  using string_of_nat_digits by (auto simp: string_of_int_def)

lemma string_of_int_nonempty [simp]: "string_of_int i \<noteq> []"
  by (simp add: string_of_int_def)

section \<open>The contract of the text builders\<close>

fun all_ok :: "(bool \<Rightarrow> 'i \<Rightarrow> bool) \<Rightarrow> bool \<Rightarrow> 'i list \<Rightarrow> bool" where
  "all_ok ok f [] \<longleftrightarrow> True"
| "all_ok ok f (i # is) \<longleftrightarrow> ok f i \<and> all_ok ok False is"

fun emit :: "('i \<Rightarrow> string) \<Rightarrow> ('i \<Rightarrow> string) \<Rightarrow> bool \<Rightarrow> 'i list \<Rightarrow> string" where
  "emit sep item f [] = ''''"
| "emit sep item f (i # is) = (if f then '''' else sep i) @ item i @ emit sep item False is"

lemma emit_uniform:
  "emit (\<lambda>_. d) item f is = (if f \<or> is = [] then '''' else d) @ join_with d (map item is)"
  by (induction "is" arbitrary: f) (auto simp: join_with_Cons)

lemma all_ok_True [simp]: "all_ok (\<lambda>_ _. True) f is"
  by (induction "is" arbitrary: f) auto

lemma emit_append:
  "emit sep item f (is @ js) = emit sep item f is @ emit sep item (f \<and> is = []) js"
  by (induction "is" arbitrary: f) auto

text \<open>
  A builder keeps a flag \<open>first\<close> ("nothing appended yet") and the text \<open>out\<close>
  written so far.  One step either refuses its item (\<open>ok\<close> is false, the code throws
  \<open>err\<close>) or appends the item's own text, in front of it the separator unless it is the
  first one, and leaves the flag cleared.
\<close>

locale sep_builder =
  fixes first :: "'s \<Rightarrow> bool"
    and out :: "'s \<Rightarrow> string"
    and step :: "'s \<Rightarrow> 'i \<Rightarrow> 'e + int \<times> 's"
    and sep :: "'i \<Rightarrow> string"
    and item :: "'i \<Rightarrow> string"
    and ok :: "bool \<Rightarrow> 'i \<Rightarrow> bool"
    and err :: "'i \<Rightarrow> 'e"
  assumes step_ok: "ok (first s) i \<Longrightarrow>
      \<exists>s'. step s i = Inr (0, s') \<and> \<not> first s' \<and>
           out s' = out s @ (if first s then '''' else sep i) @ item i"
    and step_err: "\<not> ok (first s) i \<Longrightarrow> step s i = Inl (err i)"
begin

lemma loop_ret_ok:
  "all_ok ok (first s) is \<Longrightarrow>
    \<exists>s'. loop_ret step 0 s is = Inr (0, s') \<and> out s' = out s @ emit sep item (first s) is \<and>
         (first s' \<longleftrightarrow> first s \<and> is = [])"
proof (induction "is" arbitrary: s)
  case (Cons i "is")
  from Cons.prems have "ok (first s) i" by simp
  from step_ok [OF this] obtain s1 where s1: "step s i = Inr (0, s1)" "\<not> first s1"
      "out s1 = out s @ (if first s then '''' else sep i) @ item i" by blast
  from Cons.prems s1(2) have "all_ok ok (first s1) is" by simp
  from Cons.IH [OF this] s1 show ?case by auto
qed simp

lemma loop_ret_err:
  "\<not> all_ok ok (first s) is \<Longrightarrow> \<exists>i \<in> set is. \<exists>f. \<not> ok f i \<and> loop_ret step 0 s is = Inl (err i)"
proof (induction "is" arbitrary: s)
  case (Cons i "is")
  show ?case
  proof (cases "ok (first s) i")
    case True
    from step_ok [OF this] obtain s1 where s1: "step s i = Inr (0, s1)" "\<not> first s1" by blast
    with Cons.prems True have "\<not> all_ok ok (first s1) is" by simp
    from Cons.IH [OF this] s1 show ?thesis by auto
  next
    case False
    then show ?thesis by (auto simp: step_err)
  qed
qed simp

lemma loop_ret_Inr_iff:
  "(\<exists>r s'. loop_ret step 0 s is = Inr (r, s')) \<longleftrightarrow> all_ok ok (first s) is"
  using loop_ret_ok loop_ret_err by (metis Inl_Inr_False)

lemma loop_ignore_eq:
  "loop_ignore step s is = map_sum id snd (loop_ret step 0 s is)"
proof (induction "is" arbitrary: s)
  case (Cons i "is")
  show ?case
  proof (cases "ok (first s) i")
    case True
    from step_ok [OF this] obtain s1 where "step s i = Inr (0, s1)" by blast
    with Cons.IH show ?thesis by simp
  next
    case False
    then show ?thesis by (simp add: step_err)
  qed
qed simp

end

section \<open>The contract of frame relations\<close>

text \<open>
  A reflexive and transitive relation between states is kept by a computation when every run, also
  one that throws, ends in a related state; the combinators preserve this.
\<close>

definition keeps :: "('s \<Rightarrow> 's \<Rightarrow> bool) \<Rightarrow> ('s, 'a) sres \<Rightarrow> bool" where
  "keeps R m \<longleftrightarrow> (\<forall>s. R s (fst (m s)))"

lemma keepsD: "keeps R m \<Longrightarrow> R s (fst (m s))"
  by (simp add: keeps_def)

locale frame_rel =
  fixes R :: "'s \<Rightarrow> 's \<Rightarrow> bool"
  assumes refl: "R s s" and trans: "R s t \<Longrightarrow> R t u \<Longrightarrow> R s u"
begin

lemma keeps_returnS: "keeps R (returnS x)"
  by (simp add: keeps_def refl)

lemma keeps_throwS: "keeps R (throwS e)"
  by (simp add: keeps_def refl)

lemma keeps_bindS:
  assumes "keeps R m" and "\<And>x. keeps R (f x)"
  shows "keeps R (bindS m f)"
  unfolding keeps_def
proof
  fix s
  obtain s' r where m: "m s = (s', r)" by force
  with assms(1) have "R s s'" by (metis fst_conv keeps_def)
  moreover have "R s' (fst (f x s'))" for x
    using assms(2) by (simp add: keeps_def)
  ultimately show "R s (fst (bindS m f s))"
    by (cases r) (auto simp: bindS_apply m intro: trans)
qed

lemma keeps_apply: "(\<And>s. keeps R (f s)) \<Longrightarrow> keeps R (\<lambda>s. f s s)"
  by (simp add: keeps_def)

lemma keeps_mapS: "(\<And>x. x \<in> set xs \<Longrightarrow> keeps R (f x)) \<Longrightarrow> keeps R (mapS f xs)"
  by (induction xs) (auto intro: keeps_bindS keeps_returnS)

lemmas keeps_intros = keeps_returnS keeps_throwS keeps_bindS keeps_mapS

end

end
