(* ===== verification/Yan_Types.thy ===== *)
theory Yan_Types
  imports Yan_Prelude
begin

text \<open>
  \<open>src/base/type.h\<close> and \<open>src/base/param.h\<close>: the enumerations \<open>YanType\<close>,
  \<open>CondType\<close> and \<open>YanOpsType\<close> with their printing functions, the map from a
  \<open>YanType\<close> to its C++ type, the values of those types, the 16-bit code that packs a
  condition kind with an operator, and the parameter objects that carry a condition.
  Enumerators get the prefixes \<open>YT_\<close>, \<open>CT_\<close> and \<open>OT_\<close>, since the three C++ enums reuse names.
\<close>

section \<open>YanType\<close>

datatype yan_type =
    YT_UNKNOWN
  | YT_INT8 | YT_INT16 | YT_INT32 | YT_INT64
  | YT_FLOAT | YT_DOUBLE
  | YT_BOOL | YT_STRING
  | YT_AUTO_INCREMENT | YT_DATE | YT_TIMESTAMP | YT_TEXT | YT_BLOB
  | YT_STRUCT | YT_LIST

fun get_yan_type_str :: "yan_type \<Rightarrow> string" where
  "get_yan_type_str YT_INT8 = ''INT8''"
| "get_yan_type_str YT_INT16 = ''INT16''"
| "get_yan_type_str YT_INT32 = ''INT32''"
| "get_yan_type_str YT_INT64 = ''INT64''"
| "get_yan_type_str YT_FLOAT = ''FLOAT''"
| "get_yan_type_str YT_DOUBLE = ''DOUBLE''"
| "get_yan_type_str YT_BOOL = ''BOOL''"
| "get_yan_type_str YT_STRING = ''STRING''"
| "get_yan_type_str YT_AUTO_INCREMENT = ''AUTO_INCREMENT''"
| "get_yan_type_str YT_DATE = ''DATE''"
| "get_yan_type_str YT_TIMESTAMP = ''TIMESTAMP''"
| "get_yan_type_str YT_TEXT = ''TEXT''"
| "get_yan_type_str YT_BLOB = ''BLOB''"
| "get_yan_type_str YT_STRUCT = ''STRUCT''"
| "get_yan_type_str YT_LIST = ''LIST''"
| "get_yan_type_str YT_UNKNOWN = '' unknown-yantype ''"

text \<open>The C++ types behind the tags (\<open>YanType2Type\<close>; no specialisation exists for
  \<open>UNKNOWN\<close>, \<open>STRUCT\<close> and \<open>LIST\<close>).\<close>

datatype ctype = C_int8 | C_int16 | C_int32 | C_int64 | C_float | C_double | C_bool | C_string

fun YanType2Type :: "yan_type \<Rightarrow> ctype option" where
  "YanType2Type YT_INT8 = Some C_int8"
| "YanType2Type YT_INT16 = Some C_int16"
| "YanType2Type YT_INT32 = Some C_int32"
| "YanType2Type YT_INT64 = Some C_int64"
| "YanType2Type YT_FLOAT = Some C_float"
| "YanType2Type YT_DOUBLE = Some C_double"
| "YanType2Type YT_BOOL = Some C_bool"
| "YanType2Type YT_STRING = Some C_string"
| "YanType2Type YT_AUTO_INCREMENT = Some C_int64"
| "YanType2Type YT_DATE = Some C_int64"
| "YanType2Type YT_TIMESTAMP = Some C_int64"
| "YanType2Type YT_TEXT = Some C_string"
| "YanType2Type YT_BLOB = Some C_string"
| "YanType2Type YT_UNKNOWN = None"
| "YanType2Type YT_STRUCT = None"
| "YanType2Type YT_LIST = None"

fun Type2YanType :: "ctype \<Rightarrow> yan_type" where
  "Type2YanType C_int8 = YT_INT8"
| "Type2YanType C_int16 = YT_INT16"
| "Type2YanType C_int32 = YT_INT32"
| "Type2YanType C_int64 = YT_INT64"
| "Type2YanType C_float = YT_FLOAT"
| "Type2YanType C_double = YT_DOUBLE"
| "Type2YanType C_bool = YT_BOOL"
| "Type2YanType C_string = YT_STRING"

lemma YanType2Type_Type2YanType [simp]: "YanType2Type (Type2YanType t) = Some t"
  by (cases t) simp_all

lemma YanType2Type_None_iff:
  "YanType2Type t = None \<longleftrightarrow> t = YT_UNKNOWN \<or> t = YT_STRUCT \<or> t = YT_LIST"
  by (cases t) simp_all

section \<open>Values\<close>

text \<open>
  Integers keep their width and are read as signed.  A floating point value is a signed
  dyadic rational \<open>m * 2 ^ e\<close>, an infinity or a NaN.
\<close>

datatype fp = Fp_finite bool nat int | Fp_inf bool | Fp_nan bool

datatype yan_val =
    V_int8 "8 word" | V_int16 "16 word" | V_int32 "32 word" | V_int64 "64 word"
  | V_float fp | V_double fp | V_bool bool | V_string string

fun ctype_of :: "yan_val \<Rightarrow> ctype" where
  "ctype_of (V_int8 _) = C_int8"
| "ctype_of (V_int16 _) = C_int16"
| "ctype_of (V_int32 _) = C_int32"
| "ctype_of (V_int64 _) = C_int64"
| "ctype_of (V_float _) = C_float"
| "ctype_of (V_double _) = C_double"
| "ctype_of (V_bool _) = C_bool"
| "ctype_of (V_string _) = C_string"

text \<open>The value-initialised object \<open>TYPE{}\<close>.\<close>

fun default_val :: "ctype \<Rightarrow> yan_val" where
  "default_val C_int8 = V_int8 0"
| "default_val C_int16 = V_int16 0"
| "default_val C_int32 = V_int32 0"
| "default_val C_int64 = V_int64 0"
| "default_val C_float = V_float (Fp_finite False 0 0)"
| "default_val C_double = V_double (Fp_finite False 0 0)"
| "default_val C_bool = V_bool False"
| "default_val C_string = V_string ''''"

lemma ctype_of_default_val [simp]: "ctype_of (default_val t) = t"
  by (cases t) simp_all

text \<open>
  \<open>std::to_string\<close> of a floating point value prints \<open>%f\<close>: the exact value rounded half to
  even at six decimals.
\<close>

definition round_half_even :: "nat \<Rightarrow> nat \<Rightarrow> nat" where
  "round_half_even n d =
     (let q = n div d; r = n mod d in
      if 2 * r < d then q else if d < 2 * r then q + 1 else if even q then q else q + 1)"

definition fp_micro :: "nat \<Rightarrow> int \<Rightarrow> nat" where
  "fp_micro m e =
     (if 0 \<le> e then m * 2 ^ nat e * 1000000 else round_half_even (m * 1000000) (2 ^ nat (- e)))"

definition pad6 :: "string \<Rightarrow> string" where
  "pad6 s = replicate (6 - length s) (CHR ''0'') @ s"

fun fp_to_string :: "fp \<Rightarrow> string" where
  "fp_to_string (Fp_finite neg m e) =
     (let u = fp_micro m e in
      (if neg then ''-'' else '''') @ string_of_nat (u div 1000000) @ ''.'' @
        pad6 (string_of_nat (u mod 1000000)))"
| "fp_to_string (Fp_inf neg) = (if neg then ''-inf'' else ''inf'')"
| "fp_to_string (Fp_nan neg) = (if neg then ''-nan'' else ''nan'')"

section \<open>CondType and YanOpsType\<close>

text \<open>
  Both enums have the underlying type \<open>uint8_t\<close>, so a cast from an integer can yield a value
  without an enumerator; \<open>CT_OTHER\<close> and \<open>OT_OTHER\<close> hold those.
\<close>

datatype cond_type =
    CT_UNKNOWN | CT_AND | CT_OR | CT_NOT | CT_GROUP | CT_ORDER_ASC | CT_ORDER_DESC
  | CT_OTHER "8 word"

datatype ops_type =
    OT_UNKNOWN | OT_EQUAL | OT_EQUAL_LIST | OT_LARGE | OT_LARGE_OR_EQUAL | OT_LESS | OT_LESS_OR_EQUAL
  | OT_OTHER "8 word"

fun cond_type_code :: "cond_type \<Rightarrow> 8 word" where
  "cond_type_code CT_UNKNOWN = 0"
| "cond_type_code CT_AND = 1"
| "cond_type_code CT_OR = 2"
| "cond_type_code CT_NOT = 3"
| "cond_type_code CT_GROUP = 4"
| "cond_type_code CT_ORDER_ASC = 5"
| "cond_type_code CT_ORDER_DESC = 6"
| "cond_type_code (CT_OTHER w) = w"

definition cond_type_of :: "8 word \<Rightarrow> cond_type" where
  "cond_type_of w =
     (if w = 0 then CT_UNKNOWN else if w = 1 then CT_AND else if w = 2 then CT_OR
      else if w = 3 then CT_NOT else if w = 4 then CT_GROUP else if w = 5 then CT_ORDER_ASC
      else if w = 6 then CT_ORDER_DESC else CT_OTHER w)"

fun ops_type_code :: "ops_type \<Rightarrow> 8 word" where
  "ops_type_code OT_UNKNOWN = 0"
| "ops_type_code OT_EQUAL = 1"
| "ops_type_code OT_EQUAL_LIST = 2"
| "ops_type_code OT_LARGE = 3"
| "ops_type_code OT_LARGE_OR_EQUAL = 4"
| "ops_type_code OT_LESS = 5"
| "ops_type_code OT_LESS_OR_EQUAL = 6"
| "ops_type_code (OT_OTHER w) = w"

definition ops_type_of :: "8 word \<Rightarrow> ops_type" where
  "ops_type_of w =
     (if w = 0 then OT_UNKNOWN else if w = 1 then OT_EQUAL else if w = 2 then OT_EQUAL_LIST
      else if w = 3 then OT_LARGE else if w = 4 then OT_LARGE_OR_EQUAL else if w = 5 then OT_LESS
      else if w = 6 then OT_LESS_OR_EQUAL else OT_OTHER w)"

fun get_yan_cond_str :: "cond_type \<Rightarrow> string" where
  "get_yan_cond_str CT_AND = ''AND''"
| "get_yan_cond_str CT_OR = ''OR''"
| "get_yan_cond_str CT_NOT = ''NOT''"
| "get_yan_cond_str CT_GROUP = ''GROUP''"
| "get_yan_cond_str CT_ORDER_ASC = ''ORDER_ASC''"
| "get_yan_cond_str CT_ORDER_DESC = ''ORDER_DESC''"
| "get_yan_cond_str _ = '' unknown-condition-type ''"

fun get_yan_ops_str :: "ops_type \<Rightarrow> bool \<Rightarrow> string" where
  "get_yan_ops_str OT_EQUAL n = (if \<not> n then '' == '' else '' != '')"
| "get_yan_ops_str OT_EQUAL_LIST n = (if \<not> n then '' '' else '' '')"
| "get_yan_ops_str OT_LARGE n = (if \<not> n then '' > '' else '' <= '')"
| "get_yan_ops_str OT_LARGE_OR_EQUAL n = (if \<not> n then '' >= '' else '' < '')"
| "get_yan_ops_str OT_LESS n = (if \<not> n then '' < '' else '' >= '')"
| "get_yan_ops_str OT_LESS_OR_EQUAL n = (if \<not> n then '' <= '' else '' > '')"
| "get_yan_ops_str _ n = '' unknown-operator-type ''"

lemma cond_type_of_code [simp]:
  "cond_type_of (cond_type_code c) = c" if "\<And>w. c = CT_OTHER w \<Longrightarrow> 6 < w"
  using that by (cases c) (auto simp: cond_type_of_def)

lemma ops_type_of_code [simp]:
  "ops_type_of (ops_type_code c) = c" if "\<And>w. c = OT_OTHER w \<Longrightarrow> 6 < w"
  using that by (cases c) (auto simp: ops_type_of_def)

lemma cond_type_of_numerals [simp]:
  "cond_type_of 0 = CT_UNKNOWN" "cond_type_of 1 = CT_AND" "cond_type_of 2 = CT_OR" "cond_type_of 3 = CT_NOT"
  "cond_type_of 4 = CT_GROUP" "cond_type_of 5 = CT_ORDER_ASC" "cond_type_of 6 = CT_ORDER_DESC"
  by (simp_all add: cond_type_of_def)

lemma ops_type_of_numerals [simp]:
  "ops_type_of 0 = OT_UNKNOWN" "ops_type_of 1 = OT_EQUAL" "ops_type_of 2 = OT_EQUAL_LIST"
  "ops_type_of 3 = OT_LARGE" "ops_type_of 4 = OT_LARGE_OR_EQUAL" "ops_type_of 5 = OT_LESS"
  "ops_type_of 6 = OT_LESS_OR_EQUAL"
  by (simp_all add: ops_type_of_def)

section \<open>The packed condition code\<close>

text \<open>
  \<open>__SET_MEM_COND_TYPE__\<close> packs \<open>(cond << 8) | opstype\<close> into a \<open>uint16_t\<close>;
  \<open>__GET_MEM_OPS_TYPE__\<close> and \<open>__GET_MEM_COND_TYPE__\<close> take it apart again.
\<close>

definition set_mem_cond_type :: "8 word \<Rightarrow> ops_type \<Rightarrow> 16 word" where
  "set_mem_cond_type cond opstype = or (push_bit 8 (ucast cond)) (ucast (ops_type_code opstype))"

definition get_mem_ops_type :: "16 word \<Rightarrow> ops_type" where
  "get_mem_ops_type x = ops_type_of (ucast (and x 0x00FF))"

definition get_mem_cond_type :: "16 word \<Rightarrow> cond_type" where
  "get_mem_cond_type x = cond_type_of (ucast (drop_bit 8 (and x 0xFF00)))"

lemma mask_00FF: "(0x00FF :: 16 word) = mask 8"
  by (simp add: mask_eq_exp_minus_1)

lemma mask_FF00: "(0xFF00 :: 16 word) = push_bit 8 (mask 8)"
  by (simp add: mask_eq_exp_minus_1)

lemmas pack_bits = bit_and_iff bit_or_iff bit_word_ucast_iff bit_mask_iff bit_push_bit_iff bit_drop_bit_eq

lemma pack_low: "(ucast (and (or (push_bit 8 (ucast c)) (ucast p)) 0x00FF :: 16 word) :: 8 word) = p"
  for c p :: "8 word"
  unfolding mask_00FF
  by (rule bit_word_eqI) (simp only: pack_bits, simp)

lemma pack_high:
  "(ucast (drop_bit 8 (and (or (push_bit 8 (ucast c)) (ucast p)) 0xFF00 :: 16 word)) :: 8 word) = c"
  for c p :: "8 word"
  unfolding mask_FF00
  by (rule bit_word_eqI) (simp only: pack_bits o_def, simp)

text \<open>
  Packing a condition kind and an operator into the 16-bit code and unpacking it gives both
  back, for every value of the condition byte (enumerator or not) and every operator.
\<close>

theorem cond_code_roundtrip:
  "get_mem_cond_type (set_mem_cond_type c opstype) = cond_type_of c \<and>
   get_mem_ops_type (set_mem_cond_type c opstype) = ops_type_of (ops_type_code opstype)"
  by (simp only: get_mem_cond_type_def get_mem_ops_type_def set_mem_cond_type_def pack_low pack_high)

lemma get_set_mem_cond [simp]:
  "get_mem_cond_type (set_mem_cond_type c opstype) = cond_type_of c"
  "get_mem_ops_type (set_mem_cond_type c opstype) = ops_type_of (ops_type_code opstype)"
  by (simp_all only: get_mem_cond_type_def get_mem_ops_type_def set_mem_cond_type_def pack_low pack_high)

section \<open>The meaning of the printed operators\<close>

text \<open>
  The comparison that a printed SQL operator denotes, on any linear order; strings that are no
  comparison denote nothing.
\<close>

definition sql_comparison :: "string \<Rightarrow> ('a::linorder \<Rightarrow> 'a \<Rightarrow> bool) option" where
  "sql_comparison s =
     (if s = '' == '' then Some (=) else if s = '' != '' then Some (\<noteq>)
      else if s = '' > '' then Some (>) else if s = '' >= '' then Some (\<ge>)
      else if s = '' < '' then Some (<) else if s = '' <= '' then Some (\<le>) else None)"

definition comparison_op :: "ops_type \<Rightarrow> bool" where
  "comparison_op opstype \<longleftrightarrow>
     opstype \<in> {OT_EQUAL, OT_LARGE, OT_LARGE_OR_EQUAL, OT_LESS, OT_LESS_OR_EQUAL}"

text \<open>
  For each of the five comparison operators the string printed for a \<open>NOT\<close> condition denotes
  exactly the complement of the comparison printed without negation, so that a \<open>NOT\<close> condition
  selects the rows the plain one rejects.
\<close>

theorem negated_operator_is_complement:
  assumes "comparison_op opstype"
  shows "\<exists>f g. sql_comparison (get_yan_ops_str opstype False) = Some f \<and>
               sql_comparison (get_yan_ops_str opstype True) = Some g \<and>
               (\<forall>a b :: 'a::linorder. g a b = (\<not> f a b))"
  using assms by (auto simp: comparison_op_def sql_comparison_def not_less not_le)

theorem negated_operator_is_complement_witness:
  "comparison_op OT_LARGE \<and>
   (\<exists>f g. sql_comparison (get_yan_ops_str OT_LARGE False) = Some f \<and>
          sql_comparison (get_yan_ops_str OT_LARGE True) = Some g \<and>
          (\<forall>a b :: nat. g a b = (\<not> f a b)))"
proof -
  have h: "comparison_op OT_LARGE" by (simp add: comparison_op_def)
  show ?thesis using h negated_operator_is_complement [OF h] by blast
qed

section \<open>Parameters\<close>

text \<open>
  A parameter carries the member's name, its type tag, the packed code, the member's sequence
  number and the operand: one value, or a list of values for an \<open>EQUAL_LIST\<close> condition.
\<close>

datatype param_value = PV yan_val | PL "yan_val list"

record param =
  param_name :: string
  param_type :: yan_type
  param_cond :: "16 word"
  param_seq :: "16 word"
  param_val :: param_value

definition make_param :: "string \<Rightarrow> yan_type \<Rightarrow> 16 word \<Rightarrow> 16 word \<Rightarrow> param_value \<Rightarrow> param" where
  "make_param name type cond seq t =
     \<lparr>param_name = name, param_type = type, param_cond = cond, param_seq = seq, param_val = t\<rparr>"

definition prefix_param :: "string \<Rightarrow> param \<Rightarrow> param" where
  "prefix_param pre p = p\<lparr>param_name := pre @ ''.'' @ param_name p\<rparr>"

text \<open>The copy constructor of \<open>Param<T>\<close> copies every field but the name.\<close>

definition copy_param :: "param \<Rightarrow> param" where
  "copy_param r =
     \<lparr>param_name = '''', param_type = param_type r, param_cond = param_cond r,
      param_seq = param_seq r, param_val = param_val r\<rparr>"

lemma prefix_param_simps [simp]:
  "param_type (prefix_param pre p) = param_type p"
  "param_cond (prefix_param pre p) = param_cond p"
  "param_seq (prefix_param pre p) = param_seq p"
  "param_val (prefix_param pre p) = param_val p"
  by (simp_all add: prefix_param_def)

text \<open>
  The operand's type agrees with the tag and the operator: a list for \<open>EQUAL_LIST\<close>, otherwise
  one value.  Every parameter the library builds is of this kind; for another one the downcast to
  \<open>Param<T>\<close> is undefined.
\<close>

fun payload_ok :: "yan_type \<Rightarrow> ops_type \<Rightarrow> param_value \<Rightarrow> bool" where
  "payload_ok type opstype (PV v) \<longleftrightarrow> opstype \<noteq> OT_EQUAL_LIST \<and> YanType2Type type = Some (ctype_of v)"
| "payload_ok type opstype (PL vs) \<longleftrightarrow>
     opstype = OT_EQUAL_LIST \<and> (case YanType2Type type of None \<Rightarrow> False | Some t \<Rightarrow> \<forall>v \<in> set vs. ctype_of v = t)"

definition param_get :: "param \<Rightarrow> param_value res" where
  "param_get p =
     (if payload_ok (param_type p) (get_mem_ops_type (param_cond p)) (param_val p)
      then Inr (param_val p) else Inl Undefined_behaviour)"

end
