(* ===== verification/Yan_Registry.thy ===== *)
theory Yan_Registry
  imports Yan_Types
begin

text \<open>
  The reflection data of \<open>src/base/ref.h\<close> (\<open>MemberInfo\<close>, \<open>YanStruct\<close>, \<open>YanMember\<close>,
  \<open>YanListMember\<close>, the \<open>*_register__\<close> classes, \<open>field_bridge\<close>) and the macro front end of
  \<open>src/base/arch.h\<close>.  A \<open>class_decl\<close> is what a user writes with \<open>STRUCT\<close>/\<open>MEMBER\<close>/...;
  the registry holds the function-local statics those macros expand to, which are filled when
  the first object of a class is constructed.  Pointers to a \<open>YanStruct\<close> are class names.
  Byte offsets are not modelled: a member is identified by its name inside its object.
\<close>

section \<open>Declarations\<close>

text \<open>
  The optional macro arguments.  The first one is stringised by the \<open>CREATE_MEMBER_INFO4/5/6\<close>
  macros, so it is kept as the spelling of its token; the others are constant expressions whose
  type selects the overload.
\<close>

datatype const_expr = CE_int int | CE_bool bool

datatype member_args =
    Args0
  | Args1 string
  | Args2 string const_expr
  | Args3 string const_expr const_expr

definition CAN_BE_NULL :: const_expr where
  "CAN_BE_NULL = CE_bool False"

datatype class_decl =
    CLASS (cd_name: string) (cd_alias: "string option") (cd_members: "member_decl list")
and member_decl =
    MEMBER string yan_type member_args
  | LIST_MEMBER string yan_type member_args
  | LIST_STRUCT_MEMBER string class_decl member_args
  | STRUCT_MEMBER string class_decl member_args
  | TMP_MEMBER string class_decl

fun member_decl_name :: "member_decl \<Rightarrow> string" where
  "member_decl_name (MEMBER mem _ _) = mem"
| "member_decl_name (LIST_MEMBER mem _ _) = mem"
| "member_decl_name (LIST_STRUCT_MEMBER mem _ _) = mem"
| "member_decl_name (STRUCT_MEMBER mem _ _) = mem"
| "member_decl_name (TMP_MEMBER mem _) = mem"

section \<open>MemberInfo\<close>

datatype list_info = LI_basic yan_type | LI_struct string

record member_info =
  mi_type :: yan_type
  mi_name :: string
  mi_alias :: string
  mi_member :: "yan_type option"
  mi_list_member :: "list_info option"
  mi_struct_member :: "string option"
  mi_from :: "string option"
  mi_length :: int
  mi_can_be_null :: bool

definition LEAST_TABLE_FIELD_CHAR_LENGTH :: int where
  "LEAST_TABLE_FIELD_CHAR_LENGTH = 32"

definition base_member_info :: "string \<Rightarrow> yan_type \<Rightarrow> string \<Rightarrow> member_info" where
  "base_member_info n t a =
     \<lparr>mi_type = t, mi_name = n, mi_alias = a, mi_member = None, mi_list_member = None,
      mi_struct_member = None, mi_from = None, mi_length = LEAST_TABLE_FIELD_CHAR_LENGTH,
      mi_can_be_null = False\<rparr>"

fun to_c_int :: "const_expr \<Rightarrow> int" where
  "to_c_int (CE_int n) = n"
| "to_c_int (CE_bool b) = (if b then 1 else 0)"

fun to_c_bool :: "const_expr \<Rightarrow> bool" where
  "to_c_bool (CE_int n) = (n \<noteq> 0)"
| "to_c_bool (CE_bool b) = b"

fun CREATE_MEMBER_INFO :: "string \<Rightarrow> yan_type \<Rightarrow> member_args \<Rightarrow> member_info" where
  "CREATE_MEMBER_INFO n t Args0 = base_member_info n t ''''"
| "CREATE_MEMBER_INFO n t (Args1 a) = base_member_info n t a"
| "CREATE_MEMBER_INFO n t (Args2 a (CE_bool canbenull)) =
     (base_member_info n t a)\<lparr>mi_can_be_null := canbenull\<rparr>"
| "CREATE_MEMBER_INFO n t (Args2 a (CE_int len)) =
     (base_member_info n t a)\<lparr>mi_length := len\<rparr>"
| "CREATE_MEMBER_INFO n t (Args3 a five six) =
     (base_member_info n t a)\<lparr>mi_length := to_c_int five, mi_can_be_null := to_c_bool six\<rparr>"

definition mi_get_name :: "member_info \<Rightarrow> string" where
  "mi_get_name m = (if mi_alias m = '''' then mi_name m else mi_alias m)"

lemma CREATE_MEMBER_INFO_name [simp]: "mi_name (CREATE_MEMBER_INFO n t a) = n"
  by (cases "(n, t, a)" rule: CREATE_MEMBER_INFO.cases) (auto simp: base_member_info_def)

lemma CREATE_MEMBER_INFO_type [simp]: "mi_type (CREATE_MEMBER_INFO n t a) = t"
  by (cases "(n, t, a)" rule: CREATE_MEMBER_INFO.cases) (auto simp: base_member_info_def)

section \<open>YanStruct\<close>

text \<open>
  \<open>ms_\<close> maps a name to the same \<open>MemberInfo\<close> object that \<open>members_\<close> holds; the model
  stores its index.
\<close>

record yan_struct =
  ys_name :: string
  ys_alias :: string
  ys_members :: "member_info list"
  ys_ms :: "string \<Rightarrow> nat option"

definition ys_get_name :: "yan_struct \<Rightarrow> string" where
  "ys_get_name y = (if ys_alias y = '''' then ys_name y else ys_alias y)"

definition ys_add :: "member_info \<Rightarrow> yan_struct \<Rightarrow> (16 word \<times> yan_struct) res" where
  "ys_add m y =
     (case ys_ms y (mi_name m) of
        Some _ \<Rightarrow> Inl (Runtime_error (''you have defined same member in struct'' @ mi_name m))
      | None \<Rightarrow>
          Inr (of_nat (length (ys_members y)),
               y\<lparr>ys_ms := (ys_ms y)(mi_name m \<mapsto> length (ys_members y)),
                 ys_members := ys_members y @ [m]\<rparr>))"

definition ys_at :: "yan_struct \<Rightarrow> 16 word \<Rightarrow> member_info res" where
  "ys_at y seq =
     (if unat seq < length (ys_members y) then Inr (ys_members y ! unat seq) else Inl Undefined_behaviour)"

definition ys_get_member :: "yan_struct \<Rightarrow> string \<Rightarrow> member_info res" where
  "ys_get_member y n =
     (case ys_ms y n of
        None \<Rightarrow> Inl (Runtime_error (''no such member named ['' @ n @ ''] in struct['' @ ys_name y @ '']''))
      | Some i \<Rightarrow> Inr (ys_members y ! i))"

section \<open>The registry\<close>

text \<open>
  Per class: the static \<open>YanStruct\<close>, the members whose static registration object exists
  already, and the static sequence number inside each \<open>__yan_member_seq_MEM__\<close>.
\<close>

record class_state =
  cs_struct :: yan_struct
  cs_registered :: "string list"
  cs_seqs :: "string \<Rightarrow> 16 word option"

type_synonym registry = "string \<Rightarrow> class_state option"

definition empty_registry :: registry where
  "empty_registry = (\<lambda>_. None)"

definition fresh_class_state :: "string \<Rightarrow> string option \<Rightarrow> class_state" where
  "fresh_class_state n a =
     \<lparr>cs_struct = \<lparr>ys_name = n, ys_alias = (case a of None \<Rightarrow> '''' | Some s \<Rightarrow> s),
                   ys_members = [], ys_ms = (\<lambda>_. None)\<rparr>,
      cs_registered = [], cs_seqs = (\<lambda>_. None)\<rparr>"

definition get_class_state :: "registry \<Rightarrow> string \<Rightarrow> string option \<Rightarrow> class_state" where
  "get_class_state reg n a = (case reg n of Some st \<Rightarrow> st | None \<Rightarrow> fresh_class_state n a)"

definition get_yan_struct :: "registry \<Rightarrow> class_decl \<Rightarrow> yan_struct" where
  "get_yan_struct reg c = cs_struct (get_class_state reg (cd_name c) (cd_alias c))"

text \<open>\<open>__yan_member_seq_MEM__()\<close> without an argument: the static, or the default 0.\<close>

definition member_seq :: "registry \<Rightarrow> string \<Rightarrow> string \<Rightarrow> 16 word" where
  "member_seq reg n mem =
     (case reg n of None \<Rightarrow> 0 | Some st \<Rightarrow> (case cs_seqs st mem of None \<Rightarrow> 0 | Some s \<Rightarrow> s))"

definition set_member_seq :: "string \<Rightarrow> 16 word \<Rightarrow> class_state \<Rightarrow> class_state" where
  "set_member_seq mem seq st =
     (case cs_seqs st mem of
        Some _ \<Rightarrow> st
      | None \<Rightarrow> st\<lparr>cs_seqs := (cs_seqs st)(mem \<mapsto> seq)\<rparr>)"

definition register_member ::
  "string \<Rightarrow> string option \<Rightarrow> string \<Rightarrow> member_info \<Rightarrow> (registry, unit) sres" where
  "register_member n a mem info = (\<lambda>reg.
     let st = get_class_state reg n a in
     if mem \<in> set (cs_registered st) then (reg, Inr ())
     else
       (case ys_add info (cs_struct st) of
          Inl e \<Rightarrow> (reg, Inl e)
        | Inr (seq, y) \<Rightarrow>
            (reg(n \<mapsto> set_member_seq mem seq
                       (st\<lparr>cs_struct := y, cs_registered := cs_registered st @ [mem]\<rparr>)), Inr ())))"

text \<open>
  \<open>__yan_tmp_member_register__\<close>: the loop over the source struct's members adds a copy of each
  member with the right name.
\<close>

definition tmp_member_info :: "string \<Rightarrow> member_info \<Rightarrow> member_info" where
  "tmp_member_info from m =
     (base_member_info (mi_name m) (mi_type m) (mi_alias m))
       \<lparr>mi_from := Some from, mi_member := Some (mi_type m)\<rparr>"

fun tmp_add :: "string \<Rightarrow> string \<Rightarrow> member_info list \<Rightarrow> bool \<Rightarrow> yan_struct \<Rightarrow> yan_struct \<times> bool res" where
  "tmp_add from name [] found y = (y, Inr found)"
| "tmp_add from name (m # ms) found y =
     (if mi_name m = name then
        (case ys_add (tmp_member_info from m) y of
           Inl e \<Rightarrow> (y, Inl e)
         | Inr (_, y') \<Rightarrow> tmp_add from name ms True y')
      else tmp_add from name ms found y)"

definition register_tmp_member ::
  "string \<Rightarrow> string option \<Rightarrow> string \<Rightarrow> class_decl \<Rightarrow> (registry, unit) sres" where
  "register_tmp_member n a mem from = (\<lambda>reg.
     let st = get_class_state reg n a in
     if mem \<in> set (cs_registered st) then (reg, Inr ())
     else
       (case tmp_add (cd_name from) mem (ys_members (get_yan_struct reg from)) False (cs_struct st) of
          (y, Inl e) \<Rightarrow> (reg(n \<mapsto> st\<lparr>cs_struct := y\<rparr>), Inl e)
        | (y, Inr found) \<Rightarrow>
            if found then
              (reg(n \<mapsto> st\<lparr>cs_struct := y, cs_registered := cs_registered st @ [mem]\<rparr>), Inr ())
            else
              (reg, Inl (Runtime_error (''no such member ['' @ mem @ ''] in struct ['' @
                                        ys_name (get_yan_struct reg from) @ '']'')))))"

text \<open>
  Constructing an object runs the registration of every member in declaration order; a struct
  member constructs its own object first.
\<close>

fun construct :: "class_decl \<Rightarrow> (registry, unit) sres"
and construct_members :: "string \<Rightarrow> string option \<Rightarrow> member_decl list \<Rightarrow> (registry, unit) sres"
and construct_member :: "string \<Rightarrow> string option \<Rightarrow> member_decl \<Rightarrow> (registry, unit) sres"
where
  "construct (CLASS n a ms) = construct_members n a ms"
| "construct_members n a [] = returnS ()"
| "construct_members n a (m # ms) =
     bindS (construct_member n a m) (\<lambda>_. construct_members n a ms)"
| "construct_member n a (MEMBER mem t args) =
     register_member n a mem ((CREATE_MEMBER_INFO mem t args)\<lparr>mi_member := Some t\<rparr>)"
| "construct_member n a (LIST_MEMBER mem t args) =
     register_member n a mem ((CREATE_MEMBER_INFO mem YT_LIST args)\<lparr>mi_list_member := Some (LI_basic t)\<rparr>)"
| "construct_member n a (LIST_STRUCT_MEMBER mem son args) =
     register_member n a mem
       ((CREATE_MEMBER_INFO mem YT_LIST args)\<lparr>mi_list_member := Some (LI_struct (cd_name son))\<rparr>)"
| "construct_member n a (STRUCT_MEMBER mem son args) =
     bindS (construct son) (\<lambda>_.
       register_member n a mem
         ((CREATE_MEMBER_INFO mem YT_STRUCT args)\<lparr>mi_struct_member := Some (cd_name son)\<rparr>))"
| "construct_member n a (TMP_MEMBER mem from) = register_tmp_member n a mem from"

definition field_bridge :: "registry \<Rightarrow> class_decl \<Rightarrow> string \<Rightarrow> class_decl \<Rightarrow> string \<Rightarrow> string res" where
  "field_bridge reg a af b bf =
     bindE (ys_get_member (get_yan_struct reg a) af) (\<lambda>ma.
     bindE (ys_get_member (get_yan_struct reg b) bf) (\<lambda>mb.
       Inr (ys_get_name (get_yan_struct reg a) @ ''.'' @ mi_get_name ma @ '' = '' @
            ys_get_name (get_yan_struct reg b) @ ''.'' @ mi_get_name mb)))"

section \<open>The registry invariant\<close>

text \<open>
  In a well-formed class state the name index, the member list, the set of registered statics and
  the sequence statics describe the same members, in registration order.
\<close>

definition struct_ok :: "yan_struct \<Rightarrow> bool" where
  "struct_ok y \<longleftrightarrow>
     (\<forall>n i. ys_ms y n = Some i \<longleftrightarrow> i < length (ys_members y) \<and> mi_name (ys_members y ! i) = n)"

definition class_state_ok :: "class_state \<Rightarrow> bool" where
  "class_state_ok st \<longleftrightarrow>
     struct_ok (cs_struct st) \<and>
     set (cs_registered st) = mi_name ` set (ys_members (cs_struct st)) \<and>
     (\<forall>n s. cs_seqs st n = Some s \<longrightarrow> (\<exists>i. ys_ms (cs_struct st) n = Some i \<and> s = of_nat i))"

definition registry_ok :: "registry \<Rightarrow> bool" where
  "registry_ok reg \<longleftrightarrow> (\<forall>n st. reg n = Some st \<longrightarrow> class_state_ok st)"

lemma registry_ok_empty [simp]: "registry_ok empty_registry"
  by (simp add: registry_ok_def empty_registry_def)

lemma fresh_class_state_ok [simp]: "class_state_ok (fresh_class_state n a)"
  by (simp add: class_state_ok_def fresh_class_state_def struct_ok_def)

lemma get_class_state_ok: "registry_ok reg \<Longrightarrow> class_state_ok (get_class_state reg n a)"
  by (simp add: get_class_state_def registry_ok_def split: option.splits)

lemma registry_ok_upd: "registry_ok reg \<Longrightarrow> class_state_ok st \<Longrightarrow> registry_ok (reg(n \<mapsto> st))"
  by (simp add: registry_ok_def)

lemma struct_ok_names:
  assumes "struct_ok y"
  shows "dom (ys_ms y) = mi_name ` set (ys_members y)"
proof -
  have "n \<in> dom (ys_ms y) \<longleftrightarrow> (\<exists>i < length (ys_members y). mi_name (ys_members y ! i) = n)" for n
    using assms by (auto simp: struct_ok_def dom_def)
  also have "\<dots> n \<longleftrightarrow> n \<in> set (map mi_name (ys_members y))" for n
    by (auto simp: in_set_conv_nth simp del: set_map)
  finally show ?thesis by auto
qed

lemma class_state_ok_fresh_seq:
  assumes "class_state_ok st" and "mem \<notin> mi_name ` set (ys_members (cs_struct st))"
  shows "cs_seqs st mem = None"
  using assms struct_ok_names [of "cs_struct st"]
  unfolding class_state_ok_def by (metis domIff not_None_eq)

lemma ys_add_ok:
  assumes "ys_add m y = Inr (s, y')" and "struct_ok y"
  shows "struct_ok y'" and "ys_members y' = ys_members y @ [m]"
    and "s = of_nat (length (ys_members y))"
    and "ys_ms y' = (ys_ms y)(mi_name m \<mapsto> length (ys_members y))"
    and "mi_name m \<notin> mi_name ` set (ys_members y)"
proof -
  from assms(1) have n: "ys_ms y (mi_name m) = None"
    and s: "s = of_nat (length (ys_members y))"
    and y': "y' = y\<lparr>ys_ms := (ys_ms y)(mi_name m \<mapsto> length (ys_members y)),
                    ys_members := ys_members y @ [m]\<rparr>"
    by (auto simp: ys_add_def split: option.splits)
  from n struct_ok_names [OF assms(2)] show nm: "mi_name m \<notin> mi_name ` set (ys_members y)"
    by (metis domIff)
  show "ys_members y' = ys_members y @ [m]" and "s = of_nat (length (ys_members y))"
    and "ys_ms y' = (ys_ms y)(mi_name m \<mapsto> length (ys_members y))"
    by (simp_all add: y' s)
  have nm': "mi_name (ys_members y ! i) \<noteq> mi_name m" if "i < length (ys_members y)" for i
    using nm that by (metis image_eqI nth_mem)
  show "struct_ok y'"
    unfolding struct_ok_def y'
  proof (intro allI)
    fix k i
    show "ys_ms (y\<lparr>ys_ms := (ys_ms y)(mi_name m \<mapsto> length (ys_members y)),
                   ys_members := ys_members y @ [m]\<rparr>) k = Some i \<longleftrightarrow>
          i < length (ys_members (y\<lparr>ys_ms := (ys_ms y)(mi_name m \<mapsto> length (ys_members y)),
                                    ys_members := ys_members y @ [m]\<rparr>)) \<and>
          mi_name (ys_members (y\<lparr>ys_ms := (ys_ms y)(mi_name m \<mapsto> length (ys_members y)),
                                 ys_members := ys_members y @ [m]\<rparr>) ! i) = k"
      using assms(2) nm' unfolding struct_ok_def by (auto simp: nth_append less_Suc_eq)
  qed
qed

lemma set_member_seq_simps [simp]:
  "cs_struct (set_member_seq mem s st) = cs_struct st"
  "cs_registered (set_member_seq mem s st) = cs_registered st"
  by (simp_all add: set_member_seq_def split: option.splits)

lemma register_member_ok:
  assumes "registry_ok reg" and "mi_name info = mem"
  shows "registry_ok (fst (register_member n a mem info reg))"
proof (cases "mem \<in> set (cs_registered (get_class_state reg n a))")
  case True
  with assms show ?thesis by (simp add: register_member_def)
next
  case False
  let ?st = "get_class_state reg n a"
  have st: "class_state_ok ?st" using assms(1) by (rule get_class_state_ok)
  show ?thesis
  proof (cases "ys_add info (cs_struct ?st)")
    case (Inl e)
    with False assms show ?thesis by (simp add: register_member_def Let_def)
  next
    case (Inr p)
    obtain s y where p: "p = (s, y)" by force
    have so: "struct_ok (cs_struct ?st)" using st by (simp add: class_state_ok_def)
    note add = ys_add_ok [OF Inr [unfolded p] so]
    have "cs_seqs ?st mem = None"
      using class_state_ok_fresh_seq [OF st] add(5) assms(2) by simp
    then have "class_state_ok (set_member_seq mem s
        (?st\<lparr>cs_struct := y, cs_registered := cs_registered ?st @ [mem]\<rparr>))"
      using st add assms(2) by (auto simp: class_state_ok_def set_member_seq_def)
    with False Inr p assms(1) show ?thesis
      by (simp add: register_member_def Let_def registry_ok_upd)
  qed
qed

lemma tmp_member_info_name [simp]: "mi_name (tmp_member_info from m) = mi_name m"
  by (simp add: tmp_member_info_def base_member_info_def)

lemma tmp_add_none: "mem \<notin> mi_name ` set ms \<Longrightarrow> tmp_add from mem ms found y = (y, Inr found)"
  by (induction ms) auto

lemma tmp_add_distinct:
  "distinct (map mi_name ms) \<Longrightarrow>
    tmp_add from mem ms False y =
      (case find (\<lambda>m. mi_name m = mem) ms of
         None \<Rightarrow> (y, Inr False)
       | Some m \<Rightarrow> (case ys_add (tmp_member_info from m) y of
                      Inl e \<Rightarrow> (y, Inl e) | Inr (_, y') \<Rightarrow> (y', Inr True)))"
  by (induction ms) (auto simp: tmp_add_none split: sum.splits)

lemma struct_ok_distinct: "struct_ok y \<Longrightarrow> distinct (map mi_name (ys_members y))"
  unfolding struct_ok_def distinct_conv_nth by (metis length_map nth_map option.inject)

lemma register_tmp_member_ok:
  assumes "registry_ok reg"
  shows "registry_ok (fst (register_tmp_member n a mem from reg))"
proof (cases "mem \<in> set (cs_registered (get_class_state reg n a))")
  case True
  with assms show ?thesis by (simp add: register_tmp_member_def)
next
  case False
  let ?st = "get_class_state reg n a" and ?ms = "ys_members (get_yan_struct reg from)"
  have st: "class_state_ok ?st" using assms by (rule get_class_state_ok)
  have so: "struct_ok (cs_struct ?st)" using st by (simp add: class_state_ok_def)
  have "struct_ok (get_yan_struct reg from)"
    using get_class_state_ok [OF assms] by (simp add: get_yan_struct_def class_state_ok_def)
  then have d: "distinct (map mi_name ?ms)" by (rule struct_ok_distinct)
  show ?thesis
  proof (cases "find (\<lambda>m. mi_name m = mem) ?ms")
    case None
    with False assms d show ?thesis
      by (simp add: register_tmp_member_def tmp_add_distinct Let_def)
  next
    case (Some m)
    then have mem: "mi_name m = mem" by (auto simp: find_Some_iff)
    show ?thesis
    proof (cases "ys_add (tmp_member_info (cd_name from) m) (cs_struct ?st)")
      case (Inl e)
      have "class_state_ok (?st\<lparr>cs_struct := cs_struct ?st\<rparr>)" using st by simp
      with Inl False Some d assms show ?thesis
        by (simp add: register_tmp_member_def tmp_add_distinct Let_def registry_ok_upd)
    next
      case (Inr p)
      obtain s y where p: "p = (s, y)" by force
      note add = ys_add_ok [OF Inr [unfolded p] so]
      have "class_state_ok (?st\<lparr>cs_struct := y, cs_registered := cs_registered ?st @ [mem]\<rparr>)"
        using st add mem class_state_ok_fresh_seq [OF st, of mem]
        unfolding class_state_ok_def by auto
      with Inr p False Some d assms show ?thesis
        by (simp add: register_tmp_member_def tmp_add_distinct Let_def registry_ok_upd)
    qed
  qed
qed

lemma bindS_fst_inv:
  assumes "P (fst (m s))" and "\<And>x s'. P s' \<Longrightarrow> P (fst (f x s'))"
  shows "P (fst (bindS m f s))"
  using assms by (auto simp: bindS_apply split: prod.splits sum.splits)

lemma construct_registry_ok_aux:
  "registry_ok reg \<Longrightarrow> registry_ok (fst (construct c reg))"
  "registry_ok reg \<Longrightarrow> registry_ok (fst (construct_members n a ms reg))"
  "registry_ok reg \<Longrightarrow> registry_ok (fst (construct_member n a m reg))"
proof (induction c and n a ms and n a m arbitrary: reg and reg and reg
    rule: construct_construct_members_construct_member.induct)
  case (3 n a m ms)
  show ?case
    unfolding construct_members.simps
    by (rule bindS_fst_inv [where P = registry_ok]) (use 3 in blast)+
next
  case (7 n a mem son args)
  show ?case
    unfolding construct_member.simps
    by (rule bindS_fst_inv [where P = registry_ok])
      (use 7 in \<open>simp_all add: register_member_ok\<close>)
qed (simp_all add: register_member_ok register_tmp_member_ok)

text \<open>
  C17: constructing an object of any class, whether it succeeds or throws part-way, keeps the
  registry well formed: names stay unique, the name index agrees with the member list, every
  registered static has its member and every sequence number is the member's index.
\<close>

theorem construct_registry_ok:
  assumes "registry_ok reg"
  shows "registry_ok (fst (construct c reg))"
  using assms by (rule construct_registry_ok_aux)

theorem construct_registry_ok_witness:
  "registry_ok empty_registry \<and>
   registry_ok (fst (construct (CLASS ''T'' None [MEMBER ''a'' YT_INT32 Args0]) empty_registry))"
  by (rule conjI [OF registry_ok_empty construct_registry_ok [OF registry_ok_empty]])

section \<open>Registration is complete and happens once\<close>

definition is_registered :: "registry \<Rightarrow> string \<Rightarrow> string \<Rightarrow> bool" where
  "is_registered reg n mem \<longleftrightarrow> (case reg n of None \<Rightarrow> False | Some st \<Rightarrow> mem \<in> set (cs_registered st))"

fun all_registered :: "registry \<Rightarrow> class_decl \<Rightarrow> bool"
and member_registered :: "registry \<Rightarrow> string \<Rightarrow> member_decl \<Rightarrow> bool"
where
  "all_registered reg (CLASS n a ms) \<longleftrightarrow> list_all (member_registered reg n) ms"
| "member_registered reg n (STRUCT_MEMBER mem son _) \<longleftrightarrow> all_registered reg son \<and> is_registered reg n mem"
| "member_registered reg n (MEMBER mem _ _) \<longleftrightarrow> is_registered reg n mem"
| "member_registered reg n (LIST_MEMBER mem _ _) \<longleftrightarrow> is_registered reg n mem"
| "member_registered reg n (LIST_STRUCT_MEMBER mem _ _) \<longleftrightarrow> is_registered reg n mem"
| "member_registered reg n (TMP_MEMBER mem _) \<longleftrightarrow> is_registered reg n mem"

definition registry_le :: "registry \<Rightarrow> registry \<Rightarrow> bool" where
  "registry_le r r' \<longleftrightarrow> (\<forall>n mem. is_registered r n mem \<longrightarrow> is_registered r' n mem)"

lemma registry_le_refl [simp, intro]: "registry_le r r"
  by (simp add: registry_le_def)

lemma registry_le_trans [trans]: "registry_le r s \<Longrightarrow> registry_le s t \<Longrightarrow> registry_le r t"
  by (simp add: registry_le_def)

lemma is_registered_state:
  "is_registered reg n mem \<longleftrightarrow> mem \<in> set (cs_registered (get_class_state reg n a))"
  by (simp add: is_registered_def get_class_state_def fresh_class_state_def split: option.splits)

lemma registry_le_upd:
  "set (cs_registered (get_class_state reg n a)) \<subseteq> set (cs_registered st) \<Longrightarrow> registry_le reg (reg(n \<mapsto> st))"
  unfolding registry_le_def is_registered_state [where a = a]
  by (auto simp: get_class_state_def)

lemma register_member_le: "registry_le reg (fst (register_member n a mem info reg))"
  by (auto simp: register_member_def Let_def intro: registry_le_upd [where a = a] split: sum.splits)

lemma register_tmp_member_le: "registry_le reg (fst (register_tmp_member n a mem from reg))"
  by (auto simp: register_tmp_member_def Let_def intro: registry_le_upd [where a = a]
      split: sum.splits prod.splits)

lemma register_member_done:
  "register_member n a mem info reg = (reg', Inr u) \<Longrightarrow> is_registered reg' n mem"
  by (auto simp: register_member_def Let_def is_registered_state [where a = a] get_class_state_def
      split: sum.splits if_splits)

lemma register_tmp_member_done:
  "register_tmp_member n a mem from reg = (reg', Inr u) \<Longrightarrow> is_registered reg' n mem"
  by (auto simp: register_tmp_member_def Let_def is_registered_state [where a = a] get_class_state_def
      split: sum.splits if_splits prod.splits)

lemma register_member_again:
  "is_registered reg n mem \<Longrightarrow> register_member n a mem info reg = (reg, Inr ())"
  by (simp add: register_member_def is_registered_state [where a = a])

lemma register_tmp_member_again:
  "is_registered reg n mem \<Longrightarrow> register_tmp_member n a mem from reg = (reg, Inr ())"
  by (simp add: register_tmp_member_def is_registered_state [where a = a])

interpretation reg_frame: frame_rel registry_le
  by unfold_locales (auto intro: registry_le_trans)

lemma construct_keeps_aux:
  "keeps registry_le (construct c)"
  "keeps registry_le (construct_members n a ms)"
  "keeps registry_le (construct_member n a m)"
proof (induction c and n a ms and n a m rule: construct_construct_members_construct_member.induct)
  case (3 n a m ms)
  then show ?case by (simp add: reg_frame.keeps_bindS)
next
  case (7 n a mem son args)
  have "keeps registry_le (register_member n a mem info)" for info
    by (simp add: keeps_def register_member_le)
  with 7 show ?case by (simp add: reg_frame.keeps_bindS)
qed (simp_all add: keeps_def register_member_le register_tmp_member_le)

lemmas construct_le_aux = construct_keeps_aux [THEN keepsD]

lemma all_registered_mono_aux:
  "registry_le r r' \<Longrightarrow> all_registered r c \<Longrightarrow> all_registered r' c"
  "registry_le r r' \<Longrightarrow> member_registered r n m \<Longrightarrow> member_registered r' n m"
proof (induction r c and r n m rule: all_registered_member_registered.induct)
  case (1 reg n a ms)
  then show ?case by (auto simp: list_all_iff)
qed (auto simp: registry_le_def)

lemma bindS_InrD:
  assumes "bindS m f s = (t, Inr y)"
  obtains s' x where "m s = (s', Inr x)" and "f x s' = (t, Inr y)"
  using assms by (auto simp: bindS_apply split: prod.splits sum.splits)

lemma construct_done_aux:
  "construct c reg = (reg', Inr u) \<Longrightarrow> all_registered reg' c"
  "construct_members n a ms reg = (reg', Inr u) \<Longrightarrow> list_all (member_registered reg' n) ms"
  "construct_member n a m reg = (reg', Inr u) \<Longrightarrow> member_registered reg' n m"
proof (induction c and n a ms and n a m arbitrary: reg reg' u and reg reg' u and reg reg' u
    rule: construct_construct_members_construct_member.induct)
  case (3 n a m ms)
  from "3.prems" obtain r v where m: "construct_member n a m reg = (r, Inr v)"
    and ms: "construct_members n a ms r = (reg', Inr u)"
    by (auto elim: bindS_InrD)
  from construct_le_aux(2) [of r n a ms] ms have "registry_le r reg'" by simp
  with "3.IH"(1) [OF m] have "member_registered reg' n m" by (rule all_registered_mono_aux(2) [rotated])
  with "3.IH"(2) [OF ms] show ?case by simp
next
  case (7 n a mem son args)
  from "7.prems" obtain r v where son: "construct son reg = (r, Inr v)"
    and m: "register_member n a mem ((CREATE_MEMBER_INFO mem YT_STRUCT args)
              \<lparr>mi_struct_member := Some (cd_name son)\<rparr>) r = (reg', Inr u)"
    by (auto elim: bindS_InrD)
  from register_member_le [of r] m have "registry_le r reg'" by (metis fst_conv)
  with "7.IH" [OF son] have "all_registered reg' son" by (rule all_registered_mono_aux(1) [rotated])
  with register_member_done [OF m] show ?case by simp
qed (auto dest: register_member_done register_tmp_member_done)

lemma construct_again_aux:
  "all_registered reg c \<Longrightarrow> construct c reg = (reg, Inr ())"
  "list_all (member_registered reg n) ms \<Longrightarrow> construct_members n a ms reg = (reg, Inr ())"
  "member_registered reg n m \<Longrightarrow> construct_member n a m reg = (reg, Inr ())"
  by (induction c and n a ms and n a m
      rule: construct_construct_members_construct_member.induct)
    (simp_all add: bindS_apply register_member_again register_tmp_member_again)

text \<open>
  Once an object of a class has been constructed successfully, constructing further objects
  of it leaves the registry exactly as it is (the static registrations run once).
\<close>

theorem construct_idempotent:
  assumes "construct c reg = (reg', Inr ())"
  shows "construct c reg' = (reg', Inr ())"
  using construct_done_aux(1) [OF assms] by (rule construct_again_aux)

section \<open>The layout that registration produces\<close>

text \<open>The two tables of the repository's SQLite tests, used as concrete instances.\<close>

definition MaintainDB :: class_decl where
  "MaintainDB = CLASS ''MaintainDB'' (Some ''tm'')
     [MEMBER ''id'' YT_AUTO_INCREMENT Args0, MEMBER ''name'' YT_STRING (Args1 ''n''),
      MEMBER ''type'' YT_INT32 (Args2 ''t'' CAN_BE_NULL), MEMBER ''point'' YT_INT32 (Args1 ''p''),
      MEMBER ''data'' YT_INT32 (Args1 ''d''), MEMBER ''online'' YT_DATE (Args1 ''o'')]"

definition ComponentDB :: class_decl where
  "ComponentDB = CLASS ''ComponentDB'' (Some ''tc'')
     [MEMBER ''id'' YT_AUTO_INCREMENT Args0, MEMBER ''component'' YT_STRING (Args1 ''c''),
      MEMBER ''name'' YT_STRING (Args1 ''n''), MEMBER ''version'' YT_STRING (Args1 ''v''),
      MEMBER ''his_version'' YT_STRING (Args1 ''h'')]"

fun decl_info :: "member_decl \<Rightarrow> member_info" where
  "decl_info (MEMBER mem t args) = (CREATE_MEMBER_INFO mem t args)\<lparr>mi_member := Some t\<rparr>"
| "decl_info (LIST_MEMBER mem t args) =
     (CREATE_MEMBER_INFO mem YT_LIST args)\<lparr>mi_list_member := Some (LI_basic t)\<rparr>"
| "decl_info (LIST_STRUCT_MEMBER mem son args) =
     (CREATE_MEMBER_INFO mem YT_LIST args)\<lparr>mi_list_member := Some (LI_struct (cd_name son))\<rparr>"
| "decl_info (STRUCT_MEMBER mem son args) =
     (CREATE_MEMBER_INFO mem YT_STRUCT args)\<lparr>mi_struct_member := Some (cd_name son)\<rparr>"
| "decl_info (TMP_MEMBER mem from) = base_member_info mem YT_UNKNOWN ''''"

text \<open>The classes whose objects sit inside an object of the class, and freedom from
  \<open>TMP_MEMBER\<close>s.\<close>

fun struct_names :: "class_decl \<Rightarrow> string list"
and member_struct_names :: "member_decl \<Rightarrow> string list" where
  "struct_names (CLASS n a ms) = n # concat (map member_struct_names ms)"
| "member_struct_names (STRUCT_MEMBER _ son _) = struct_names son"
| "member_struct_names (MEMBER _ _ _) = []"
| "member_struct_names (LIST_MEMBER _ _ _) = []"
| "member_struct_names (LIST_STRUCT_MEMBER _ _ _) = []"
| "member_struct_names (TMP_MEMBER _ _) = []"

fun no_tmp :: "class_decl \<Rightarrow> bool" and member_no_tmp :: "member_decl \<Rightarrow> bool" where
  "no_tmp (CLASS n a ms) \<longleftrightarrow> list_all member_no_tmp ms"
| "member_no_tmp (STRUCT_MEMBER _ son _) \<longleftrightarrow> no_tmp son"
| "member_no_tmp (MEMBER _ _ _) \<longleftrightarrow> True"
| "member_no_tmp (LIST_MEMBER _ _ _) \<longleftrightarrow> True"
| "member_no_tmp (LIST_STRUCT_MEMBER _ _ _) \<longleftrightarrow> True"
| "member_no_tmp (TMP_MEMBER _ _) \<longleftrightarrow> False"

lemma decl_info_name [simp]: "mi_name (decl_info m) = member_decl_name m"
  by (cases m) (simp_all add: base_member_info_def)

lemma construct_member_plain:
  "member_no_tmp m \<Longrightarrow>
    construct_member n a m =
      (case m of
         STRUCT_MEMBER mem son args \<Rightarrow>
           bindS (construct son) (\<lambda>_. register_member n a mem (decl_info m))
       | _ \<Rightarrow> register_member n a (member_decl_name m) (decl_info m))"
  by (cases m) simp_all

lemma register_member_succeeds:
  assumes "registry_ok reg" and "mi_name info = mem"
  shows "snd (register_member n a mem info reg) = Inr ()"
proof (cases "mem \<in> set (cs_registered (get_class_state reg n a))")
  case True
  then show ?thesis by (simp add: register_member_def)
next
  case False
  let ?y = "cs_struct (get_class_state reg n a)"
  from get_class_state_ok [OF assms(1), of n a] False
  have "struct_ok ?y" and "mem \<notin> mi_name ` set (ys_members ?y)"
    by (auto simp: class_state_ok_def)
  then have "ys_ms ?y mem = None" using struct_ok_names by (metis domIff)
  with False assms(2) show ?thesis by (simp add: register_member_def Let_def ys_add_def)
qed

lemma construct_succeeds_aux:
  "registry_ok reg \<Longrightarrow> no_tmp c \<Longrightarrow> snd (construct c reg) = Inr ()"
  "registry_ok reg \<Longrightarrow> list_all member_no_tmp ms \<Longrightarrow> snd (construct_members n a ms reg) = Inr ()"
  "registry_ok reg \<Longrightarrow> member_no_tmp m \<Longrightarrow> snd (construct_member n a m reg) = Inr ()"
proof (induction c and n a ms and n a m arbitrary: reg and reg and reg
    rule: construct_construct_members_construct_member.induct)
  case (3 n a m ms)
  then have "snd (construct_member n a m reg) = Inr ()" by simp
  moreover have "registry_ok (fst (construct_member n a m reg))"
    using 3 by (simp add: construct_registry_ok_aux)
  ultimately show ?case using 3 by (simp add: bindS_succ)
next
  case (7 n a mem son args)
  then have "snd (construct son reg) = Inr ()" and "registry_ok (fst (construct son reg))"
    by (simp_all add: construct_registry_ok_aux)
  then show ?case by (simp add: bindS_succ register_member_succeeds)
qed (simp_all add: register_member_succeeds)

lemma register_member_frame: "n \<noteq> k \<Longrightarrow> fst (register_member n a mem info reg) k = reg k"
  by (auto simp: register_member_def Let_def split: sum.splits)

lemma construct_frame_aux:
  "no_tmp c \<Longrightarrow> k \<notin> set (struct_names c) \<Longrightarrow> fst (construct c reg) k = reg k"
  "list_all member_no_tmp ms \<Longrightarrow> k \<noteq> n \<Longrightarrow> k \<notin> set (concat (map member_struct_names ms)) \<Longrightarrow>
     fst (construct_members n a ms reg) k = reg k"
  "member_no_tmp m \<Longrightarrow> k \<noteq> n \<Longrightarrow> k \<notin> set (member_struct_names m) \<Longrightarrow>
     fst (construct_member n a m reg) k = reg k"
  by (induction c and n a ms and n a m arbitrary: reg and reg and reg
      rule: construct_construct_members_construct_member.induct)
    (fastforce simp: bindS_apply register_member_frame split: prod.splits sum.splits
       dest: arg_cong [where f = fst])+

lemma register_member_fresh:
  assumes "registry_ok reg" and "mem \<notin> set (cs_registered (get_class_state reg n a))"
    and "mi_name info = mem"
  defines "st \<equiv> get_class_state reg n a"
  defines "st' \<equiv> get_class_state (fst (register_member n a mem info reg)) n a"
  shows "ys_members (cs_struct st') = ys_members (cs_struct st) @ [info]"
    and "cs_registered st' = cs_registered st @ [mem]"
    and "cs_seqs st' = (cs_seqs st)(mem \<mapsto> of_nat (length (ys_members (cs_struct st))))"
    and "ys_name (cs_struct st') = ys_name (cs_struct st)"
    and "ys_alias (cs_struct st') = ys_alias (cs_struct st)"
proof -
  have ok: "class_state_ok st" unfolding st_def using assms(1) by (rule get_class_state_ok)
  with assms(2) have mem: "mem \<notin> mi_name ` set (ys_members (cs_struct st))"
    by (simp add: class_state_ok_def st_def)
  with ok have "ys_ms (cs_struct st) mem = None"
    using struct_ok_names [of "cs_struct st"] by (metis class_state_ok_def domIff)
  moreover from ok mem have "cs_seqs st mem = None" by (rule class_state_ok_fresh_seq)
  ultimately have "st' = st\<lparr>cs_struct := (cs_struct st)\<lparr>
          ys_ms := (ys_ms (cs_struct st))(mem \<mapsto> length (ys_members (cs_struct st))),
          ys_members := ys_members (cs_struct st) @ [info]\<rparr>,
        cs_registered := cs_registered st @ [mem],
        cs_seqs := (cs_seqs st)(mem \<mapsto> of_nat (length (ys_members (cs_struct st))))\<rparr>"
    using assms(2,3) unfolding st'_def st_def
    by (simp add: register_member_def Let_def ys_add_def set_member_seq_def get_class_state_def)
  then show "ys_members (cs_struct st') = ys_members (cs_struct st) @ [info]"
    and "cs_registered st' = cs_registered st @ [mem]"
    and "cs_seqs st' = (cs_seqs st)(mem \<mapsto> of_nat (length (ys_members (cs_struct st))))"
    and "ys_name (cs_struct st') = ys_name (cs_struct st)"
    and "ys_alias (cs_struct st') = ys_alias (cs_struct st)"
    by simp_all
qed

text \<open>The registry seen by a member's own registration: a struct member has constructed its object.\<close>

fun before_register :: "member_decl \<Rightarrow> registry \<Rightarrow> registry" where
  "before_register (STRUCT_MEMBER _ son _) reg = fst (construct son reg)"
| "before_register _ reg = reg"

lemma construct_member_split:
  assumes "registry_ok reg" and "member_no_tmp m"
  shows "construct_member n a m reg =
    register_member n a (member_decl_name m) (decl_info m) (before_register m reg)"
    and "registry_ok (before_register m reg)"
    and "n \<notin> set (member_struct_names m) \<Longrightarrow> get_class_state (before_register m reg) n a = get_class_state reg n a"
  using assms
  by (cases m; simp add: bindS_succ construct_succeeds_aux construct_registry_ok_aux
      construct_frame_aux get_class_state_def)+

lemma construct_members_layout:
  assumes "registry_ok reg" and "list_all member_no_tmp ms"
    and "distinct (map member_decl_name ms)" and "n \<notin> set (concat (map member_struct_names ms))"
    and "set (map member_decl_name ms) \<inter> set (cs_registered (get_class_state reg n a)) = {}"
  defines "st \<equiv> get_class_state reg n a"
  defines "st' \<equiv> get_class_state (fst (construct_members n a ms reg)) n a"
  shows "ys_members (cs_struct st') = ys_members (cs_struct st) @ map decl_info ms \<and>
    ys_name (cs_struct st') = ys_name (cs_struct st) \<and> ys_alias (cs_struct st') = ys_alias (cs_struct st) \<and>
    (\<forall>k. k \<notin> set (map member_decl_name ms) \<longrightarrow> cs_seqs st' k = cs_seqs st k) \<and>
    (\<forall>i < length ms. cs_seqs st' (member_decl_name (ms ! i)) =
        Some (of_nat (length (ys_members (cs_struct st)) + i)))"
  unfolding st_def st'_def using assms(1-5)
proof (induction ms arbitrary: reg)
  case (Cons m ms)
  let ?r1 = "fst (construct_member n a m reg)"
  note split = construct_member_split [OF Cons.prems(1)]
  have plain: "member_no_tmp m" using Cons.prems(2) by simp
  have same: "get_class_state (before_register m reg) n a = get_class_state reg n a"
    using split(3) plain Cons.prems(4) by simp
  have fresh: "member_decl_name m \<notin> set (cs_registered (get_class_state (before_register m reg) n a))"
    using Cons.prems(5) same by simp
  note reg = register_member_fresh [OF split(2) [OF plain] fresh decl_info_name,
      folded split(1) [OF plain], unfolded same]
  have ok1: "registry_ok ?r1" using Cons.prems(1) by (rule construct_registry_ok_aux)
  have "set (map member_decl_name ms) \<inter> set (cs_registered (get_class_state ?r1 n a)) = {}"
    using Cons.prems(3,5) reg(2) by auto
  note IH = Cons.IH [OF ok1 _ _ _ this]
  have step: "construct_members n a (m # ms) reg = construct_members n a ms ?r1"
    using construct_succeeds_aux(3) [OF Cons.prems(1) plain, of n a] by (simp add: bindS_succ)
  show ?case unfolding step
    using IH Cons.prems(2-4) reg by (auto simp: nth_Cons less_Suc_eq_0_disj split: nat.splits)
qed simp

lemma construct_layout_aux:
  assumes "registry_ok reg" and "reg n = None" and "list_all member_no_tmp ms"
    and "distinct (map member_decl_name ms)" and "n \<notin> set (concat (map member_struct_names ms))"
  shows "\<exists>reg'. construct (CLASS n a ms) reg = (reg', Inr ()) \<and>
    ys_members (get_yan_struct reg' (CLASS n a ms)) = map decl_info ms \<and>
    (\<forall>i < length ms. member_seq reg' n (member_decl_name (ms ! i)) = of_nat i)"
proof -
  let ?c = "CLASS n a ms"
  have none: "get_class_state reg n a = fresh_class_state n a"
    by (simp add: get_class_state_def assms(2))
  have "snd (construct ?c reg) = Inr ()"
    using assms(1,3) by (intro construct_succeeds_aux) simp_all
  then have c: "construct ?c reg = (fst (construct ?c reg), Inr ())" by (metis prod.collapse)
  have "set (map member_decl_name ms) \<inter> set (cs_registered (get_class_state reg n a)) = {}"
    by (simp add: none fresh_class_state_def)
  note L = construct_members_layout [OF assms(1,3,4,5) this, unfolded none]
  have "member_seq (fst (construct ?c reg)) n (member_decl_name (ms ! i)) = of_nat i"
    if "i < length ms" for i
  proof -
    have "cs_seqs (get_class_state (fst (construct ?c reg)) n a) (member_decl_name (ms ! i))
      = Some (of_nat i)"
      using L that by (simp add: fresh_class_state_def)
    then show ?thesis
      by (auto simp: member_seq_def get_class_state_def fresh_class_state_def split: option.splits)
  qed
  with c L show ?thesis
    by (intro exI [of _ "fst (construct ?c reg)"])
      (simp add: get_yan_struct_def fresh_class_state_def)
qed



theorem construct_idempotent_witness:
  "\<exists>reg'. construct ComponentDB empty_registry = (reg', Inr ()) \<and>
     construct ComponentDB reg' = (reg', Inr ())"
proof -
  have "snd (construct ComponentDB empty_registry) = Inr ()"
    by (rule construct_succeeds_aux) (simp_all add: ComponentDB_def)
  then have c: "construct ComponentDB empty_registry = (fst (construct ComponentDB empty_registry), Inr ())"
    by (metis prod.collapse)
  show ?thesis using c construct_idempotent [OF c] by blast
qed

end
