(* ===== verification/Yan_Object.thy ===== *)
theory Yan_Object
  imports Yan_Registry
begin

text \<open>
  The objects that the macros of \<open>src/base/ref.h\<close> generate, in an explicit store.  Each object
  keeps the set of the members that were assigned, the list of its conditions (behind a shared
  pointer), the hash text of those conditions and its members; every member keeps the pointer
  \<open>obj_\<close> to the object it registers its assignments with.  Copying an object copies these pointers
  as they are, which the store makes visible.  The callbacks \<open>deepcb_\<close>/\<open>condcb_\<close> of an object inside
  another one are the chain of (enclosing object, member name) pairs captured at construction.
\<close>

section \<open>The store\<close>

type_synonym addr = nat

text \<open>An uninitialised scalar has no value (\<open>None\<close>); a \<open>std::string\<close> starts empty.\<close>

record value_member =
  vm_cond :: "8 word"
  vm_flag :: bool
  vm_value :: "yan_val option"
  vm_obj :: addr

record list_member =
  lm_cond :: "8 word"
  lm_flag :: bool
  lm_items :: "yan_val list"
  lm_obj :: addr

record lstruct_member =
  sm_flag :: bool
  sm_items :: "addr list"
  sm_cond :: "addr option"
  sm_obj :: addr

datatype member_obj =
    MO_value value_member
  | MO_list list_member
  | MO_lstruct lstruct_member
  | MO_struct addr
  | MO_tmp bool "yan_val option"

record yan_obj =
  ob_class :: class_decl
  ob_seqset :: "16 word list"
  ob_conds :: "addr option"
  ob_hashv :: string
  ob_chain :: "(addr \<times> string) list"
  ob_mems :: "string \<Rightarrow> member_obj option"

record world =
  w_reg :: registry
  w_objs :: "addr \<Rightarrow> yan_obj option"
  w_plists :: "addr \<Rightarrow> param list option"
  w_next :: addr

definition empty_world :: world where
  "empty_world = \<lparr>w_reg = empty_registry, w_objs = (\<lambda>_. None), w_plists = (\<lambda>_. None), w_next = 0\<rparr>"

definition put_obj :: "addr \<Rightarrow> yan_obj \<Rightarrow> world \<Rightarrow> world" where
  "put_obj p ob w = w\<lparr>w_objs := (w_objs w)(p \<mapsto> ob)\<rparr>"

definition put_mem :: "string \<Rightarrow> member_obj \<Rightarrow> yan_obj \<Rightarrow> yan_obj" where
  "put_mem mem m ob = ob\<lparr>ob_mems := (ob_mems ob)(mem \<mapsto> m)\<rparr>"

text \<open>Run \<open>f\<close> on the object at an address; a dangling address is undefined behaviour.\<close>

definition with_obj :: "addr \<Rightarrow> (yan_obj \<Rightarrow> (world, 'a) sres) \<Rightarrow> (world, 'a) sres" where
  "with_obj p f = (\<lambda>w. case w_objs w p of None \<Rightarrow> (w, Inl Undefined_behaviour) | Some ob \<Rightarrow> f ob w)"

definition modify_obj :: "addr \<Rightarrow> (yan_obj \<Rightarrow> yan_obj) \<Rightarrow> (world, unit) sres" where
  "modify_obj p f = with_obj p (\<lambda>ob w. (put_obj p (f ob) w, Inr ()))"

section \<open>Construction\<close>

definition init_val :: "ctype \<Rightarrow> yan_val option" where
  "init_val t = (if t = C_string then Some (V_string '''') else None)"

definition tag_init_val :: "yan_type \<Rightarrow> yan_val option" where
  "tag_init_val t = Option.bind (YanType2Type t) init_val"

definition fresh_obj :: "class_decl \<Rightarrow> (addr \<times> string) list \<Rightarrow> yan_obj" where
  "fresh_obj c chain =
     \<lparr>ob_class = c, ob_seqset = [], ob_conds = None, ob_hashv = '''', ob_chain = chain,
      ob_mems = (\<lambda>_. None)\<rparr>"

fun alloc :: "class_decl \<Rightarrow> (addr \<times> string) list \<Rightarrow> world \<Rightarrow> addr \<times> world"
and alloc_members :: "addr \<Rightarrow> (addr \<times> string) list \<Rightarrow> member_decl list \<Rightarrow> (string \<Rightarrow> member_obj option) \<Rightarrow>
       world \<Rightarrow> (string \<Rightarrow> member_obj option) \<times> world"
and alloc_member :: "addr \<Rightarrow> (addr \<times> string) list \<Rightarrow> member_decl \<Rightarrow> world \<Rightarrow> member_obj \<times> world"
where
  "alloc (CLASS n a ms) chain w =
     (let p = w_next w;
          (mems, w') = alloc_members p chain ms (\<lambda>_. None) (w\<lparr>w_next := p + 1\<rparr>)
      in (p, put_obj p ((fresh_obj (CLASS n a ms) chain)\<lparr>ob_mems := mems\<rparr>) w'))"
| "alloc_members p chain [] mems w = (mems, w)"
| "alloc_members p chain (m # ms) mems w =
     (let (mo, w') = alloc_member p chain m w
      in alloc_members p chain ms (mems(member_decl_name m \<mapsto> mo)) w')"
| "alloc_member p chain (MEMBER mem t _) w =
     (MO_value \<lparr>vm_cond = 0, vm_flag = False, vm_value = tag_init_val t, vm_obj = p\<rparr>, w)"
| "alloc_member p chain (LIST_MEMBER mem t _) w =
     (MO_list \<lparr>lm_cond = 0, lm_flag = False, lm_items = [], lm_obj = p\<rparr>, w)"
| "alloc_member p chain (LIST_STRUCT_MEMBER mem son _) w =
     (MO_lstruct \<lparr>sm_flag = False, sm_items = [], sm_cond = None, sm_obj = p\<rparr>, w)"
| "alloc_member p chain (STRUCT_MEMBER mem son _) w =
     (let (q, w') = alloc son ((p, mem) # chain) w in (MO_struct q, w'))"
| "alloc_member p chain (TMP_MEMBER mem from) w = (MO_tmp False None, w)"

text \<open>The constructor: the registrations first, then the object (with the callbacks \<open>chain\<close>).\<close>

definition new_object :: "class_decl \<Rightarrow> (addr \<times> string) list \<Rightarrow> (world, addr) sres" where
  "new_object c chain = (\<lambda>w.
     case construct c (w_reg w) of
       (reg, Inl e) \<Rightarrow> (w\<lparr>w_reg := reg\<rparr>, Inl e)
     | (reg, Inr _) \<Rightarrow> (let (p, w') = alloc c chain (w\<lparr>w_reg := reg\<rparr>) in (w', Inr p)))"

section \<open>Registering assignments and conditions\<close>

definition insert_seq :: "addr \<Rightarrow> 16 word \<Rightarrow> (world, unit) sres" where
  "insert_seq p seq = modify_obj p (\<lambda>ob. ob\<lparr>ob_seqset := sset_insert seq (ob_seqset ob)\<rparr>)"

definition obj_member_seq :: "yan_obj \<Rightarrow> string \<Rightarrow> world \<Rightarrow> 16 word" where
  "obj_member_seq ob mem w = member_seq (w_reg w) (cd_name (ob_class ob)) mem"

fun run_deepcb :: "(addr \<times> string) list \<Rightarrow> (world, unit) sres" where
  "run_deepcb [] = returnS ()"
| "run_deepcb ((q, mem) # chain) =
     bindS (with_obj q (\<lambda>ob w. insert_seq q (obj_member_seq ob mem w) w)) (\<lambda>_. run_deepcb chain)"

text \<open>\<open>append(seq)\<close>: insert and notify the enclosing objects.\<close>

definition obj_append_seq :: "addr \<Rightarrow> 16 word \<Rightarrow> (world, unit) sres" where
  "obj_append_seq p seq =
     with_obj p (\<lambda>ob. bindS (insert_seq p seq) (\<lambda>_. run_deepcb (ob_chain ob)))"

definition le16 :: "16 word \<Rightarrow> string" where
  "le16 w = [char_of (unat w mod 256), char_of (unat w div 256)]"

text \<open>Store a parameter in the object itself, extending its hash text by \<open>h\<close>.\<close>

definition push_param :: "addr \<Rightarrow> string \<Rightarrow> param \<Rightarrow> (world, unit) sres" where
  "push_param p h prm = with_obj p (\<lambda>ob w.
     case ob_conds ob of
       None \<Rightarrow>
         (let l = w_next w in
          (put_obj p (ob\<lparr>ob_conds := Some l, ob_hashv := ob_hashv ob @ h\<rparr>)
             (w\<lparr>w_plists := (w_plists w)(l \<mapsto> [prm]), w_next := l + 1\<rparr>), Inr ()))
     | Some l \<Rightarrow>
         (case w_plists w l of
            None \<Rightarrow> (w, Inl Undefined_behaviour)
          | Some ps \<Rightarrow>
              (put_obj p (ob\<lparr>ob_hashv := ob_hashv ob @ h\<rparr>)
                 (w\<lparr>w_plists := (w_plists w)(l \<mapsto> ps @ [prm])\<rparr>), Inr ())))"

text \<open>\<open>append(std::shared_ptr<ParamBase>&)\<close> of the outermost object, reached through the callbacks.\<close>

fun climb :: "(addr \<times> string) list \<Rightarrow> param \<Rightarrow> addr \<Rightarrow> addr \<times> param" where
  "climb [] prm q = (q, prm)"
| "climb ((q', mem) # chain) prm q = climb chain (prefix_param mem prm) q'"

definition obj_append_param :: "addr \<Rightarrow> param \<Rightarrow> (world, unit) sres" where
  "obj_append_param p prm = with_obj p (\<lambda>ob.
     if ob_chain ob \<noteq> [] then
       (let (root, prm') = climb (ob_chain ob) prm p in
        push_param root (param_name prm' @ le16 (param_cond prm')) prm')
     else push_param p (le16 (param_seq prm) @ le16 (param_cond prm)) prm)"

section \<open>Value members\<close>

fun decl_type :: "class_decl \<Rightarrow> string \<Rightarrow> yan_type option" where
  "decl_type (CLASS n a ms) mem =
     (case find (\<lambda>m. member_decl_name m = mem) ms of
        Some (MEMBER _ t _) \<Rightarrow> Some t
      | Some (LIST_MEMBER _ t _) \<Rightarrow> Some t
      | _ \<Rightarrow> None)"

definition with_value_member ::
  "addr \<Rightarrow> string \<Rightarrow> (yan_obj \<Rightarrow> yan_type \<Rightarrow> value_member \<Rightarrow> (world, 'a) sres) \<Rightarrow> (world, 'a) sres" where
  "with_value_member p mem f = with_obj p (\<lambda>ob.
     case (ob_mems ob mem, decl_type (ob_class ob) mem) of
       (Some (MO_value m), Some t) \<Rightarrow> f ob t m
     | _ \<Rightarrow> throwS Undefined_behaviour)"

definition update_value_member :: "addr \<Rightarrow> string \<Rightarrow> (value_member \<Rightarrow> value_member) \<Rightarrow> (world, unit) sres" where
  "update_value_member p mem f =
     with_value_member p mem (\<lambda>ob t m. modify_obj p (put_mem mem (MO_value (f m))))"

text \<open>\<open>AND()\<close>, \<open>OR()\<close> and \<open>NOT()\<close>.\<close>

definition member_set_cond :: "cond_type \<Rightarrow> addr \<Rightarrow> string \<Rightarrow> (world, unit) sres" where
  "member_set_cond ct p mem = update_value_member p mem (\<lambda>m. m\<lparr>vm_cond := cond_type_code ct\<rparr>)"

text \<open>The macro \<open>__SET_MEM_COND_TYPE__\<close>, behind every comparison operator.\<close>

definition no_cond_error :: error where
  "no_cond_error = Runtime_error ''please specify the condition type, AND()/OR()/IN() ...''"

definition member_compare :: "ops_type \<Rightarrow> param_value \<Rightarrow> addr \<Rightarrow> string \<Rightarrow> (world, unit) sres" where
  "member_compare opstype v p mem = with_value_member p mem (\<lambda>ob t m w.
     if vm_cond m = 0 then (w, Inl no_cond_error)
     else
       bindS
         (obj_append_param (vm_obj m)
            (make_param mem t (set_mem_cond_type (vm_cond m) opstype) (obj_member_seq ob mem w) v))
         (\<lambda>_. update_value_member p mem (\<lambda>m. m\<lparr>vm_cond := 0\<rparr>)) w)"

text \<open>The comparison operators of a member, with their operands.\<close>

datatype comparison =
    Cmp_eq yan_val
  | Cmp_eq_list "yan_val list"
  | Cmp_gt yan_val
  | Cmp_ge yan_val
  | Cmp_lt yan_val
  | Cmp_le yan_val

fun cmp_ops :: "comparison \<Rightarrow> ops_type" where
  "cmp_ops (Cmp_eq _) = OT_EQUAL"
| "cmp_ops (Cmp_eq_list _) = OT_EQUAL_LIST"
| "cmp_ops (Cmp_gt _) = OT_LARGE"
| "cmp_ops (Cmp_ge _) = OT_LARGE_OR_EQUAL"
| "cmp_ops (Cmp_lt _) = OT_LESS"
| "cmp_ops (Cmp_le _) = OT_LESS_OR_EQUAL"

fun cmp_operand :: "comparison \<Rightarrow> param_value" where
  "cmp_operand (Cmp_eq v) = PV v"
| "cmp_operand (Cmp_eq_list vs) = PL vs"
| "cmp_operand (Cmp_gt v) = PV v"
| "cmp_operand (Cmp_ge v) = PV v"
| "cmp_operand (Cmp_lt v) = PV v"
| "cmp_operand (Cmp_le v) = PV v"

definition member_operator :: "comparison \<Rightarrow> addr \<Rightarrow> string \<Rightarrow> (world, unit) sres" where
  "member_operator c = member_compare (cmp_ops c) (cmp_operand c)"

lemma cmp_ops_code [simp]: "ops_type_of (ops_type_code (cmp_ops c)) = cmp_ops c"
  by (cases c) simp_all

text \<open>\<open>GROUP()\<close>, \<open>ORDER_ASC()\<close> and \<open>ORDER_DESC()\<close> take \<open>TYPE{}\<close> as their operand.\<close>

definition member_order :: "cond_type \<Rightarrow> addr \<Rightarrow> string \<Rightarrow> (world, unit) sres" where
  "member_order ct p mem = with_value_member p mem (\<lambda>ob t m.
     bindS (member_set_cond ct p mem) (\<lambda>_.
       case YanType2Type t of
         None \<Rightarrow> throwS Undefined_behaviour
       | Some ty \<Rightarrow> member_compare OT_EQUAL (PV (default_val ty)) p mem))"

text \<open>The two assignment operators; they differ in the error text only.\<close>

definition assign_cond_error :: "bool \<Rightarrow> 8 word \<Rightarrow> error" where
  "assign_cond_error rvalue cond = Runtime_error
     (''You need to use conditional statements, such as ==, >, <=, instead of '' @
      (if rvalue then ''assignment['' @ [CHR 0x27] @ ''='' @ [CHR 0x27] @ ''] statements, ''
       else ''assignment statements, '') @
      ''when you specify the conditon type: '' @ get_yan_cond_str (cond_type_of cond))"

definition auto_increment_error :: "string \<Rightarrow> string \<Rightarrow> error" where
  "auto_increment_error cls mem = Runtime_error
     (''auto increment member cannot be assigned with value ['' @ cls @ ''::'' @ mem @ '']'')"

definition member_assign :: "bool \<Rightarrow> yan_val \<Rightarrow> addr \<Rightarrow> string \<Rightarrow> (world, unit) sres" where
  "member_assign rvalue v p mem = with_value_member p mem (\<lambda>ob t m w.
     if vm_cond m > 0 then (w, Inl (assign_cond_error rvalue (vm_cond m)))
     else if t = YT_AUTO_INCREMENT then (w, Inl (auto_increment_error (cd_name (ob_class ob)) mem))
     else
       bindS (update_value_member p mem (\<lambda>m. m\<lparr>vm_value := Some v\<rparr>)) (\<lambda>_.
         if \<not> vm_flag m then
           bindS (obj_append_seq (vm_obj m) (obj_member_seq ob mem w))
             (\<lambda>_. update_value_member p mem (\<lambda>m. m\<lparr>vm_flag := True\<rparr>))
         else returnS ()) w)"

text \<open>\<open>YanMember::set_value\<close>, used when rows are read and when an update is prepared.\<close>

definition member_set_value :: "yan_val \<Rightarrow> addr \<Rightarrow> string \<Rightarrow> (world, unit) sres" where
  "member_set_value v p mem = with_obj p (\<lambda>ob.
     case ob_mems ob mem of
       Some (MO_value m) \<Rightarrow>
         modify_obj p (put_mem mem (MO_value (m\<lparr>vm_value := Some v, vm_flag := True\<rparr>)))
     | Some (MO_tmp _ _) \<Rightarrow> modify_obj p (put_mem mem (MO_tmp True (Some v)))
     | _ \<Rightarrow> throwS Undefined_behaviour)"

section \<open>List members\<close>

definition with_list_member ::
  "addr \<Rightarrow> string \<Rightarrow> (yan_obj \<Rightarrow> yan_type \<Rightarrow> list_member \<Rightarrow> (world, 'a) sres) \<Rightarrow> (world, 'a) sres" where
  "with_list_member p mem f = with_obj p (\<lambda>ob.
     case (ob_mems ob mem, decl_type (ob_class ob) mem) of
       (Some (MO_list m), Some t) \<Rightarrow> f ob t m
     | _ \<Rightarrow> throwS Undefined_behaviour)"

definition update_list_member :: "addr \<Rightarrow> string \<Rightarrow> (list_member \<Rightarrow> list_member) \<Rightarrow> (world, unit) sres" where
  "update_list_member p mem f =
     with_list_member p mem (\<lambda>ob t m. modify_obj p (put_mem mem (MO_list (f m))))"

text \<open>\<open>operator=(std::initializer_list)\<close> and \<open>emplace_back\<close>: change the list, register once.\<close>

definition list_modify :: "(yan_val list \<Rightarrow> yan_val list) \<Rightarrow> addr \<Rightarrow> string \<Rightarrow> (world, unit) sres" where
  "list_modify f p mem = with_list_member p mem (\<lambda>ob t m w.
     bindS (update_list_member p mem (\<lambda>m. m\<lparr>lm_items := f (lm_items m)\<rparr>)) (\<lambda>_.
       if \<not> lm_flag m then
         bindS (obj_append_seq (lm_obj m) (obj_member_seq ob mem w))
           (\<lambda>_. update_list_member p mem (\<lambda>m. m\<lparr>lm_flag := True\<rparr>))
       else returnS ()) w)"

definition list_assign :: "yan_val list \<Rightarrow> addr \<Rightarrow> string \<Rightarrow> (world, unit) sres" where
  "list_assign l = list_modify (\<lambda>_. l)"

definition list_emplace_back :: "yan_val \<Rightarrow> addr \<Rightarrow> string \<Rightarrow> (world, unit) sres" where
  "list_emplace_back v = list_modify (\<lambda>items. items @ [v])"

definition list_AND :: "addr \<Rightarrow> string \<Rightarrow> (world, unit) sres" where
  "list_AND p mem = update_list_member p mem (\<lambda>m. m\<lparr>lm_cond := cond_type_code CT_AND\<rparr>)"

definition list_compare :: "yan_val list \<Rightarrow> addr \<Rightarrow> string \<Rightarrow> (world, unit) sres" where
  "list_compare vs p mem = with_list_member p mem (\<lambda>ob t m w.
     if lm_cond m = 0 then (w, Inl no_cond_error)
     else
       bindS
         (obj_append_param (lm_obj m)
            (make_param mem t (set_mem_cond_type (lm_cond m) OT_EQUAL_LIST)
               (obj_member_seq ob mem w) (PL vs)))
         (\<lambda>_. update_list_member p mem (\<lambda>m. m\<lparr>lm_cond := 0\<rparr>)) w)"

section \<open>Copying\<close>

text \<open>
  The implicit copy constructor: fields are copied member by member, objects inside the object
  and list elements are copied recursively, pointers (\<open>obj_\<close>, \<open>cond\<close>, the shared parameter list, the
  callbacks) are copied as they are.
\<close>

definition alloc_addr :: "(world, addr) sres" where
  "alloc_addr = (\<lambda>w. (w\<lparr>w_next := w_next w + 1\<rparr>, Inr (w_next w)))"

fun copy_obj :: "class_decl \<Rightarrow> addr \<Rightarrow> (world, addr) sres"
and copy_members :: "member_decl list \<Rightarrow> yan_obj \<Rightarrow> (string \<Rightarrow> member_obj option) \<Rightarrow>
       (world, string \<Rightarrow> member_obj option) sres"
and copy_member :: "member_decl \<Rightarrow> yan_obj \<Rightarrow> (world, member_obj) sres"
where
  "copy_obj (CLASS n a ms) p = with_obj p (\<lambda>ob.
     bindS alloc_addr (\<lambda>p'.
     bindS (copy_members ms ob (\<lambda>_. None)) (\<lambda>mems w.
       (put_obj p' (ob\<lparr>ob_mems := mems\<rparr>) w, Inr p'))))"
| "copy_members [] ob mems = returnS mems"
| "copy_members (m # ms) ob mems =
     bindS (copy_member m ob) (\<lambda>mo. copy_members ms ob (mems(member_decl_name m \<mapsto> mo)))"
| "copy_member (STRUCT_MEMBER mem son args) ob =
     (case ob_mems ob mem of
        Some (MO_struct q) \<Rightarrow> bindS (copy_obj son q) (\<lambda>q'. returnS (MO_struct q'))
      | _ \<Rightarrow> throwS Undefined_behaviour)"
| "copy_member (LIST_STRUCT_MEMBER mem son args) ob =
     (case ob_mems ob mem of
        Some (MO_lstruct m) \<Rightarrow>
          bindS (mapS (copy_obj son) (sm_items m)) (\<lambda>items. returnS (MO_lstruct (m\<lparr>sm_items := items\<rparr>)))
      | _ \<Rightarrow> throwS Undefined_behaviour)"
| "copy_member (MEMBER mem t args) ob =
     (case ob_mems ob mem of Some mo \<Rightarrow> returnS mo | None \<Rightarrow> throwS Undefined_behaviour)"
| "copy_member (LIST_MEMBER mem t args) ob =
     (case ob_mems ob mem of Some mo \<Rightarrow> returnS mo | None \<Rightarrow> throwS Undefined_behaviour)"
| "copy_member (TMP_MEMBER mem from) ob =
     (case ob_mems ob mem of Some mo \<Rightarrow> returnS mo | None \<Rightarrow> throwS Undefined_behaviour)"

section \<open>Lists of structs\<close>

definition with_lstruct_member ::
  "addr \<Rightarrow> string \<Rightarrow> (yan_obj \<Rightarrow> lstruct_member \<Rightarrow> (world, 'a) sres) \<Rightarrow> (world, 'a) sres" where
  "with_lstruct_member p mem f = with_obj p (\<lambda>ob.
     case ob_mems ob mem of Some (MO_lstruct m) \<Rightarrow> f ob m | _ \<Rightarrow> throwS Undefined_behaviour)"

definition update_lstruct_member ::
  "addr \<Rightarrow> string \<Rightarrow> (lstruct_member \<Rightarrow> lstruct_member) \<Rightarrow> (world, unit) sres" where
  "update_lstruct_member p mem f =
     with_lstruct_member p mem (\<lambda>ob m. modify_obj p (put_mem mem (MO_lstruct (f m))))"

definition lstruct_emplace_back :: "class_decl \<Rightarrow> addr \<Rightarrow> addr \<Rightarrow> string \<Rightarrow> (world, unit) sres" where
  "lstruct_emplace_back son q p mem = with_lstruct_member p mem (\<lambda>ob m w.
     bindS (copy_obj son q) (\<lambda>q'.
     bindS (update_lstruct_member p mem (\<lambda>m. m\<lparr>sm_items := sm_items m @ [q']\<rparr>)) (\<lambda>_.
       if \<not> sm_flag m then
         bindS (obj_append_seq (sm_obj m) (obj_member_seq ob mem w))
           (\<lambda>_. update_lstruct_member p mem (\<lambda>m. m\<lparr>sm_flag := True\<rparr>))
       else returnS ())) w)"

text \<open>\<open>COND()\<close>: the object that collects the conditions on the elements, created on first use.\<close>

definition lstruct_COND :: "class_decl \<Rightarrow> addr \<Rightarrow> string \<Rightarrow> (world, addr) sres" where
  "lstruct_COND son p mem = with_lstruct_member p mem (\<lambda>ob m.
     case sm_cond m of
       Some q \<Rightarrow> returnS q
     | None \<Rightarrow>
         with_obj (sm_obj m) (\<lambda>owner.
           bindS (new_object son ((sm_obj m, mem) # ob_chain owner)) (\<lambda>q.
           bindS (update_lstruct_member p mem (\<lambda>m. m\<lparr>sm_cond := Some q\<rparr>)) (\<lambda>_. returnS q))))"

end
