(* ===== verification/Yan_Object_Inv.thy ===== *)
theory Yan_Object_Inv
  imports Yan_Object
begin

text \<open>
  What the operations of \<open>Yan_Object\<close> keep and do, for objects of tables (classes whose members are
  all plain \<open>MEMBER\<close>s, the ones the SQL backend accepts): the flags agree with the set of assigned
  members, stored values have the declared type, the hash text spells the condition list, and every
  condition names a member of the class.  Copies share the pointers of their originals; the last
  section states what an assignment through a copy does.
\<close>

section \<open>The invariant of a table object\<close>

text \<open>
  \<open>class_ready\<close>: the registry describes the class as declared and the sequence numbers are the
  positions; at most \<open>2 ^ 16\<close> members, so that the 16-bit numbers are distinct.
\<close>

definition class_ready :: "registry \<Rightarrow> class_decl \<Rightarrow> bool" where
  "class_ready reg c \<longleftrightarrow>
     distinct (map member_decl_name (cd_members c)) \<and> length (cd_members c) \<le> 65536 \<and>
     ys_members (get_yan_struct reg c) = map decl_info (cd_members c) \<and>
     (\<forall>i < length (cd_members c).
        member_seq reg (cd_name c) (member_decl_name (cd_members c ! i)) = of_nat i)"

text \<open>One value member of an object at \<open>p\<close>; \<open>s\<close> says whether its number is in the object's set.\<close>

definition value_member_ok :: "addr \<Rightarrow> yan_type \<Rightarrow> bool \<Rightarrow> value_member \<Rightarrow> bool" where
  "value_member_ok p t s m \<longleftrightarrow>
     vm_obj m = p \<and> (vm_flag m \<longleftrightarrow> s) \<and> YanType2Type t \<noteq> None \<and>
     (vm_flag m \<longrightarrow>
        t \<noteq> YT_AUTO_INCREMENT \<and> (\<exists>v. vm_value m = Some v \<and> YanType2Type t = Some (ctype_of v))) \<and>
     vm_cond m \<in> {0, 1, 2, 3}"

definition valid_cond :: "16 word \<Rightarrow> bool" where
  "valid_cond c \<longleftrightarrow> get_mem_cond_type c \<in> {CT_AND, CT_OR, CT_NOT, CT_GROUP, CT_ORDER_ASC, CT_ORDER_DESC}"

definition param_of_class :: "class_decl \<Rightarrow> param \<Rightarrow> bool" where
  "param_of_class c prm \<longleftrightarrow>
     (\<exists>i t args. i < length (cd_members c) \<and> cd_members c ! i = MEMBER (param_name prm) t args \<and>
        param_seq prm = of_nat i \<and> param_type prm = t) \<and>
     valid_cond (param_cond prm) \<and>
     payload_ok (param_type prm) (get_mem_ops_type (param_cond prm)) (param_val prm)"

definition hash_entry :: "param \<Rightarrow> string" where
  "hash_entry prm = le16 (param_seq prm) @ le16 (param_cond prm)"

text \<open>The conditions an object holds; a null pointer is told apart from an empty list.\<close>

definition obj_params :: "world \<Rightarrow> yan_obj \<Rightarrow> param list" where
  "obj_params w ob =
     (case ob_conds ob of None \<Rightarrow> [] | Some l \<Rightarrow> (case w_plists w l of None \<Rightarrow> [] | Some ps \<Rightarrow> ps))"

definition table_ok :: "world \<Rightarrow> addr \<Rightarrow> yan_obj \<Rightarrow> bool" where
  "table_ok w p ob \<longleftrightarrow>
     class_ready (w_reg w) (ob_class ob) \<and> ob_chain ob = [] \<and> sset (ob_seqset ob) \<and>
     (\<forall>s \<in> set (ob_seqset ob). unat s < length (cd_members (ob_class ob))) \<and>
     (\<forall>i < length (cd_members (ob_class ob)). \<exists>mem t args m.
        cd_members (ob_class ob) ! i = MEMBER mem t args \<and> ob_mems ob mem = Some (MO_value m) \<and>
        value_member_ok p t (of_nat i \<in> set (ob_seqset ob)) m) \<and>
     (\<forall>l. ob_conds ob = Some l \<longrightarrow> (\<exists>ps. w_plists w l = Some ps \<and> ps \<noteq> [])) \<and>
     (\<forall>prm \<in> set (obj_params w ob). param_of_class (ob_class ob) prm) \<and>
     ob_hashv ob = concat (map hash_entry (obj_params w ob))"

definition table_obj_ok :: "world \<Rightarrow> addr \<Rightarrow> bool" where
  "table_obj_ok w p \<longleftrightarrow> (\<exists>ob. w_objs w p = Some ob \<and> table_ok w p ob)"

lemma find_decl:
  "distinct (map member_decl_name ms) \<Longrightarrow> i < length ms \<Longrightarrow>
    find (\<lambda>m. member_decl_name m = member_decl_name (ms ! i)) ms = Some (ms ! i)"
proof (induction ms arbitrary: i)
  case (Cons m ms)
  then show ?case by (cases i) (auto simp: nth_Cons split: nat.splits)
qed simp

lemma decl_type_MEMBER:
  assumes "class_ready reg c" and "i < length (cd_members c)" and "cd_members c ! i = MEMBER mem t args"
  shows "decl_type c mem = Some t"
  using assms find_decl [of "cd_members c" i]
  by (cases c) (auto simp: class_ready_def)

lemma unat_of_nat16: "i < 65536 \<Longrightarrow> unat (of_nat i :: 16 word) = i"
  by (simp add: unat_of_nat)

lemma of_nat16_inj: "i < 65536 \<Longrightarrow> j < 65536 \<Longrightarrow> (of_nat i :: 16 word) = of_nat j \<Longrightarrow> i = j"
  using unat_of_nat16 by metis

section \<open>Single operations, evaluated\<close>

lemma with_obj_run: "w_objs w p = Some ob \<Longrightarrow> with_obj p f w = f ob w"
  by (simp add: with_obj_def)

lemma put_obj_simps [simp]:
  "w_reg (put_obj p ob w) = w_reg w" "w_plists (put_obj p ob w) = w_plists w"
  "w_next (put_obj p ob w) = w_next w" "w_objs (put_obj p ob w) = (w_objs w)(p \<mapsto> ob)"
  "put_obj p ob (put_obj p ob' w) = put_obj p ob w"
  by (simp_all add: put_obj_def)

lemma put_mem_simps [simp]:
  "ob_class (put_mem mem m ob) = ob_class ob" "ob_seqset (put_mem mem m ob) = ob_seqset ob"
  "ob_conds (put_mem mem m ob) = ob_conds ob" "ob_hashv (put_mem mem m ob) = ob_hashv ob"
  "ob_chain (put_mem mem m ob) = ob_chain ob" "ob_mems (put_mem mem m ob) = (ob_mems ob)(mem \<mapsto> m)"
  "obj_params w (put_mem mem m ob) = obj_params w ob"
  "put_mem mem m (put_mem mem m' ob) = put_mem mem m ob"
  by (simp_all add: put_mem_def obj_params_def)

lemma obj_params_put_obj [simp]: "obj_params (put_obj p x w) ob = obj_params w ob"
  by (simp add: obj_params_def split: option.split)

lemma obj_member_seq_put_mem [simp]: "obj_member_seq (put_mem k m ob) mem w = obj_member_seq ob mem w"
  by (simp add: obj_member_seq_def)

lemma obj_member_seq_put_obj [simp]: "obj_member_seq ob mem (put_obj p x w) = obj_member_seq ob mem w"
  by (simp add: obj_member_seq_def)

lemma modify_obj_run: "w_objs w p = Some ob \<Longrightarrow> modify_obj p f w = (put_obj p (f ob) w, Inr ())"
  by (simp add: modify_obj_def with_obj_run)

definition at_member :: "world \<Rightarrow> addr \<Rightarrow> yan_obj \<Rightarrow> string \<Rightarrow> yan_type \<Rightarrow> value_member \<Rightarrow> bool" where
  "at_member w p ob mem t m \<longleftrightarrow>
     w_objs w p = Some ob \<and> ob_mems ob mem = Some (MO_value m) \<and> decl_type (ob_class ob) mem = Some t"

lemma with_value_member_run: "at_member w p ob mem t m \<Longrightarrow> with_value_member p mem f w = f ob t m w"
  by (simp add: at_member_def with_value_member_def with_obj_run)

lemma update_value_member_run:
  assumes "at_member w p ob mem t m"
  shows "update_value_member p mem f w = (put_obj p (put_mem mem (MO_value (f m)) ob) w, Inr ())"
proof -
  from assms have "w_objs w p = Some ob" by (simp add: at_member_def)
  then show ?thesis
    by (simp add: update_value_member_def with_value_member_run [OF assms] modify_obj_run)
qed

lemma at_member_put:
  "at_member w p ob mem t m \<Longrightarrow> at_member (put_obj p (put_mem mem (MO_value m') ob) w) p (put_mem mem (MO_value m') ob) mem t m'"
  by (simp add: at_member_def)

lemma obj_append_seq_run:
  "w_objs w p = Some ob \<Longrightarrow> ob_chain ob = [] \<Longrightarrow>
    obj_append_seq p seq w = (put_obj p (ob\<lparr>ob_seqset := sset_insert seq (ob_seqset ob)\<rparr>) w, Inr ())"
  by (simp add: obj_append_seq_def with_obj_run bindS_apply insert_seq_def modify_obj_run)

text \<open>An assignment to a member that registers with its own object.\<close>

lemma member_assign_run:
  assumes "at_member w p ob mem t m" and "vm_obj m = p" and "ob_chain ob = []"
    and "vm_cond m = 0" and "t \<noteq> YT_AUTO_INCREMENT"
  shows "member_assign rvalue v p mem w =
    (put_obj p (put_mem mem (MO_value (m\<lparr>vm_value := Some v, vm_flag := True\<rparr>))
        (ob\<lparr>ob_seqset := if vm_flag m then ob_seqset ob
                         else sset_insert (obj_member_seq ob mem w) (ob_seqset ob)\<rparr>)) w, Inr ())"
proof -
  let ?m1 = "m\<lparr>vm_value := Some v\<rparr>"
  let ?ob1 = "put_mem mem (MO_value ?m1) ob"
  let ?ob2 = "?ob1\<lparr>ob_seqset := sset_insert (obj_member_seq ob mem w) (ob_seqset ob)\<rparr>"
  have u: "update_value_member p mem (\<lambda>m. m\<lparr>vm_value := Some v\<rparr>) w = (put_obj p ?ob1 w, Inr ())"
    using assms(1) by (rule update_value_member_run)
  have a: "obj_append_seq p (obj_member_seq ob mem w) (put_obj p ?ob1 w) = (put_obj p ?ob2 w, Inr ())"
    using assms(3) by (simp add: obj_append_seq_run)
  have "at_member (put_obj p ?ob2 w) p ?ob2 mem t ?m1"
    using assms(1) by (simp add: at_member_def)
  note f = update_value_member_run [OF this]
  show ?thesis
    by (simp add: member_assign_def with_value_member_run [OF assms(1)] assms(2,4,5) bindS_apply u a f)
      (cases m, simp add: put_mem_def put_obj_def)
qed

lemma member_assign_throws:
  assumes "at_member w p ob mem t m" and "vm_cond m \<noteq> 0 \<or> t = YT_AUTO_INCREMENT"
  shows "\<exists>e. member_assign rvalue v p mem w = (w, Inl e) \<and>
    e = (if vm_cond m \<noteq> 0 then assign_cond_error rvalue (vm_cond m)
         else auto_increment_error (cd_name (ob_class ob)) mem)"
  using assms by (auto simp: member_assign_def with_value_member_run word_gt_0)

text \<open>Storing a condition in an object of its own.\<close>

definition store_param :: "addr \<Rightarrow> param \<Rightarrow> yan_obj \<Rightarrow> world \<Rightarrow> yan_obj \<times> world" where
  "store_param p prm ob w =
     (case ob_conds ob of
        None \<Rightarrow> (ob\<lparr>ob_conds := Some (w_next w), ob_hashv := ob_hashv ob @ hash_entry prm\<rparr>,
                 w\<lparr>w_plists := (w_plists w)(w_next w \<mapsto> [prm]), w_next := w_next w + 1\<rparr>)
      | Some l \<Rightarrow> (ob\<lparr>ob_hashv := ob_hashv ob @ hash_entry prm\<rparr>,
                   w\<lparr>w_plists := (w_plists w)(l \<mapsto> the (w_plists w l) @ [prm])\<rparr>))"

lemma obj_append_param_run:
  assumes "w_objs w p = Some ob" and "ob_chain ob = []"
    and "\<And>l. ob_conds ob = Some l \<Longrightarrow> w_plists w l \<noteq> None"
  shows "obj_append_param p prm w =
    (case store_param p prm ob w of (ob', w') \<Rightarrow> (put_obj p ob' w', Inr ()))"
  using assms
  by (auto simp: obj_append_param_def with_obj_run push_param_def store_param_def hash_entry_def Let_def
      split: option.splits)

lemma store_param_simps:
  assumes "store_param p prm ob w = (ob', w')"
    and "\<And>l. ob_conds ob = Some l \<Longrightarrow> w_plists w l \<noteq> None"
  shows "ob_class ob' = ob_class ob" "ob_seqset ob' = ob_seqset ob" "ob_chain ob' = ob_chain ob"
    "ob_mems ob' = ob_mems ob" "w_reg w' = w_reg w" "w_objs w' = w_objs w"
    "ob_hashv ob' = ob_hashv ob @ hash_entry prm" "obj_params w' ob' = obj_params w ob @ [prm]"
    "\<exists>l. ob_conds ob' = Some l \<and> w_plists w' l = Some (obj_params w ob @ [prm])"
  using assms by (auto simp: store_param_def obj_params_def split: option.splits)

lemma member_compare_run:
  assumes "at_member w p ob mem t m" and "vm_obj m = p" and "ob_chain ob = []" and "vm_cond m \<noteq> 0"
    and "\<And>l. ob_conds ob = Some l \<Longrightarrow> w_plists w l \<noteq> None"
    and prm: "prm = make_param mem t (set_mem_cond_type (vm_cond m) opstype) (obj_member_seq ob mem w) v"
    and st: "store_param p prm ob w = (ob', w')"
  shows "member_compare opstype v p mem w =
    (put_obj p (put_mem mem (MO_value (m\<lparr>vm_cond := 0\<rparr>)) ob') w', Inr ())"
proof -
  have ob: "w_objs w p = Some ob" using assms(1) by (simp add: at_member_def)
  note S = store_param_simps [OF st assms(5)]
  have a: "obj_append_param p prm w = (put_obj p ob' w', Inr ())"
    using obj_append_param_run [OF ob assms(3,5)] by (simp add: st)
  have "at_member (put_obj p ob' w') p ob' mem t m"
    using assms(1) S by (simp add: at_member_def)
  note u = update_value_member_run [OF this]
  show ?thesis
    by (simp add: member_compare_def with_value_member_run [OF assms(1)] assms(2,4) bindS_apply
        a [unfolded prm] u)
qed

lemma member_order_run:
  assumes "at_member w p ob mem t m" and "vm_obj m = p" and "ob_chain ob = []"
    and "cond_type_code ct \<noteq> 0" and "YanType2Type t = Some ty"
    and "\<And>l. ob_conds ob = Some l \<Longrightarrow> w_plists w l \<noteq> None"
    and prm: "prm = make_param mem t (set_mem_cond_type (cond_type_code ct) OT_EQUAL)
                      (obj_member_seq ob mem w) (PV (default_val ty))"
    and st: "store_param p prm ob w = (ob', w')"
  shows "member_order ct p mem w =
    (put_obj p (put_mem mem (MO_value (m\<lparr>vm_cond := 0\<rparr>)) ob') w', Inr ())"
proof -
  let ?m1 = "m\<lparr>vm_cond := cond_type_code ct\<rparr>"
  let ?ob1 = "put_mem mem (MO_value ?m1) ob"
  note S = store_param_simps [OF st assms(6)]
  have c: "member_set_cond ct p mem w = (put_obj p ?ob1 w, Inr ())"
    unfolding member_set_cond_def using assms(1) by (rule update_value_member_run)
  have st1: "store_param p prm ?ob1 (put_obj p ?ob1 w) =
      (put_mem mem (MO_value ?m1) ob', put_obj p ?ob1 w')"
    using st by (auto simp: store_param_def put_mem_def put_obj_def split: option.splits)
  have "member_compare OT_EQUAL (PV (default_val ty)) p mem (put_obj p ?ob1 w) =
      (put_obj p (put_mem mem (MO_value (?m1\<lparr>vm_cond := 0\<rparr>)) (put_mem mem (MO_value ?m1) ob'))
         (put_obj p ?ob1 w'), Inr ())"
    by (rule member_compare_run [OF at_member_put [OF assms(1)] _ _ _ _ _ st1])
      (use assms(2-4,6) prm in simp_all)
  then show ?thesis
    by (simp add: member_order_def with_value_member_run [OF assms(1)] assms(5) bindS_apply c)
qed

section \<open>Every operation keeps the invariant\<close>

text \<open>What user code can call on a value member, with its C++ typing.\<close>

datatype member_op =
    Op_assign bool yan_val
  | Op_cond cond_type
  | Op_compare comparison
  | Op_order cond_type

fun run_member_op :: "member_op \<Rightarrow> addr \<Rightarrow> string \<Rightarrow> (world, unit) sres" where
  "run_member_op (Op_assign rvalue v) p mem = member_assign rvalue v p mem"
| "run_member_op (Op_cond ct) p mem = member_set_cond ct p mem"
| "run_member_op (Op_compare c) p mem = member_operator c p mem"
| "run_member_op (Op_order ct) p mem = member_order ct p mem"

fun op_typed :: "yan_type \<Rightarrow> member_op \<Rightarrow> bool" where
  "op_typed t (Op_assign _ v) \<longleftrightarrow> YanType2Type t = Some (ctype_of v)"
| "op_typed t (Op_cond ct) \<longleftrightarrow> ct \<in> {CT_AND, CT_OR, CT_NOT}"
| "op_typed t (Op_compare c) \<longleftrightarrow> payload_ok t (cmp_ops c) (cmp_operand c)"
| "op_typed t (Op_order ct) \<longleftrightarrow> ct \<in> {CT_GROUP, CT_ORDER_ASC, CT_ORDER_DESC}"

text \<open>A run of operations; an exception leaves the object as it is then and user code goes on.\<close>

fun run_member_ops :: "addr \<Rightarrow> (string \<times> member_op) list \<Rightarrow> world \<Rightarrow> world" where
  "run_member_ops p [] w = w"
| "run_member_ops p ((mem, opr) # rest) w = run_member_ops p rest (fst (run_member_op opr p mem w))"

lemma table_ok_length: "table_ok w p ob \<Longrightarrow> length (cd_members (ob_class ob)) \<le> 65536"
  by (simp add: table_ok_def class_ready_def)

lemma table_ok_member:
  assumes "w_objs w p = Some ob" and "table_ok w p ob" and "i < length (cd_members (ob_class ob))"
  obtains mem t args m where "cd_members (ob_class ob) ! i = MEMBER mem t args"
    and "at_member w p ob mem t m" and "value_member_ok p t (of_nat i \<in> set (ob_seqset ob)) m"
    and "obj_member_seq ob mem w = of_nat i"
proof -
  from assms(2,3) obtain mem t args m where m: "cd_members (ob_class ob) ! i = MEMBER mem t args"
      "ob_mems ob mem = Some (MO_value m)" "value_member_ok p t (of_nat i \<in> set (ob_seqset ob)) m"
    unfolding table_ok_def by blast
  have cr: "class_ready (w_reg w) (ob_class ob)" using assms(2) by (simp add: table_ok_def)
  from decl_type_MEMBER [OF cr assms(3) m(1)] have "at_member w p ob mem t m"
    using assms(1) m(2) by (simp add: at_member_def)
  moreover have "obj_member_seq ob mem w = of_nat i"
    using cr assms(3) m(1) unfolding class_ready_def obj_member_seq_def by (metis member_decl_name.simps(1))
  ultimately show ?thesis using m that by blast
qed

lemma table_ok_update:
  assumes ok: "table_ok w p ob" and i: "i < length (cd_members (ob_class ob))"
    and d: "cd_members (ob_class ob) ! i = MEMBER mem t args"
    and S: "S = ob_seqset ob \<or> S = sset_insert (of_nat i) (ob_seqset ob)"
    and m: "value_member_ok p t (of_nat i \<in> set S) m'"
  shows "table_ok w p (put_mem mem (MO_value m') (ob\<lparr>ob_seqset := S\<rparr>))"
proof -
  let ?ob = "put_mem mem (MO_value m') (ob\<lparr>ob_seqset := S\<rparr>)" and ?c = "ob_class ob"
  have len: "length (cd_members ?c) \<le> 65536" using ok by (rule table_ok_length)
  have dist: "distinct (map member_decl_name (cd_members ?c))"
    using ok by (simp add: table_ok_def class_ready_def)
  have S': "sset S" "\<forall>s \<in> set S. unat s < length (cd_members ?c)"
    using ok S i len by (auto simp: table_ok_def unat_of_nat16)
  have par: "obj_params w ?ob = obj_params w ob" by (simp add: obj_params_def)
  have mems: "\<exists>mem' t' args' m2. cd_members ?c ! j = MEMBER mem' t' args' \<and>
      ob_mems ?ob mem' = Some (MO_value m2) \<and> value_member_ok p t' (of_nat j \<in> set S) m2"
    if j: "j < length (cd_members ?c)" for j
  proof (cases "j = i")
    case True
    with d m show ?thesis by auto
  next
    case False
    from ok j obtain mem' t' args' m2 where J: "cd_members ?c ! j = MEMBER mem' t' args'"
      "ob_mems ob mem' = Some (MO_value m2)" "value_member_ok p t' (of_nat j \<in> set (ob_seqset ob)) m2"
      unfolding table_ok_def by blast
    have "mem' \<noteq> mem"
      using dist False i j d J(1)
      by (metis distinct_conv_nth length_map member_decl_name.simps(1) nth_map)
    moreover have "(of_nat j :: 16 word) \<noteq> of_nat i"
      using False i j len of_nat16_inj by (meson less_le_trans)
    ultimately show ?thesis using J S by auto
  qed
  show ?thesis
    using ok S' mems par unfolding table_ok_def by simp
qed

lemma table_ok_store_param:
  assumes ok: "table_ok w p ob" and st: "store_param p prm ob w = (ob', w')"
    and prm: "param_of_class (ob_class ob) prm"
  shows "table_ok w' p ob'"
proof -
  have l: "w_plists w l \<noteq> None" if "ob_conds ob = Some l" for l
    using ok that by (auto simp: table_ok_def)
  note S = store_param_simps [OF st l]
  from S(9) have c: "\<forall>l. ob_conds ob' = Some l \<longrightarrow> (\<exists>ps. w_plists w' l = Some ps \<and> ps \<noteq> [])"
    by auto
  show ?thesis
    using ok prm c unfolding table_ok_def by (simp add: S)
qed

lemma table_ok_put_obj: "table_ok w p ob \<Longrightarrow> table_ok (put_obj p x w) p ob"
  by (simp add: table_ok_def)

lemma table_obj_ok_put: "table_ok w p ob \<Longrightarrow> table_obj_ok (put_obj p ob w) p"
  by (auto simp: table_obj_ok_def intro: table_ok_put_obj)

lemma valid_cond_code:
  "c \<in> {1, 2, 3, 4, 5, 6} \<Longrightarrow> valid_cond (set_mem_cond_type c opstype)"
  by (auto simp: valid_cond_def cond_type_of_def)

text \<open>Storing a condition of member \<open>i\<close> and clearing the member's pending condition.\<close>

lemma table_obj_ok_condition:
  assumes w: "w_objs w p = Some ob" and ok: "table_ok w p ob" and i: "i < length (cd_members (ob_class ob))"
    and d: "cd_members (ob_class ob) ! i = MEMBER mem t args" and at: "at_member w p ob mem t m"
    and m: "value_member_ok p t (of_nat i \<in> set (ob_seqset ob)) m"
    and seq: "obj_member_seq ob mem w = of_nat i" and c: "c \<in> {1, 2, 3, 4, 5, 6}"
    and opstype: "ops_type_of (ops_type_code opstype) = opstype" and v: "payload_ok t opstype v"
    and st: "store_param p (make_param mem t (set_mem_cond_type c opstype) (obj_member_seq ob mem w) v) ob w
               = (ob', w')"
  shows "table_obj_ok (put_obj p (put_mem mem (MO_value (m\<lparr>vm_cond := 0\<rparr>)) ob') w') p"
proof -
  let ?prm = "make_param mem t (set_mem_cond_type c opstype) (obj_member_seq ob mem w) v"
  have "param_of_class (ob_class ob) ?prm"
    unfolding param_of_class_def using i d seq c opstype v
    by (auto simp: make_param_def valid_cond_code)
  from table_ok_store_param [OF ok st this] have ok': "table_ok w' p ob'" .
  have S: "ob_class ob' = ob_class ob" "ob_seqset ob' = ob_seqset ob"
    using st by (auto simp: store_param_def split: option.splits)
  have "value_member_ok p t (of_nat i \<in> set (ob_seqset ob')) (m\<lparr>vm_cond := 0\<rparr>)"
    using m by (simp add: value_member_ok_def S)
  from table_ok_update [OF ok' _ _ disjI1 [OF refl] this, of mem args] i d
  have "table_ok w' p (put_mem mem (MO_value (m\<lparr>vm_cond := 0\<rparr>)) (ob'\<lparr>ob_seqset := ob_seqset ob'\<rparr>))"
    by (simp add: S)
  then show ?thesis by (intro table_obj_ok_put) simp
qed

lemma find_Some_index: "find P xs = Some x \<Longrightarrow> \<exists>i < length xs. xs ! i = x \<and> P x"
  by (auto simp: find_Some_iff)

lemma at_member_index:
  assumes "table_ok w p ob" and "at_member w p ob mem t m"
  obtains i args where "i < length (cd_members (ob_class ob))"
    and "cd_members (ob_class ob) ! i = MEMBER mem t args"
    and "value_member_ok p t (of_nat i \<in> set (ob_seqset ob)) m" and "obj_member_seq ob mem w = of_nat i"
proof -
  have w: "w_objs w p = Some ob" and ty: "decl_type (ob_class ob) mem = Some t"
    and mo: "ob_mems ob mem = Some (MO_value m)"
    using assms(2) by (auto simp: at_member_def)
  obtain n a ms where c: "ob_class ob = CLASS n a ms" by (cases "ob_class ob")
  from ty c obtain d where "find (\<lambda>m. member_decl_name m = mem) ms = Some d"
    by (auto split: option.splits)
  then obtain i where i: "i < length ms" "ms ! i = d" "member_decl_name d = mem"
    by (auto dest: find_Some_index)
  from i(1) c have len: "i < length (cd_members (ob_class ob))" by simp
  obtain mem' t' args m' where M0: "cd_members (ob_class ob) ! i = MEMBER mem' t' args"
    and M1: "at_member w p ob mem' t' m'" "value_member_ok p t' (of_nat i \<in> set (ob_seqset ob)) m'"
    "obj_member_seq ob mem' w = of_nat i"
    by (rule table_ok_member [OF w assms(1) len])
  from M0 i(2) c have "d = MEMBER mem' t' args" by simp
  note M = this M1
  from M i(3) have "mem' = mem" by simp
  with M mo ty have "m' = m" "t' = t" by (auto simp: at_member_def)
  with M i c \<open>mem' = mem\<close> that show ?thesis by simp
qed

lemma run_member_op_at:
  assumes w: "w_objs w p = Some ob" and ok: "table_ok w p ob" and at: "at_member w p ob mem t m"
    and typed: "op_typed t opr"
  shows "table_obj_ok (fst (run_member_op opr p mem w)) p"
proof -
  from ok at obtain i args where i: "i < length (cd_members (ob_class ob))"
    and d: "cd_members (ob_class ob) ! i = MEMBER mem t args"
    and m: "value_member_ok p t (of_nat i \<in> set (ob_seqset ob)) m"
    and seq: "obj_member_seq ob mem w = of_nat i"
    by (rule at_member_index)
  have own: "vm_obj m = p" "ob_chain ob = []" "vm_cond m \<in> {0, 1, 2, 3}"
    using m ok by (auto simp: value_member_ok_def table_ok_def)
  have l: "\<And>l. ob_conds ob = Some l \<Longrightarrow> w_plists w l \<noteq> None"
    using ok by (auto simp: table_ok_def)
  have same: "table_obj_ok w p" using w ok by (auto simp: table_obj_ok_def)
  show ?thesis
  proof (cases opr)
    case (Op_assign rvalue v)
    show ?thesis
    proof (cases "vm_cond m = 0 \<and> t \<noteq> YT_AUTO_INCREMENT")
      case True
      let ?S = "if vm_flag m then ob_seqset ob else sset_insert (of_nat i) (ob_seqset ob)"
      have "value_member_ok p t (of_nat i \<in> set ?S) (m\<lparr>vm_value := Some v, vm_flag := True\<rparr>)"
        using m True typed Op_assign by (auto simp: value_member_ok_def)
      then have "table_ok w p (put_mem mem (MO_value (m\<lparr>vm_value := Some v, vm_flag := True\<rparr>))
          (ob\<lparr>ob_seqset := ?S\<rparr>))"
        by (intro table_ok_update [OF ok i d]) auto
      from table_obj_ok_put [OF this] show ?thesis
        using Op_assign True own
        by (simp add: member_assign_run [OF at, unfolded seq] split del: if_split)
    next
      case False
      with member_assign_throws [OF at] same Op_assign show ?thesis by fastforce
    qed
  next
    case (Op_cond ct)
    have "value_member_ok p t (of_nat i \<in> set (ob_seqset ob)) (m\<lparr>vm_cond := cond_type_code ct\<rparr>)"
      using m typed Op_cond by (auto simp: value_member_ok_def)
    from table_ok_update [OF ok i d disjI1 [OF refl] this] show ?thesis
      using Op_cond by (simp add: member_set_cond_def update_value_member_run [OF at] table_obj_ok_put)
  next
    case (Op_compare c)
    then have o: "ops_type_of (ops_type_code (cmp_ops c)) = cmp_ops c" "payload_ok t (cmp_ops c) (cmp_operand c)"
      using typed by auto
    show ?thesis
    proof (cases "vm_cond m = 0")
      case True
      with Op_compare same show ?thesis by (simp add: member_operator_def member_compare_def with_value_member_run [OF at])
    next
      case False
      obtain ob' w' where st: "store_param p (make_param mem t (set_mem_cond_type (vm_cond m) (cmp_ops c))
          (obj_member_seq ob mem w) (cmp_operand c)) ob w = (ob', w')" by fastforce
      have "vm_cond m \<in> {1, 2, 3, 4, 5, 6}" using own(3) False by auto
      from table_obj_ok_condition [OF w ok i d at m seq this o st] show ?thesis
        using Op_compare member_compare_run [OF at own(1,2) False l refl st] by (simp add: member_operator_def)
    qed
  next
    case (Op_order ct)
    then have ct: "cond_type_code ct \<in> {1, 2, 3, 4, 5, 6}" "cond_type_code ct \<noteq> 0" using typed by auto
    from m obtain ty where ty: "YanType2Type t = Some ty" by (auto simp: value_member_ok_def)
    obtain ob' w' where st: "store_param p (make_param mem t (set_mem_cond_type (cond_type_code ct) OT_EQUAL)
        (obj_member_seq ob mem w) (PV (default_val ty))) ob w = (ob', w')" by fastforce
    have "table_obj_ok (put_obj p (put_mem mem (MO_value (m\<lparr>vm_cond := 0\<rparr>)) ob') w') p"
      by (rule table_obj_ok_condition [OF w ok i d at m seq ct(1) _ _ st]) (simp_all add: ty)
    then show ?thesis
      using Op_order member_order_run [OF at own(1,2) ct(2) ty l refl st] by simp
  qed
qed

lemma run_member_op_ok:
  assumes "table_obj_ok w p"
    and typed: "\<And>ob t. w_objs w p = Some ob \<Longrightarrow> decl_type (ob_class ob) mem = Some t \<Longrightarrow> op_typed t opr"
  shows "table_obj_ok (fst (run_member_op opr p mem w)) p"
proof -
  from assms(1) obtain ob where ob: "w_objs w p = Some ob" and ok: "table_ok w p ob"
    by (auto simp: table_obj_ok_def)
  show ?thesis
  proof (cases "\<exists>t m. at_member w p ob mem t m")
    case False
    then have "with_value_member p mem f w = (w, Inl Undefined_behaviour)"
      for f :: "yan_obj \<Rightarrow> yan_type \<Rightarrow> value_member \<Rightarrow> (world, unit) sres"
      by (auto simp: at_member_def with_value_member_def with_obj_run [OF ob] ob
          split: option.splits member_obj.splits)
    then show ?thesis
      using assms(1)
      by (cases opr) (simp_all add: member_assign_def member_set_cond_def update_value_member_def
          member_operator_def member_compare_def member_order_def)
  next
    case True
    then obtain t m where at: "at_member w p ob mem t m" by blast
    then have "op_typed t opr" using typed by (simp add: at_member_def)
    with ob ok at show ?thesis by (rule run_member_op_at)
  qed
qed

text \<open>
  No operation changes the registry or the class of any object, or the condition list of one that has one.
\<close>

definition conds_at :: "world \<Rightarrow> addr \<Rightarrow> addr option" where
  "conds_at w q = (case w_objs w q of None \<Rightarrow> None | Some ob \<Rightarrow> ob_conds ob)"

definition same_classes :: "world \<Rightarrow> world \<Rightarrow> bool" where
  "same_classes w w' \<longleftrightarrow> w_reg w' = w_reg w \<and>
     (\<forall>q. map_option ob_class (w_objs w' q) = map_option ob_class (w_objs w q)) \<and>
     (\<forall>q l. conds_at w q = Some l \<longrightarrow> conds_at w' q = Some l)"

interpretation class_frame: frame_rel same_classes
  by unfold_locales (simp_all add: same_classes_def)

lemma keeps_with_obj:
  "(\<And>ob. keeps same_classes (f ob)) \<Longrightarrow> keeps same_classes (with_obj p f)"
  by (auto simp: keeps_def with_obj_def class_frame.refl split: option.splits)

lemma keeps_modify_obj:
  assumes "\<And>ob. ob_class (f ob) = ob_class ob" and "\<And>ob. ob_conds (f ob) = ob_conds ob"
  shows "keeps same_classes (modify_obj p f)"
  using assms
  by (auto simp: keeps_def modify_obj_def with_obj_def same_classes_def conds_at_def split: option.splits)

lemma keeps_push_param: "keeps same_classes (push_param p h prm)"
  by (auto simp: keeps_def push_param_def with_obj_def same_classes_def conds_at_def Let_def split: option.splits)

lemma keeps_with_value_member:
  "(\<And>ob t m. keeps same_classes (f ob t m)) \<Longrightarrow> keeps same_classes (with_value_member p mem f)"
  unfolding with_value_member_def
  by (rule keeps_with_obj) (auto intro: class_frame.keeps_throwS split: option.splits member_obj.splits)

lemma keeps_update_value_member: "keeps same_classes (update_value_member p mem f)"
  unfolding update_value_member_def by (intro keeps_with_value_member keeps_modify_obj) simp_all

lemma keeps_insert_seq: "keeps same_classes (insert_seq p seq)"
  unfolding insert_seq_def by (rule keeps_modify_obj) simp_all

lemma keeps_run_deepcb: "keeps same_classes (run_deepcb chain)"
proof (induction chain rule: run_deepcb.induct)
  case (2 q mem chain)
  have "same_classes w (fst (insert_seq q (obj_member_seq ob mem w) w))" for w ob
    using keeps_insert_seq by (rule keepsD)
  then have "keeps same_classes (with_obj q (\<lambda>ob w. insert_seq q (obj_member_seq ob mem w) w))"
    by (intro keeps_with_obj) (simp add: keeps_def)
  with 2 show ?case by (simp add: class_frame.keeps_bindS)
qed (simp add: keeps_def class_frame.refl)

lemma keeps_obj_append_seq: "keeps same_classes (obj_append_seq p seq)"
  unfolding obj_append_seq_def
  by (rule keeps_with_obj, rule class_frame.keeps_bindS [OF keeps_insert_seq keeps_run_deepcb])

lemma keeps_obj_append_param: "keeps same_classes (obj_append_param p prm)"
  unfolding obj_append_param_def
  by (rule keeps_with_obj) (simp add: keeps_push_param Let_def split: prod.splits)

lemma keeps_member_compare: "keeps same_classes (member_compare opstype v p mem)"
  unfolding member_compare_def
proof (rule keeps_with_value_member)
  fix ob t m
  have "keeps same_classes (bindS (obj_append_param q prm)
      (\<lambda>_. update_value_member p mem (\<lambda>m. m\<lparr>vm_cond := 0\<rparr>)))" for q prm
    by (rule class_frame.keeps_bindS [OF keeps_obj_append_param keeps_update_value_member])
  note K = keepsD [OF this]
  show "keeps same_classes (\<lambda>w. if vm_cond m = 0 then (w, Inl no_cond_error)
      else bindS (obj_append_param (vm_obj m) (make_param mem t (set_mem_cond_type (vm_cond m) opstype)
             (obj_member_seq ob mem w) v))
           (\<lambda>_. update_value_member p mem (\<lambda>m. m\<lparr>vm_cond := 0\<rparr>)) w)"
    by (simp add: keeps_def K class_frame.refl)
qed

lemma keeps_member_assign: "keeps same_classes (member_assign rvalue v p mem)"
  unfolding member_assign_def
proof (rule keeps_with_value_member)
  fix ob t m
  have "keeps same_classes (bindS (update_value_member p mem (\<lambda>m. m\<lparr>vm_value := Some v\<rparr>)) (\<lambda>_.
         if \<not> vm_flag m then
           bindS (obj_append_seq (vm_obj m) s)
             (\<lambda>_. update_value_member p mem (\<lambda>m. m\<lparr>vm_flag := True\<rparr>))
         else returnS ()))" for s
    by (simp add: class_frame.keeps_bindS keeps_update_value_member keeps_obj_append_seq
        class_frame.keeps_returnS)
  note K = keepsD [OF this]
  show "keeps same_classes (\<lambda>w.
     if vm_cond m > 0 then (w, Inl (assign_cond_error rvalue (vm_cond m)))
     else if t = YT_AUTO_INCREMENT then (w, Inl (auto_increment_error (cd_name (ob_class ob)) mem))
     else
       bindS (update_value_member p mem (\<lambda>m. m\<lparr>vm_value := Some v\<rparr>)) (\<lambda>_.
         if \<not> vm_flag m then
           bindS (obj_append_seq (vm_obj m) (obj_member_seq ob mem w))
             (\<lambda>_. update_value_member p mem (\<lambda>m. m\<lparr>vm_flag := True\<rparr>))
         else returnS ()) w)"
    unfolding keeps_def using K by (simp add: class_frame.refl)
qed

lemma keeps_member_order: "keeps same_classes (member_order ct p mem)"
  unfolding member_order_def member_set_cond_def
  by (intro keeps_with_value_member class_frame.keeps_bindS keeps_update_value_member)
    (auto intro: class_frame.keeps_throwS keeps_member_compare split: option.splits)

lemma keeps_run_member_op: "keeps same_classes (run_member_op opr p mem)"
  by (cases opr) (simp_all add: keeps_member_assign keeps_member_compare keeps_member_order
      member_operator_def member_set_cond_def keeps_update_value_member)

lemma run_member_op_class:
  "w_objs w p = Some ob \<Longrightarrow> \<exists>ob'. w_objs (fst (run_member_op opr p mem w)) p = Some ob' \<and> ob_class ob' = ob_class ob"
  using keepsD [OF keeps_run_member_op, of w opr p mem]
  unfolding same_classes_def by (metis map_option_eq_Some)

text \<open>
  C1: whatever sequence of assignments, \<open>AND/OR/NOT\<close> selections, comparisons and grouping or ordering
  calls user code runs on the members of a table object (type-correct ones, as the compiler enforces;
  calls that throw included), the object stays consistent: a member's flag is set exactly when its
  number is in the object's set, flagged members hold a value of the declared type and are not
  \<open>AUTO_INCREMENT\<close>, every stored condition names a member of the class with a matching operand, and the
  hash text is the concatenation of the conditions' four-byte entries.
\<close>

theorem table_object_invariant:
  assumes "table_obj_ok w p" and "w_objs w p = Some ob"
    and "\<forall>(mem, opr) \<in> set ops. \<forall>t. decl_type (ob_class ob) mem = Some t \<longrightarrow> op_typed t opr"
  shows "table_obj_ok (run_member_ops p ops w) p"
  using assms
proof (induction ops arbitrary: w ob)
  case (Cons x ops)
  obtain mem opr where x: "x = (mem, opr)" by force
  let ?w = "fst (run_member_op opr p mem w)"
  from Cons.prems have ok: "table_obj_ok ?w p"
    by (intro run_member_op_ok) (auto simp: x)
  obtain ob' where "w_objs ?w p = Some ob'" "ob_class ob' = ob_class ob"
    using run_member_op_class [OF Cons.prems(2)] by blast
  with Cons.prems ok Cons.IH [OF ok, of ob'] show ?case by (auto simp: x)
qed simp

section \<open>Construction establishes the invariant\<close>

fun value_decl :: "member_decl \<Rightarrow> bool" where
  "value_decl (MEMBER _ t _) \<longleftrightarrow> YanType2Type t \<noteq> None"
| "value_decl _ \<longleftrightarrow> False"

definition table_class :: "class_decl \<Rightarrow> bool" where
  "table_class c \<longleftrightarrow>
     distinct (map member_decl_name (cd_members c)) \<and> length (cd_members c) \<le> 65536 \<and>
     list_all value_decl (cd_members c)"

lemma value_decl_no_tmp: "list_all value_decl ms \<Longrightarrow> list_all member_no_tmp ms"
  by (induction ms) (auto elim: value_decl.elims)

lemma value_decl_no_structs: "list_all value_decl ms \<Longrightarrow> concat (map member_struct_names ms) = []"
  by (induction ms) (auto elim: value_decl.elims)

lemma class_ready_registered:
  assumes "registry_ok reg" and "class_ready reg c" and "list_all value_decl (cd_members c)"
  shows "all_registered reg c"
proof -
  obtain n a ms where c: "c = CLASS n a ms" by (cases c)
  let ?st = "get_class_state reg n a"
  have "set (cs_registered ?st) = mi_name ` set (ys_members (cs_struct ?st))"
    using get_class_state_ok [OF assms(1), of n a] by (simp add: class_state_ok_def)
  also have "\<dots> = set (map member_decl_name ms)"
    using assms(2) by (force simp: class_ready_def get_yan_struct_def c)
  finally have r: "is_registered reg n (member_decl_name m)" if "m \<in> set ms" for m
    using that by (simp add: is_registered_state [where a = a])
  have "member_registered reg n m" if "m \<in> set ms" for m
    using r [OF that] assms(3) that by (cases m) (auto simp: c list_all_iff)
  then show ?thesis by (simp add: c list_all_iff)
qed

lemma construct_table:
  assumes "registry_ok reg" and "table_class c" and "reg (cd_name c) = None \<or> class_ready reg c"
  shows "\<exists>reg'. construct c reg = (reg', Inr ()) \<and> class_ready reg' c \<and> registry_ok reg' \<and>
    (reg (cd_name c) \<noteq> None \<longrightarrow> reg' = reg)"
  using assms(3)
proof
  assume none: "reg (cd_name c) = None"
  obtain n a ms where c: "c = CLASS n a ms" by (cases c)
  have "\<exists>reg'. construct (CLASS n a ms) reg = (reg', Inr ()) \<and>
    ys_members (get_yan_struct reg' (CLASS n a ms)) = map decl_info ms \<and>
    (\<forall>i < length ms. member_seq reg' n (member_decl_name (ms ! i)) = of_nat i)"
    by (rule construct_layout_aux [OF assms(1)])
      (use assms(2) none c in \<open>auto simp: table_class_def value_decl_no_tmp value_decl_no_structs\<close>)
  with assms(2) none construct_registry_ok_aux(1) [OF assms(1), of c] show ?thesis
    by (auto simp: class_ready_def table_class_def c)
next
  assume r: "class_ready reg c"
  from assms(2) have "list_all value_decl (cd_members c)" by (simp add: table_class_def)
  from construct_again_aux(1) [OF class_ready_registered [OF assms(1) r this]] r assms(1) show ?thesis by blast
qed

lemma alloc_members_values:
  "list_all value_decl ms \<Longrightarrow> \<exists>mems'. alloc_members p chain ms mems w = (mems', w) \<and>
    (\<forall>k. k \<notin> set (map member_decl_name ms) \<longrightarrow> mems' k = mems k)"
proof (induction ms arbitrary: mems)
  case (Cons m ms)
  then show ?case by (cases m) (auto simp: Let_def, metis fun_upd_other)
qed simp

lemma alloc_members_value_at:
  assumes "list_all value_decl ms" and "distinct (map member_decl_name ms)" and "i < length ms"
    and "ms ! i = MEMBER mem t args"
  shows "fst (alloc_members p chain ms mems w) mem =
    Some (MO_value \<lparr>vm_cond = 0, vm_flag = False, vm_value = tag_init_val t, vm_obj = p\<rparr>)"
  using assms
proof (induction ms arbitrary: i mems)
  case (Cons m ms)
  show ?case
  proof (cases i)
    case 0
    with Cons.prems have m: "m = MEMBER mem t args" "mem \<notin> set (map member_decl_name ms)" by auto
    let ?mo = "MO_value \<lparr>vm_cond = 0, vm_flag = False, vm_value = tag_init_val t, vm_obj = p\<rparr>"
    from Cons.prems(1) alloc_members_values [of ms p chain "mems(mem \<mapsto> ?mo)" w] m show ?thesis
      by auto
  next
    case (Suc j)
    with Cons.prems Cons.IH [of j] show ?thesis
      by (cases m) (auto simp: Let_def)
  qed
qed simp

lemma new_table_object_run:
  assumes "registry_ok (w_reg w)" and "table_class c"
    and "w_reg w (cd_name c) = None \<or> class_ready (w_reg w) c"
  shows "\<exists>w' ob. new_object c [] w = (w', Inr (w_next w)) \<and> w_objs w' (w_next w) = Some ob \<and>
    table_ok w' (w_next w) ob \<and> ob_class ob = c \<and>
    ob_seqset ob = [] \<and> ob_conds ob = None \<and> ob_hashv ob = '''' \<and> registry_ok (w_reg w') \<and>
    w_objs w' = (w_objs w)(w_next w \<mapsto> ob) \<and> w_plists w' = w_plists w \<and> w_next w' = w_next w + 1 \<and>
    (w_reg w (cd_name c) \<noteq> None \<longrightarrow> w_reg w' = w_reg w)"
proof -
  from construct_table [OF assms] obtain reg where reg: "construct c (w_reg w) = (reg, Inr ())"
    and ready: "class_ready reg c" and rok: "registry_ok reg"
    and same: "w_reg w (cd_name c) \<noteq> None \<longrightarrow> reg = w_reg w" by blast
  obtain n a ms where c: "c = CLASS n a ms" by (cases c)
  let ?p = "w_next w" and ?w1 = "w\<lparr>w_reg := reg, w_next := w_next w + 1\<rparr>"
  have vd: "list_all value_decl ms" "distinct (map member_decl_name ms)"
    using assms(2) by (auto simp: table_class_def c)
  obtain mems where al: "alloc_members ?p [] ms (\<lambda>_. None) ?w1 = (mems, ?w1)"
    using alloc_members_values [OF vd(1)] by blast
  let ?ob = "(fresh_obj c [])\<lparr>ob_mems := mems\<rparr>"
  have new: "new_object c [] w = (put_obj ?p ?ob ?w1, Inr ?p)"
    using reg al by (simp add: new_object_def c Let_def)
  have "\<exists>mem t args m. ms ! i = MEMBER mem t args \<and> mems mem = Some (MO_value m) \<and>
      value_member_ok ?p t False m" if i: "i < length ms" for i
  proof -
    from vd(1) i have "value_decl (ms ! i)" by (simp add: list_all_length)
    then obtain mem t args where m: "ms ! i = MEMBER mem t args" "YanType2Type t \<noteq> None"
      by (auto elim: value_decl.elims)
    from alloc_members_value_at [OF vd i m(1), of ?p "[]" "\<lambda>_. None" ?w1] al m(2) show ?thesis
      using m(1) by (auto simp: value_member_ok_def)
  qed
  then have "table_ok (put_obj ?p ?ob ?w1) ?p ?ob"
    using ready by (simp add: table_ok_def fresh_obj_def obj_params_def c)
  moreover have "w_objs (put_obj ?p ?ob ?w1) = (w_objs w)(?p \<mapsto> ?ob)"
    "w_plists (put_obj ?p ?ob ?w1) = w_plists w" "w_reg (put_obj ?p ?ob ?w1) = reg"
    "w_next (put_obj ?p ?ob ?w1) = w_next w + 1" by simp_all
  moreover have "ob_class ?ob = c" "ob_seqset ?ob = []" "ob_conds ?ob = None" "ob_hashv ?ob = ''''"
    by (simp_all add: fresh_obj_def)
  ultimately show ?thesis
    using new rok same by (intro exI [of _ "put_obj ?p ?ob ?w1"] exI [of _ ?ob]) simp
qed

text \<open>
  A constructor call for a table class succeeds and yields a consistent, empty object: no member
  assigned, no condition stored, empty hash text.  Every other object and every parameter list stay
  as they are, and a second object of a class leaves the registry unchanged.
\<close>

theorem new_table_object:
  assumes "registry_ok (w_reg w)" and "table_class c"
    and "w_reg w (cd_name c) = None \<or> class_ready (w_reg w) c"
  shows "\<exists>w' ob. new_object c [] w = (w', Inr (w_next w)) \<and> w_objs w' (w_next w) = Some ob \<and>
    table_ok w' (w_next w) ob \<and> ob_class ob = c \<and>
    ob_seqset ob = [] \<and> ob_conds ob = None \<and> ob_hashv ob = '''' \<and> registry_ok (w_reg w') \<and>
    w_objs w' = (w_objs w)(w_next w \<mapsto> ob) \<and> w_plists w' = w_plists w \<and> w_next w' = w_next w + 1 \<and>
    (w_reg w (cd_name c) \<noteq> None \<longrightarrow> w_reg w' = w_reg w)"
  using assms by (rule new_table_object_run)

lemma table_class_samples [simp]: "table_class ComponentDB" "table_class MaintainDB"
  by (simp_all add: table_class_def ComponentDB_def MaintainDB_def)

lemma empty_world_simps [simp]:
  "w_reg empty_world = empty_registry" "w_next empty_world = 0" "empty_registry n = None"
  by (simp_all add: empty_world_def empty_registry_def)

theorem new_table_object_witness:
  "\<exists>w' ob. new_object ComponentDB [] empty_world = (w', Inr 0) \<and> w_objs w' 0 = Some ob \<and>
     table_ok w' 0 ob \<and> ob_seqset ob = []"
  using new_table_object [of empty_world ComponentDB] by auto

text \<open>A consistent object of the tests' table \<open>ComponentDB\<close>, for concrete instances.\<close>

lemma sample_object:
  obtains w ob m where "table_obj_ok w 0" and "at_member w 0 ob ''name'' YT_STRING m"
    and "ob_class ob = ComponentDB"
proof -
  from new_table_object_run [of empty_world ComponentDB] obtain w ob where
    w: "w_objs w 0 = Some ob" "table_ok w 0 ob" "ob_class ob = ComponentDB"
    using table_class_samples(1) by (metis empty_world_simps registry_ok_empty)
  have "2 < length (cd_members (ob_class ob))" by (simp add: w(3) ComponentDB_def)
  from table_ok_member [OF w(1,2) this] obtain mem t args m where
    "cd_members (ob_class ob) ! 2 = MEMBER mem t args" "at_member w 0 ob mem t m" by metis
  moreover from this(1) have "mem = ''name''" "t = YT_STRING" by (simp_all add: w(3) ComponentDB_def)
  moreover have "table_obj_ok w 0" using w by (auto simp: table_obj_ok_def)
  ultimately show ?thesis using that w(3) by blast
qed

theorem table_object_invariant_witness:
  "\<exists>w. table_obj_ok w 0 \<and>
     table_obj_ok (run_member_ops 0
       [(''name'', Op_cond CT_AND), (''name'', Op_compare (Cmp_eq (V_string ''MySQL''))),
        (''version'', Op_assign False (V_string ''v5.6'')), (''name'', Op_compare (Cmp_lt (V_string ''a'')))] w) 0"
proof -
  from new_table_object_run [of empty_world ComponentDB] obtain w ob where
    w: "w_objs w 0 = Some ob" "table_ok w 0 ob" "ob_class ob = ComponentDB" by auto
  then have ok: "table_obj_ok w 0" by (auto simp: table_obj_ok_def)
  show ?thesis
    by (intro exI [of _ w] conjI ok table_object_invariant [OF ok w(1)])
      (auto simp: w(3) ComponentDB_def)
qed

section \<open>What a comparison and an assignment record\<close>

text \<open>
  C27: a comparison on a member for which a condition kind was selected appends exactly one parameter
  to the object's conditions and its four bytes to the hash text; the parameter names the member,
  carries its number and operand, and its code decodes to the selected kind and the operator.  The
  selection is consumed, the set of assigned members is untouched.
\<close>

theorem comparison_records_condition:
  assumes "table_obj_ok w p" and "at_member w p ob mem t m" and "vm_cond m \<noteq> 0"
  shows "\<exists>w' ob' m' prm. member_operator c p mem w = (w', Inr ()) \<and> at_member w' p ob' mem t m' \<and>
    vm_cond m' = 0 \<and> ob_seqset ob' = ob_seqset ob \<and>
    obj_params w' ob' = obj_params w ob @ [prm] \<and> ob_hashv ob' = ob_hashv ob @ hash_entry prm \<and>
    param_name prm = mem \<and> param_type prm = t \<and> param_val prm = cmp_operand c \<and>
    param_seq prm = obj_member_seq ob mem w \<and>
    get_mem_cond_type (param_cond prm) = cond_type_of (vm_cond m) \<and>
    get_mem_ops_type (param_cond prm) = cmp_ops c"
proof -
  have w: "w_objs w p = Some ob" using assms(2) by (simp add: at_member_def)
  with assms(1) have ok: "table_ok w p ob" by (auto simp: table_obj_ok_def)
  have own: "vm_obj m = p" "ob_chain ob = []"
    using at_member_index [OF ok assms(2)] ok by (auto simp: value_member_ok_def table_ok_def)
  have l: "\<And>l. ob_conds ob = Some l \<Longrightarrow> w_plists w l \<noteq> None"
    using ok by (auto simp: table_ok_def)
  let ?prm = "make_param mem t (set_mem_cond_type (vm_cond m) (cmp_ops c)) (obj_member_seq ob mem w) (cmp_operand c)"
  obtain ob' w' where st: "store_param p ?prm ob w = (ob', w')" by force
  note S = store_param_simps [OF st l]
  note R = member_compare_run [OF assms(2) own assms(3) l refl st]
  have at': "at_member (put_obj p (put_mem mem (MO_value (m\<lparr>vm_cond := 0\<rparr>)) ob') w') p
      (put_mem mem (MO_value (m\<lparr>vm_cond := 0\<rparr>)) ob') mem t (m\<lparr>vm_cond := 0\<rparr>)"
    using assms(2) by (simp add: at_member_def S)
  have R': "member_operator c p mem w =
      (put_obj p (put_mem mem (MO_value (m\<lparr>vm_cond := 0\<rparr>)) ob') w', Inr ())"
    using assms(3) R by (simp add: member_operator_def)
  show ?thesis
    by (rule exI [of _ "put_obj p (put_mem mem (MO_value (m\<lparr>vm_cond := 0\<rparr>)) ob') w'"],
        rule exI [of _ "put_mem mem (MO_value (m\<lparr>vm_cond := 0\<rparr>)) ob'"],
        rule exI [of _ "m\<lparr>vm_cond := 0\<rparr>"], rule exI [of _ ?prm])
      (use R' at' in \<open>simp_all add: S\<close>, simp_all add: make_param_def)
qed

text \<open>
  A comparison without a selected condition kind throws and changes nothing, and an assignment is
  refused, again without any effect, when a condition kind is pending or the member is
  \<open>AUTO_INCREMENT\<close>.
\<close>

theorem refused_operations_change_nothing:
  assumes "at_member w p ob mem t m"
  shows "(vm_cond m = 0 \<longrightarrow> member_operator c p mem w = (w, Inl no_cond_error)) \<and>
    (vm_cond m \<noteq> 0 \<longrightarrow> member_assign rvalue x p mem w = (w, Inl (assign_cond_error rvalue (vm_cond m)))) \<and>
    (vm_cond m = 0 \<longrightarrow> t = YT_AUTO_INCREMENT \<longrightarrow>
       member_assign rvalue x p mem w = (w, Inl (auto_increment_error (cd_name (ob_class ob)) mem)))"
  using member_assign_throws [OF assms, of rvalue x]
  by (auto simp: member_operator_def member_compare_def with_value_member_run [OF assms])

theorem comparison_records_condition_witness:
  "\<exists>w ob m w' ob' m' prm. at_member w 0 ob ''name'' YT_STRING m \<and> vm_cond m = 1 \<and>
     member_operator (Cmp_gt (V_string ''a'')) 0 ''name'' w = (w', Inr ()) \<and>
     at_member w' 0 ob' ''name'' YT_STRING m' \<and> vm_cond m' = 0 \<and>
     obj_params w' ob' = obj_params w ob @ [prm] \<and> param_name prm = ''name'' \<and>
     get_mem_cond_type (param_cond prm) = CT_AND \<and> get_mem_ops_type (param_cond prm) = OT_LARGE"
proof -
  obtain w0 ob0 m0 where w0: "table_obj_ok w0 0" "at_member w0 0 ob0 ''name'' YT_STRING m0"
    "ob_class ob0 = ComponentDB" by (rule sample_object)
  let ?m = "m0\<lparr>vm_cond := 1\<rparr>"
  let ?ob = "put_mem ''name'' (MO_value ?m) ob0"
  let ?w = "put_obj 0 ?ob w0"
  have "run_member_op (Op_cond CT_AND) 0 ''name'' w0 = (?w, Inr ())"
    using update_value_member_run [OF w0(2)] by (simp add: member_set_cond_def)
  with run_member_op_ok [OF w0(1), of "''name''" "Op_cond CT_AND"] have ok: "table_obj_ok ?w 0" by auto
  have m: "vm_cond ?m \<noteq> 0" by simp
  note C = comparison_records_condition [OF ok at_member_put [OF w0(2)] m,
      of "Cmp_gt (V_string ''a'')"]
  show ?thesis
    by (rule exI [of _ ?w], rule exI [of _ ?ob], rule exI [of _ ?m]) (use C at_member_put [OF w0(2)] in auto)
qed

theorem refused_operations_change_nothing_witness:
  "\<exists>w ob m. at_member w 0 ob ''name'' YT_STRING m \<and> vm_cond m = 0 \<and>
     member_operator (Cmp_gt (V_string ''a'')) 0 ''name'' w = (w, Inl no_cond_error)"
proof -
  obtain w0 ob0 m0 where w0: "at_member w0 0 ob0 ''name'' YT_STRING m0" by (rule sample_object)
  let ?m = "m0\<lparr>vm_cond := 0\<rparr>"
  have at: "at_member (put_obj 0 (put_mem ''name'' (MO_value ?m) ob0) w0) 0
      (put_mem ''name'' (MO_value ?m) ob0) ''name'' YT_STRING ?m"
    using w0 by (rule at_member_put)
  from refused_operations_change_nothing [OF at, of "Cmp_gt (V_string ''a'')"] at
  show ?thesis by fastforce
qed

section \<open>Assigning through a copy\<close>

lemma table_ok_cong:
  "w_reg w = w_reg w' \<Longrightarrow> w_plists w = w_plists w' \<Longrightarrow> table_ok w p = table_ok w' p"
  by (rule ext) (simp add: table_ok_def obj_params_def cong: option.case_cong)

lemma copy_members_values:
  "\<forall>d \<in> set ms. \<exists>mem t args mo. d = MEMBER mem t args \<and> ob_mems ob mem = Some mo \<Longrightarrow>
    copy_members ms ob mems w =
      (w, Inr (\<lambda>k. if k \<in> set (map member_decl_name ms) then ob_mems ob k else mems k))"
proof (induction ms arbitrary: mems)
  case (Cons d ms)
  from Cons.prems obtain mem t args mo where d: "d = MEMBER mem t args" "ob_mems ob mem = Some mo" by auto
  have "copy_members ms ob (mems(mem \<mapsto> mo)) w =
      (w, Inr (\<lambda>k. if k \<in> set (map member_decl_name ms) then ob_mems ob k else (mems(mem \<mapsto> mo)) k))"
    by (rule Cons.IH) (use Cons.prems in simp)
  moreover have "(\<lambda>k. if k \<in> set (map member_decl_name ms) then ob_mems ob k else (mems(mem \<mapsto> mo)) k) =
      (\<lambda>k. if k \<in> set (map member_decl_name (d # ms)) then ob_mems ob k else mems k)"
    by (rule ext) (simp add: d)
  ultimately show ?case by (simp add: d bindS_apply del: fun_upd_apply)
qed simp

lemma copy_table_object:
  assumes "w_objs w p = Some ob" and "table_ok w p ob"
  shows "copy_obj (ob_class ob) p w =
    (put_obj (w_next w) (ob\<lparr>ob_mems := \<lambda>k. if k \<in> set (map member_decl_name (cd_members (ob_class ob)))
                                        then ob_mems ob k else None\<rparr>)
       (w\<lparr>w_next := w_next w + 1\<rparr>), Inr (w_next w))"
proof -
  obtain n a ms where c: "ob_class ob = CLASS n a ms" by (cases "ob_class ob")
  have "\<forall>d \<in> set ms. \<exists>mem t args mo. d = MEMBER mem t args \<and> ob_mems ob mem = Some mo"
    using assms(2) unfolding table_ok_def c class_decl.sel by (metis in_set_conv_nth)
  note V = copy_members_values [OF this]
  show ?thesis
    by (simp add: c with_obj_run [OF assms(1)] bindS_apply alloc_addr_def V)
qed

text \<open>
  A copy made by the implicit copy constructor keeps the original's back pointers.  The first
  assignment to a member through the copy stores the value in the copy but registers the member with
  the original: the copy's set of assigned members, which an insert reads, does not change, and the
  original lists a member whose value and flag it never received.
\<close>

theorem assignment_through_a_copy:
  assumes "table_obj_ok w p" and "at_member w p ob mem t m" and "w_objs w (w_next w) = None"
    and "vm_cond m = 0" and "\<not> vm_flag m" and "t \<noteq> YT_AUTO_INCREMENT"
  shows "\<exists>w1 q w2 ob1 ob2. copy_obj (ob_class ob) p w = (w1, Inr q) \<and> q \<noteq> p \<and>
    member_assign rvalue v q mem w1 = (w2, Inr ()) \<and>
    w_objs w2 q = Some ob2 \<and> ob_seqset ob2 = ob_seqset ob \<and>
    ob_mems ob2 mem = Some (MO_value (m\<lparr>vm_value := Some v, vm_flag := True\<rparr>)) \<and>
    w_objs w2 p = Some ob1 \<and> ob_mems ob1 = ob_mems ob \<and>
    ob_seqset ob1 = sset_insert (obj_member_seq ob mem w) (ob_seqset ob)"
proof -
  have w: "w_objs w p = Some ob" and mo: "ob_mems ob mem = Some (MO_value m)"
    and ty: "decl_type (ob_class ob) mem = Some t"
    using assms(2) by (auto simp: at_member_def)
  with assms(1) have ok: "table_ok w p ob" by (auto simp: table_obj_ok_def)
  let ?q = "w_next w"
  from w assms(3) have q: "?q \<noteq> p" by auto
  from at_member_index [OF ok assms(2)] obtain i args where
    i: "i < length (cd_members (ob_class ob))" "cd_members (ob_class ob) ! i = MEMBER mem t args"
    and "value_member_ok p t (of_nat i \<in> set (ob_seqset ob)) m" by metis
  then have m: "vm_obj m = p" by (simp add: value_member_ok_def)
  from i have decl: "mem \<in> set (map member_decl_name (cd_members (ob_class ob)))"
    by (metis length_map member_decl_name.simps(1) nth_map nth_mem)
  define obc where "obc = ob\<lparr>ob_mems := \<lambda>k. if k \<in> set (map member_decl_name (cd_members (ob_class ob)))
                                        then ob_mems ob k else None\<rparr>"
  define w1 where "w1 = put_obj ?q obc (w\<lparr>w_next := w_next w + 1\<rparr>)"
  have copy: "copy_obj (ob_class ob) p w = (w1, Inr ?q)"
    by (simp add: copy_table_object [OF w ok] w1_def obc_def)
  let ?s = "obj_member_seq ob mem w"
  let ?m1 = "m\<lparr>vm_value := Some v\<rparr>" and ?m2 = "m\<lparr>vm_value := Some v, vm_flag := True\<rparr>"
  let ?c1 = "put_mem mem (MO_value ?m1) obc" and ?c2 = "put_mem mem (MO_value ?m2) obc"
  let ?ob1 = "ob\<lparr>ob_seqset := sset_insert ?s (ob_seqset ob)\<rparr>"
  let ?wa = "put_obj ?q ?c1 w1"
  have at: "at_member w1 ?q obc mem t m"
    using mo ty decl by (simp add: at_member_def w1_def obc_def)
  have s: "obj_member_seq obc mem w1 = ?s" by (simp add: obj_member_seq_def obc_def w1_def)
  have p: "w_objs ?wa p = Some ob" using w q by (simp add: w1_def)
  have chain: "ob_chain ob = []" using ok by (simp add: table_ok_def)
  note app = obj_append_seq_run [OF p chain, of ?s]
  have at2: "at_member (put_obj p ?ob1 ?wa) ?q ?c1 mem t ?m1"
    using at_member_put [OF at] q by (simp add: at_member_def)
  have run: "member_assign rvalue v ?q mem w1 = (put_obj ?q ?c2 (put_obj p ?ob1 ?wa), Inr ())"
    using update_value_member_run [OF at] update_value_member_run [OF at2] app
    by (simp add: member_assign_def with_value_member_run [OF at] assms(4-6) bindS_apply m s)
  show ?thesis
    by (rule exI [of _ w1], rule exI [of _ ?q], rule exI [of _ "put_obj ?q ?c2 (put_obj p ?ob1 ?wa)"],
        rule exI [of _ ?ob1], rule exI [of _ ?c2], intro conjI, rule copy, rule q, rule run)
      (use q in \<open>simp_all add: obc_def\<close>)
qed

theorem assignment_through_a_copy_witness:
  "\<exists>w w1 q w2 ob2. copy_obj ComponentDB 0 w = (w1, Inr q) \<and> q \<noteq> 0 \<and>
     member_assign False (V_string ''x'') q ''name'' w1 = (w2, Inr ()) \<and>
     w_objs w2 q = Some ob2 \<and> ob_seqset ob2 = []"
proof -
  from new_table_object_run [of empty_world ComponentDB] obtain w ob where
    w: "new_object ComponentDB [] empty_world = (w, Inr 0)"
    "w_objs w 0 = Some ob" "table_ok w 0 ob" "ob_class ob = ComponentDB" "ob_seqset ob = []"
    by (metis empty_world_simps registry_ok_empty table_class_samples(1))
  have "2 < length (cd_members (ob_class ob))" by (simp add: w(4) ComponentDB_def)
  from table_ok_member [OF w(2,3) this] obtain mem t args m where
    "cd_members (ob_class ob) ! 2 = MEMBER mem t args" and at: "at_member w 0 ob mem t m"
    and v: "value_member_ok 0 t (of_nat 2 \<in> set (ob_seqset ob)) m" by metis
  then have n: "mem = ''name''" "t = YT_STRING" by (simp_all add: w(4) ComponentDB_def)
  let ?m = "m\<lparr>vm_cond := 0\<rparr>"
  let ?w = "(put_obj 0 (put_mem ''name'' (MO_value ?m) ob) w)
              \<lparr>w_next := 1, w_objs := [0 \<mapsto> put_mem ''name'' (MO_value ?m) ob]\<rparr>"
  have at': "at_member ?w 0 (put_mem ''name'' (MO_value ?m) ob) ''name'' YT_STRING ?m"
    using at n by (simp add: at_member_def)
  have "table_ok w 0 (put_mem mem (MO_value ?m) (ob\<lparr>ob_seqset := ob_seqset ob\<rparr>))"
    by (rule table_ok_update [OF w(3), where i = 2 and t = t and args = "Args1 ''n''"])
      (use v n in \<open>simp_all add: w(4,5) ComponentDB_def value_member_ok_def\<close>)
  moreover have "table_ok ?w 0 = table_ok w 0"
    by (rule table_ok_cong) simp_all
  ultimately have "table_ok ?w 0 (put_mem ''name'' (MO_value ?m) ob)"
    using n by simp
  then have ok: "table_obj_ok ?w 0" by (simp add: table_obj_ok_def)
  have nf: "\<not> vm_flag m" using v by (simp add: value_member_ok_def w(5))
  from assignment_through_a_copy [OF ok at', of False "V_string ''x''"] nf show ?thesis
    by (fastforce simp: w(4,5))
qed

section \<open>A concrete world\<close>

text \<open>
  Two tables and some objects in it, for concrete instances: the object at address 0 asks for the
  component named \<open>MySQL\<close> and has a new \<open>version\<close> assigned, the one at 2 is fresh, the one at 3 has \<open>name\<close>
  and \<open>version\<close> assigned, the one at 4 only \<open>version\<close>; the object at 5 asks for data greater than 7,
  ordered by point.
\<close>

definition sample_state :: "class_decl \<Rightarrow> class_state" where
  "sample_state c =
     \<lparr>cs_struct = \<lparr>ys_name = cd_name c, ys_alias = (case cd_alias c of None \<Rightarrow> '''' | Some a \<Rightarrow> a),
        ys_members = map decl_info (cd_members c),
        ys_ms = map_of (zip (map member_decl_name (cd_members c)) [0..<length (cd_members c)])\<rparr>,
      cs_registered = map member_decl_name (cd_members c),
      cs_seqs = map_of (zip (map member_decl_name (cd_members c)) (map of_nat [0..<length (cd_members c)]))\<rparr>"

definition sample_reg :: registry where
  "sample_reg = [''ComponentDB'' \<mapsto> sample_state ComponentDB, ''MaintainDB'' \<mapsto> sample_state MaintainDB]"

definition sample_object_with :: "class_decl \<Rightarrow> addr \<Rightarrow> (string \<times> yan_val) list \<Rightarrow> 16 word list \<Rightarrow> yan_obj" where
  "sample_object_with c p vals seqs =
     (fresh_obj c [])\<lparr>ob_seqset := seqs, ob_mems := (\<lambda>mem.
        case decl_type c mem of
          None \<Rightarrow> None
        | Some t \<Rightarrow> Some (MO_value (case map_of vals mem of
              None \<Rightarrow> \<lparr>vm_cond = 0, vm_flag = False, vm_value = tag_init_val t, vm_obj = p\<rparr>
            | Some v \<Rightarrow> \<lparr>vm_cond = 0, vm_flag = True, vm_value = Some v, vm_obj = p\<rparr>)))\<rparr>"

definition with_conds :: "addr \<Rightarrow> param list \<Rightarrow> yan_obj \<Rightarrow> yan_obj" where
  "with_conds l ps ob = ob\<lparr>ob_conds := Some l, ob_hashv := concat (map hash_entry ps)\<rparr>"

definition sample_conds0 :: "param list" where
  "sample_conds0 = [make_param ''name'' YT_STRING (set_mem_cond_type 1 OT_EQUAL) 2 (PV (V_string ''MySQL''))]"

definition sample_conds5 :: "param list" where
  "sample_conds5 = [make_param ''data'' YT_INT32 (set_mem_cond_type 1 OT_LARGE) 4 (PV (V_int32 7)),
                    make_param ''point'' YT_INT32 (set_mem_cond_type 5 OT_EQUAL) 3 (PV (V_int32 0))]"

definition sample_obj :: "addr \<Rightarrow> yan_obj" where
  "sample_obj p =
     (if p = 0 then with_conds 1 sample_conds0
          (sample_object_with ComponentDB 0 [(''version'', V_string ''v5.6'')] [3])
      else if p = 3 then sample_object_with ComponentDB 3
          [(''name'', V_string ''etcd''), (''version'', V_string ''v1'')] [2, 3]
      else if p = 4 then sample_object_with ComponentDB 4 [(''version'', V_string ''v2'')] [3]
      else if p = 5 then with_conds 6 sample_conds5 (sample_object_with MaintainDB 5 [] [])
      else sample_object_with ComponentDB p [] [])"

definition sample_world :: world where
  "sample_world =
     \<lparr>w_reg = sample_reg, w_objs = (\<lambda>p. if p \<in> {0, 2, 3, 4, 5} then Some (sample_obj p) else None),
      w_plists = [1 \<mapsto> sample_conds0, 6 \<mapsto> sample_conds5], w_next = 7\<rparr>"

lemma sample_world_simps [simp]:
  "w_reg sample_world = sample_reg" "w_next sample_world = 7"
  "w_objs sample_world 0 = Some (sample_obj 0)" "w_objs sample_world 2 = Some (sample_obj 2)"
  "w_objs sample_world 3 = Some (sample_obj 3)" "w_objs sample_world 4 = Some (sample_obj 4)"
  "w_objs sample_world 5 = Some (sample_obj 5)"
  "w_plists sample_world (Suc 0) = Some sample_conds0" "w_plists sample_world 6 = Some sample_conds5"
  by (simp_all add: sample_world_def)

lemma sample_obj_simps [simp]:
  "ob_class (sample_obj 0) = ComponentDB" "ob_class (sample_obj 2) = ComponentDB"
  "ob_class (sample_obj 3) = ComponentDB" "ob_class (sample_obj 4) = ComponentDB"
  "ob_class (sample_obj 5) = MaintainDB"
  "ob_seqset (sample_obj 0) = [3]" "ob_seqset (sample_obj 2) = []" "ob_seqset (sample_obj 3) = [2, 3]"
  "ob_seqset (sample_obj 4) = [3]" "ob_seqset (sample_obj 5) = []"
  "ob_conds (sample_obj 0) = Some (Suc 0)" "ob_conds (sample_obj 2) = None" "ob_conds (sample_obj 3) = None"
  "ob_conds (sample_obj 4) = None" "ob_conds (sample_obj 5) = Some 6"
  by (simp_all add: sample_obj_def sample_object_with_def with_conds_def fresh_obj_def)

lemma sample_names [simp]: "cd_name ComponentDB = ''ComponentDB''" "cd_name MaintainDB = ''MaintainDB''"
  by (simp_all add: ComponentDB_def MaintainDB_def)

lemma sample_state_ready:
  assumes "reg (cd_name c) = Some (sample_state c)" and "table_class c"
  shows "class_ready reg c"
proof -
  have "cs_seqs (sample_state c) (member_decl_name (cd_members c ! i)) = Some (of_nat i)"
    if "i < length (cd_members c)" for i
    using map_of_zip_nth [of "map member_decl_name (cd_members c)" "map of_nat [0..<length (cd_members c)]" i] that assms(2)
    by (simp add: sample_state_def table_class_def)
  with assms show ?thesis unfolding class_ready_def
    by (auto simp: table_class_def get_yan_struct_def get_class_state_def member_seq_def)
      (simp add: sample_state_def)
qed

lemma sample_class_ready [simp]: "class_ready sample_reg ComponentDB" "class_ready sample_reg MaintainDB"
  by (rule sample_state_ready; simp add: sample_reg_def)+

lemma sample_params [simp]:
  "obj_params sample_world (sample_obj 0) = sample_conds0" "obj_params sample_world (sample_obj 5) = sample_conds5"
  by (simp_all add: obj_params_def)

lemma sample_members:
  "cd_members ComponentDB ! 2 = MEMBER ''name'' YT_STRING (Args1 ''n'')"
  "cd_members MaintainDB ! 3 = MEMBER ''point'' YT_INT32 (Args1 ''p'')"
  "cd_members MaintainDB ! 4 = MEMBER ''data'' YT_INT32 (Args1 ''d'')"
  "length (cd_members ComponentDB) = 5" "length (cd_members MaintainDB) = 6"
  by (simp_all add: ComponentDB_def MaintainDB_def)

lemma param_of_classI:
  "cd_members c ! i = MEMBER mem t args \<Longrightarrow> i < length (cd_members c) \<Longrightarrow> valid_cond cond \<Longrightarrow>
    payload_ok t (get_mem_ops_type cond) v \<Longrightarrow> seq = of_nat i \<Longrightarrow> param_of_class c (make_param mem t cond seq v)"
  by (auto simp: param_of_class_def make_param_def)

lemma sample_param_of_class [simp]:
  "prm \<in> set sample_conds0 \<Longrightarrow> param_of_class ComponentDB prm"
  "prm \<in> set sample_conds5 \<Longrightarrow> param_of_class MaintainDB prm"
proof -
  have "param_of_class ComponentDB (make_param ''name'' YT_STRING (set_mem_cond_type 1 OT_EQUAL) 2 (PV (V_string ''MySQL'')))"
    by (rule param_of_classI [where i = 2]) (simp_all add: sample_members valid_cond_code)
  then show "prm \<in> set sample_conds0 \<Longrightarrow> param_of_class ComponentDB prm" by (simp add: sample_conds0_def)
  have "param_of_class MaintainDB (make_param ''data'' YT_INT32 (set_mem_cond_type 1 OT_LARGE) 4 (PV (V_int32 7)))"
    by (rule param_of_classI [where i = 4]) (simp_all add: sample_members valid_cond_code)
  moreover have "param_of_class MaintainDB (make_param ''point'' YT_INT32 (set_mem_cond_type 5 OT_EQUAL) 3 (PV (V_int32 0)))"
    by (rule param_of_classI [where i = 3]) (simp_all add: sample_members valid_cond_code)
  ultimately show "prm \<in> set sample_conds5 \<Longrightarrow> param_of_class MaintainDB prm"
    by (auto simp: sample_conds5_def)
qed

lemma sample_object_ok:
  assumes cr: "class_ready (w_reg w) c" and vd: "list_all value_decl (cd_members c)"
    and ss: "sset seqs" "\<forall>s \<in> set seqs. unat s < length (cd_members c)"
    and dom: "\<forall>i < length (cd_members c).
      of_nat i \<in> set seqs \<longleftrightarrow> map_of vals (member_decl_name (cd_members c ! i)) \<noteq> None"
    and ty: "\<forall>(mem, v) \<in> set vals. \<forall>t. decl_type c mem = Some t \<longrightarrow>
      t \<noteq> YT_AUTO_INCREMENT \<and> YanType2Type t = Some (ctype_of v)"
  shows "table_ok w p (sample_object_with c p vals seqs)"
proof -
  let ?ob = "sample_object_with c p vals seqs"
  have "\<exists>mem t args m. cd_members c ! i = MEMBER mem t args \<and> ob_mems ?ob mem = Some (MO_value m) \<and>
      value_member_ok p t (of_nat i \<in> set seqs) m" if i: "i < length (cd_members c)" for i
  proof -
    from vd i have "value_decl (cd_members c ! i)" by (simp add: list_all_length)
    then obtain mem t args where m: "cd_members c ! i = MEMBER mem t args" "YanType2Type t \<noteq> None"
      by (auto elim: value_decl.elims)
    from decl_type_MEMBER [OF cr i m(1)] have d: "decl_type c mem = Some t" .
    have "map_of vals mem = Some v \<Longrightarrow> t \<noteq> YT_AUTO_INCREMENT \<and> YanType2Type t = Some (ctype_of v)" for v
      using ty d by (auto dest!: map_of_SomeD)
    with d m dom i show ?thesis
      by (auto simp: sample_object_with_def value_member_ok_def split: option.splits)
  qed
  then show ?thesis
    using cr ss by (simp add: table_ok_def obj_params_def) (simp add: sample_object_with_def fresh_obj_def)
qed

lemma with_conds_ok:
  "table_ok w p ob \<Longrightarrow> w_plists w l = Some ps \<Longrightarrow> ps \<noteq> [] \<Longrightarrow>
    (\<And>prm. prm \<in> set ps \<Longrightarrow> param_of_class (ob_class ob) prm) \<Longrightarrow> table_ok w p (with_conds l ps ob)"
  by (auto simp: table_ok_def with_conds_def obj_params_def)

lemma sample_value_decl: "list_all value_decl (cd_members ComponentDB)" "list_all value_decl (cd_members MaintainDB)"
  by (simp_all add: ComponentDB_def MaintainDB_def)

lemma sample_decl_type:
  "decl_type ComponentDB ''name'' = Some YT_STRING" "decl_type ComponentDB ''version'' = Some YT_STRING"
  by (simp_all add: ComponentDB_def)

lemma nat_less_5: "i < (5::nat) \<longleftrightarrow> i = 0 \<or> i = 1 \<or> i = 2 \<or> i = 3 \<or> i = 4"
  by arith

lemma sample_names_at:
  "member_decl_name (cd_members ComponentDB ! 0) = ''id''" "member_decl_name (cd_members ComponentDB ! 1) = ''component''"
  "member_decl_name (cd_members ComponentDB ! 2) = ''name''" "member_decl_name (cd_members ComponentDB ! 3) = ''version''"
  "member_decl_name (cd_members ComponentDB ! 4) = ''his_version''"
  by (simp_all add: ComponentDB_def)

lemma sample_plain_ok:
  "table_ok sample_world p (sample_object_with ComponentDB p [] [])"
  "table_ok sample_world p (sample_object_with MaintainDB p [] [])"
  "table_ok sample_world p (sample_object_with ComponentDB p [(''version'', V_string v)] [3])"
  "table_ok sample_world p (sample_object_with ComponentDB p [(''name'', V_string n), (''version'', V_string v)] [2, 3])"
proof -
  show "table_ok sample_world p (sample_object_with ComponentDB p [] [])"
    "table_ok sample_world p (sample_object_with MaintainDB p [] [])"
    by (rule sample_object_ok; simp add: sample_value_decl)+
  show "table_ok sample_world p (sample_object_with ComponentDB p [(''version'', V_string v)] [3])"
    by (rule sample_object_ok)
      (simp_all add: sample_value_decl sample_members sample_decl_type nat_less_5 sample_names_at sset_def
        del: One_nat_def)
  show "table_ok sample_world p (sample_object_with ComponentDB p [(''name'', V_string n), (''version'', V_string v)] [2, 3])"
    by (rule sample_object_ok)
      (simp_all add: sample_value_decl sample_members sample_decl_type nat_less_5 sample_names_at sset_def
        del: One_nat_def)
qed

lemma sample_table_ok [simp]:
  "table_ok sample_world 0 (sample_obj 0)" "table_ok sample_world 2 (sample_obj 2)"
  "table_ok sample_world 3 (sample_obj 3)" "table_ok sample_world 4 (sample_obj 4)"
  "table_ok sample_world 5 (sample_obj 5)"
proof -
  have c: "ob_class (sample_object_with c p v s) = c" for c p v s
    by (simp add: sample_object_with_def fresh_obj_def)
  show "table_ok sample_world 0 (sample_obj 0)"
    unfolding sample_obj_def by (simp, rule with_conds_ok [OF sample_plain_ok(3)]) (simp_all add: c sample_conds0_def)
  show "table_ok sample_world 5 (sample_obj 5)"
    unfolding sample_obj_def by (simp, rule with_conds_ok [OF sample_plain_ok(2)]) (simp_all add: c sample_conds5_def)
qed (simp_all add: sample_obj_def sample_plain_ok)

end
