(* ===== verification/Yan_Conditions.thy ===== *)
theory Yan_Conditions
  imports Yan_Object_Inv
begin

text \<open>
  The condition objects of \<open>src/base/ref_ops.h\<close> that a request carries from the user's thread to the
  worker: \<open>ReadCond\<close>/\<open>ReadCondImpl\<close> (what is returned, from which table, under which conditions),
  \<open>UpdateCond\<close>/\<open>UpdateCondImpl\<close> (with its own copy of the assigned values) and \<open>JoinReadCond\<close>.  Their
  \<open>hash_value\<close> is the key of the prepared-statement cache.
\<close>

section \<open>ReadCond\<close>

text \<open>The template argument \<open>Ret\<close> after \<open>SequenceValueType\<close>: a count, or a class.\<close>

datatype ret_type = Ret_int64 | Ret_class class_decl

record read_cond =
  rc_ret :: ret_type
  rc_cys :: "class_decl option"
  rc_params :: "addr option"
  rc_hash :: string

definition COUNT_FIELD :: string where
  "COUNT_FIELD = ''-''"

definition ReadCondImpl :: "ret_type \<Rightarrow> read_cond" where
  "ReadCondImpl ret = \<lparr>rc_ret = ret, rc_cys = None, rc_params = None, rc_hash = ''''\<rparr>"

definition no_params_error :: error where
  "no_params_error = Runtime_error ''did you forget set parameter through functions like AND/OR...''"

text \<open>\<open>append(cond, args...)\<close>: every further argument overwrites the previous one.\<close>

definition rc_append1 :: "world \<Rightarrow> read_cond \<Rightarrow> class_decl \<times> addr \<Rightarrow> read_cond res" where
  "rc_append1 w rc ca =
     (case w_objs w (snd ca) of
        None \<Rightarrow> Inl Undefined_behaviour
      | Some ob \<Rightarrow>
          (case ob_conds ob of
             None \<Rightarrow> Inl no_params_error
           | Some l \<Rightarrow> Inr (rc\<lparr>rc_cys := Some (fst ca), rc_params := Some l, rc_hash := ob_hashv ob\<rparr>)))"

definition rc_append :: "world \<Rightarrow> read_cond \<Rightarrow> (class_decl \<times> addr) list \<Rightarrow> read_cond res" where
  "rc_append w rc args = foldE (rc_append1 w) rc args"

text \<open>\<open>append<CondObj>()\<close>: a table without conditions.\<close>

definition rc_append_table :: "class_decl \<Rightarrow> read_cond \<Rightarrow> read_cond" where
  "rc_append_table c rc = rc\<lparr>rc_cys := Some c\<rparr>"

definition has_cond :: "read_cond \<Rightarrow> bool" where
  "has_cond rc \<longleftrightarrow> rc_cys rc \<noteq> None \<and> rc_params rc \<noteq> None"

definition class_name :: "world \<Rightarrow> class_decl \<Rightarrow> string" where
  "class_name w c = ys_get_name (get_yan_struct (w_reg w) c)"

definition class_members :: "world \<Rightarrow> class_decl \<Rightarrow> member_info list" where
  "class_members w c = ys_members (get_yan_struct (w_reg w) c)"

fun ret_equal_to_cond :: "ret_type \<Rightarrow> class_decl option \<Rightarrow> bool" where
  "ret_equal_to_cond (Ret_class c) cys \<longleftrightarrow> (case cys of None \<Rightarrow> True | Some c' \<Rightarrow> cd_name c = cd_name c')"
| "ret_equal_to_cond Ret_int64 cys \<longleftrightarrow> False"

text \<open>The name of the struct behind \<open>from_\<close>; the null pointer prints as the empty string.\<close>

definition from_name :: "world \<Rightarrow> member_info \<Rightarrow> string" where
  "from_name w m =
     (case mi_from m of
        None \<Rightarrow> ''''
      | Some n \<Rightarrow> (case w_reg w n of None \<Rightarrow> n | Some st \<Rightarrow> ys_get_name (cs_struct st)))"

definition lift_reg :: "(registry, 'a) sres \<Rightarrow> (world, 'a) sres" where
  "lift_reg m = (\<lambda>w. case m (w_reg w) of (reg, r) \<Rightarrow> (w\<lparr>w_reg := reg\<rparr>, r))"

text \<open>
  \<open>get_read_members\<close> walks over the members of the returned class; a class without members is
  constructed once, so that its members get registered.  For a count, one member that is not
  \<open>AUTO_INCREMENT\<close> is passed on.
\<close>

definition count_no_table_error :: error where
  "count_no_table_error = Runtime_error ''please specify a table before doing count operation''"

definition count_tmp_table_error :: error where
  "count_tmp_table_error = Runtime_error
     ''please specify a real table, not the tmp table, before doing count operation''"

definition get_read_members ::
  "read_cond \<Rightarrow> ('c \<Rightarrow> string \<Rightarrow> string \<Rightarrow> (int \<times> 'c) res) \<Rightarrow> 'c \<Rightarrow> (world, int \<times> 'c) sres" where
  "get_read_members rc cb s =
     (case rc_ret rc of
        Ret_class c \<Rightarrow>
          bindS (\<lambda>w. if class_members w c = [] then lift_reg (construct c) w else (w, Inr ()))
            (\<lambda>_ w. (w, loop_ret (\<lambda>s m. cb s (from_name w m) (mi_get_name m)) 0 s (class_members w c)))
      | Ret_int64 \<Rightarrow>
          (case rc_cys rc of
             None \<Rightarrow> throwS count_no_table_error
           | Some c \<Rightarrow> (\<lambda>w.
               if class_members w c = [] then (w, Inl count_tmp_table_error)
               else
                 (case find (\<lambda>m. mi_type m \<noteq> YT_AUTO_INCREMENT) (class_members w c) of
                    None \<Rightarrow> (w, Inr (0, s))
                  | Some m \<Rightarrow> (w, cb s COUNT_FIELD (mi_get_name m))))))"

definition rc_hash_value :: "world \<Rightarrow> read_cond \<Rightarrow> string" where
  "rc_hash_value w rc =
     (case (rc_ret rc, rc_cys rc) of
        (Ret_class r, None) \<Rightarrow> class_name w r
      | (Ret_class r, Some c) \<Rightarrow> class_name w r @ class_name w c @ rc_hash rc
      | (Ret_int64, None) \<Rightarrow> ''''
      | (Ret_int64, Some c) \<Rightarrow> class_name w c @ rc_hash rc)"

definition rc_get_obj_name :: "world \<Rightarrow> read_cond \<Rightarrow> string res" where
  "rc_get_obj_name w rc =
     (case rc_cys rc of
        Some c \<Rightarrow> Inr (class_name w c)
      | None \<Rightarrow>
          (case rc_ret rc of
             Ret_class r \<Rightarrow> Inr (class_name w r)
           | Ret_int64 \<Rightarrow> Inl (Runtime_error ''please specify the table before doing count operation'')))"

text \<open>The parameter list behind \<open>params_\<close>.\<close>

definition rc_param_list :: "world \<Rightarrow> read_cond \<Rightarrow> param list res" where
  "rc_param_list w rc =
     (case rc_params rc of
        None \<Rightarrow> Inl Undefined_behaviour
      | Some l \<Rightarrow> (case w_plists w l of None \<Rightarrow> Inl Undefined_behaviour | Some ps \<Rightarrow> Inr ps))"

section \<open>UpdateCond\<close>

record update_cond = read_cond +
  uc_laddr :: "addr option"
  uc_lco :: addr

text \<open>\<open>UpdateCondImpl<RefObj>\<close> constructs its own object \<open>lco_\<close>.\<close>

definition UpdateCondImpl :: "class_decl \<Rightarrow> (world, update_cond) sres" where
  "UpdateCondImpl c =
     bindS (new_object c []) (\<lambda>p. returnS
       \<lparr>rc_ret = Ret_class c, rc_cys = None, rc_params = None, rc_hash = '''', uc_laddr = None, uc_lco = p\<rparr>)"

definition get_value :: "world \<Rightarrow> addr \<Rightarrow> string \<Rightarrow> yan_val res" where
  "get_value w p mem =
     (case w_objs w p of
        None \<Rightarrow> Inl Undefined_behaviour
      | Some ob \<Rightarrow>
          (case ob_mems ob mem of
             Some (MO_value m) \<Rightarrow> (case vm_value m of None \<Rightarrow> Inl Undefined_behaviour | Some v \<Rightarrow> Inr v)
           | Some (MO_tmp f v) \<Rightarrow> (case v of None \<Rightarrow> Inl Undefined_behaviour | Some v \<Rightarrow> Inr v)
           | _ \<Rightarrow> Inl Undefined_behaviour))"

definition get_flag :: "world \<Rightarrow> addr \<Rightarrow> string \<Rightarrow> bool res" where
  "get_flag w p mem =
     (case w_objs w p of
        None \<Rightarrow> Inl Undefined_behaviour
      | Some ob \<Rightarrow>
          (case ob_mems ob mem of
             Some (MO_value m) \<Rightarrow> Inr (vm_flag m)
           | Some (MO_tmp f v) \<Rightarrow> Inr f
           | _ \<Rightarrow> Inl Undefined_behaviour))"

definition copy_seqs :: "addr \<Rightarrow> 16 word list \<Rightarrow> (world, unit) sres" where
  "copy_seqs p r = modify_obj p (\<lambda>ob. ob\<lparr>ob_seqset := fold sset_insert r (ob_seqset ob)\<rparr>)"

text \<open>The loop of \<open>copy_refobj\<close> over the assigned members.\<close>

fun copy_values :: "class_decl \<Rightarrow> addr \<Rightarrow> addr \<Rightarrow> 16 word list \<Rightarrow> (world, unit) sres" where
  "copy_values c lp rp [] = returnS ()"
| "copy_values c lp rp (seq # seqs) = (\<lambda>w.
     case ys_at (get_yan_struct (w_reg w) c) seq of
       Inl e \<Rightarrow> (w, Inl e)
     | Inr info \<Rightarrow>
         (case mi_type info of
            YT_STRUCT \<Rightarrow> copy_values c lp rp seqs w
          | YT_LIST \<Rightarrow> copy_values c lp rp seqs w
          | YT_UNKNOWN \<Rightarrow> (w, Inl (Runtime_error ''unknown member type when copying the update object''))
          | _ \<Rightarrow>
              if mi_member info = None then (w, Inl Assert_failure)
              else
                (case get_value w rp (mi_name info) of
                   Inl e \<Rightarrow> (w, Inl e)
                 | Inr v \<Rightarrow>
                     bindS (member_set_value v lp (mi_name info)) (\<lambda>_. copy_values c lp rp seqs) w)))"

definition copy_refobj :: "class_decl \<Rightarrow> addr \<Rightarrow> update_cond \<Rightarrow> (world, update_cond) sres" where
  "copy_refobj c rp uc = with_obj rp (\<lambda>rco.
     let lp = uc_lco uc;
         uc' = uc\<lparr>rc_cys := Some c, uc_laddr := Some lp, rc_hash := ob_hashv rco, rc_params := ob_conds rco\<rparr>
     in if ob_seqset rco = [] then returnS uc'
        else bindS (copy_seqs lp (ob_seqset rco)) (\<lambda>_.
             bindS (copy_values c lp rp (ob_seqset rco)) (\<lambda>_. returnS uc')))"

definition seqs_of :: "world \<Rightarrow> addr \<Rightarrow> 16 word list res" where
  "seqs_of w p = (case w_objs w p of None \<Rightarrow> Inl Undefined_behaviour | Some ob \<Rightarrow> Inr (ob_seqset ob))"

definition uc_get_seqs :: "world \<Rightarrow> update_cond \<Rightarrow> 16 word list res" where
  "uc_get_seqs w uc = (case uc_laddr uc of None \<Rightarrow> Inl Undefined_behaviour | Some p \<Rightarrow> seqs_of w p)"

definition uc_hash_value :: "world \<Rightarrow> update_cond \<Rightarrow> string res" where
  "uc_hash_value w uc = bindE (seqs_of w (uc_lco uc)) (\<lambda>seqs.
     Inr (rc_hash_value w (read_cond.truncate uc) @ concat (map (\<lambda>s. string_of_nat (unat s)) seqs)))"

section \<open>JoinReadCond\<close>

record join_cond =
  jc_cys :: class_decl
  jc_equals :: "string list"

definition jc_append :: "class_decl \<Rightarrow> string list \<Rightarrow> join_cond" where
  "jc_append c equals = \<lparr>jc_cys = c, jc_equals = equals\<rparr>"

definition jc_get_obj_name :: "world \<Rightarrow> join_cond \<Rightarrow> string" where
  "jc_get_obj_name w jc = class_name w (jc_cys jc)"

definition jc_hash_value :: "world \<Rightarrow> join_cond \<Rightarrow> string" where
  "jc_hash_value w jc = jc_get_obj_name w jc @ concat (jc_equals jc)"

end
