(* ===== verification/Yan_RefOps.thy ===== *)
theory Yan_RefOps
  imports Yan_Conditions
begin

text \<open>
  The generic traversals of \<open>src/base/ref_ops.h\<close>: \<open>RefOps\<close>, \<open>ReadRefOps\<close>, \<open>WriteRefOps\<close> and the
  \<open>ComReadRef\<close>/\<open>ComWriteRef\<close> instances for back ends without list and struct members.  The three
  operation classes a back end passes as template arguments are the fields of \<open>read_ref\<close> and
  \<open>write_ref\<close>.  \<open>'o\<close> is the back end's context, \<open>'l\<close> and \<open>'t\<close> are the states of its list and struct
  operation objects between construction and destruction.

  \<open>handle_info\<close> recurses into struct and list members; the first argument bounds the depth (C++ has
  no bound but the stack).  \<open>YanListMember::size\<close> reads the size of a list at the start of the
  enclosing object, a place where no list lives; what that yields depends on the library's object
  layout and is the parameter \<open>raw_size\<close>.
\<close>

section \<open>Operands\<close>

text \<open>The template argument of \<open>append<T>\<close>/\<open>get<T>\<close>.\<close>

datatype tparam = T_val ctype | T_list ctype

record ('e, 'o, 'l, 't) read_ref =
  rr_throw :: "error \<Rightarrow> 'o \<Rightarrow> 'e"
  rr_mem :: "'o \<Rightarrow> string \<Rightarrow> tparam \<Rightarrow> cond_type \<Rightarrow> ops_type \<Rightarrow> param_value res \<Rightarrow> 'e + int \<times> 'o"
  rr_list :: "'o \<Rightarrow> string \<Rightarrow> 'e + 'l"
  rr_list_obj :: "'l \<Rightarrow> ('o \<Rightarrow> 'e + int \<times> 'o) \<Rightarrow> 'e + int \<times> 'l"
  rr_list_vals :: "'l \<Rightarrow> ctype \<Rightarrow> yan_val list \<Rightarrow> 'e + int \<times> 'l"
  rr_list_end :: "'l \<Rightarrow> 'o"
  rr_struct :: "'o \<Rightarrow> string \<Rightarrow> 'e + 't"
  rr_struct_obj :: "'t \<Rightarrow> ('o \<Rightarrow> 'e + int \<times> 'o) \<Rightarrow> 'e + int \<times> 't"
  rr_struct_end :: "'t \<Rightarrow> 'o"

text \<open>
  \<open>rr_throw\<close> is what an exception raised while the context is \<open>obj\<close> leaves behind: the bare error for
  contexts that are thrown away, the error with the context where the caller goes on using it.
\<close>

abbreviation in_ops :: "('e, 'o, 'l, 't) read_ref \<Rightarrow> 'o \<Rightarrow> 'a res \<Rightarrow> 'e + 'a" where
  "in_ops ops obj \<equiv> liftE (\<lambda>e. rr_throw ops e obj)"

definition struct_members :: "world \<Rightarrow> string \<Rightarrow> member_info list" where
  "struct_members w n = (case w_reg w n of None \<Rightarrow> [] | Some st \<Rightarrow> ys_members (cs_struct st))"

section \<open>ReadRefOps\<close>

text \<open>\<open>cond_ref\<close>: unpack the condition code and pass a lazily read operand on.\<close>

definition cond_ref ::
  "('e, 'o, 'l, 't) read_ref \<Rightarrow> 'o \<Rightarrow> string \<Rightarrow> param \<Rightarrow> 'e + int \<times> 'o" where
  "cond_ref ops obj name prm =
     (let condtype = get_mem_cond_type (param_cond prm); opstype = get_mem_ops_type (param_cond prm) in
      case YanType2Type (param_type prm) of
        None \<Rightarrow> Inl (rr_throw ops Assert_failure obj)
      | Some t \<Rightarrow>
          if opstype = OT_EQUAL_LIST then rr_mem ops obj name (T_list t) condtype opstype (param_get prm)
          else rr_mem ops obj name (T_val t) condtype opstype (param_get prm))"

definition member_ref ::
  "('e, 'o, 'l, 't) read_ref \<Rightarrow> world \<Rightarrow> 'o \<Rightarrow> addr \<Rightarrow> member_info \<Rightarrow> 'e + int \<times> 'o" where
  "member_ref ops w obj p info =
     (case mi_member info of
        None \<Rightarrow> Inl (rr_throw ops Assert_failure obj)
      | Some mt \<Rightarrow>
          bindE (in_ops ops obj (get_flag w p (mi_name info))) (\<lambda>flag.
            if \<not> flag then Inr (0, obj)
            else
              (case YanType2Type mt of
                 None \<Rightarrow> Inl (rr_throw ops Assert_failure obj)
               | Some t \<Rightarrow>
                   rr_mem ops obj (mi_get_name info) (T_val t) CT_AND OT_EQUAL
                     (bindE (get_value w p (mi_name info)) (\<lambda>v. Inr (PV v))))))"

definition list_values :: "world \<Rightarrow> addr \<Rightarrow> string \<Rightarrow> yan_val list res" where
  "list_values w p mem =
     (case w_objs w p of
        None \<Rightarrow> Inl Undefined_behaviour
      | Some ob \<Rightarrow>
          (case ob_mems ob mem of Some (MO_list m) \<Rightarrow> Inr (lm_items m) | _ \<Rightarrow> Inl Undefined_behaviour))"

definition list_objects :: "world \<Rightarrow> addr \<Rightarrow> string \<Rightarrow> addr list res" where
  "list_objects w p mem =
     (case w_objs w p of
        None \<Rightarrow> Inl Undefined_behaviour
      | Some ob \<Rightarrow>
          (case ob_mems ob mem of Some (MO_lstruct m) \<Rightarrow> Inr (sm_items m) | _ \<Rightarrow> Inl Undefined_behaviour))"

definition struct_object :: "world \<Rightarrow> addr \<Rightarrow> string \<Rightarrow> addr res" where
  "struct_object w p mem =
     (case w_objs w p of
        None \<Rightarrow> Inl Undefined_behaviour
      | Some ob \<Rightarrow>
          (case ob_mems ob mem of Some (MO_struct q) \<Rightarrow> Inr q | _ \<Rightarrow> Inl Undefined_behaviour))"

text \<open>
  \<open>list_ref\<close> and \<open>struct_ref\<close>, with the recursive call \<open>handle_info\<close> on an element as the argument
  \<open>self\<close> (a function of the context, the address and the member).
\<close>

definition list_ref ::
  "('o \<Rightarrow> addr \<Rightarrow> member_info \<Rightarrow> 'e + int \<times> 'o) \<Rightarrow> ('e, 'o, 'l, 't) read_ref \<Rightarrow> (addr \<Rightarrow> nat) \<Rightarrow>
   world \<Rightarrow> 'o \<Rightarrow> addr \<Rightarrow> member_info \<Rightarrow> 'e + int \<times> 'o" where
  "list_ref self ops raw_size w obj p info =
     (case mi_list_member info of
        None \<Rightarrow> Inl (rr_throw ops Assert_failure obj)
      | Some li \<Rightarrow>
          if raw_size p = 0 then Inr (0, obj)
          else
            bindE (rr_list ops obj (mi_get_name info)) (\<lambda>l.
            bindE
              (case li of
                 LI_struct n \<Rightarrow>
                   bindE (in_ops ops obj (list_objects w p (mi_name info))) (\<lambda>qs.
                   bindE
                     (loop_ret (\<lambda>l q. rr_list_obj ops l (\<lambda>obj. loop_ret (\<lambda>obj m. self obj q m) 0 obj (struct_members w n)))
                        0 l qs)
                     (\<lambda>(r, l). Inr (if r < 0 then r else 0, l)))
               | LI_basic YT_LIST \<Rightarrow> Inl (rr_throw ops (Runtime_error ''Lists within lists are prohibited'') obj)
               | LI_basic t \<Rightarrow>
                   (case YanType2Type t of
                      None \<Rightarrow> Inl (rr_throw ops Assert_failure obj)
                    | Some ty \<Rightarrow> bindE (in_ops ops obj (list_values w p (mi_name info))) (\<lambda>vs. rr_list_vals ops l ty vs)))
              (\<lambda>(r, l). Inr (r, rr_list_end ops l))))"

definition struct_ref ::
  "('o \<Rightarrow> addr \<Rightarrow> member_info \<Rightarrow> 'e + int \<times> 'o) \<Rightarrow> ('e, 'o, 'l, 't) read_ref \<Rightarrow>
   world \<Rightarrow> 'o \<Rightarrow> addr \<Rightarrow> member_info \<Rightarrow> 'e + int \<times> 'o" where
  "struct_ref self ops w obj p info =
     (case mi_struct_member info of
        None \<Rightarrow> Inl (rr_throw ops Assert_failure obj)
      | Some n \<Rightarrow>
          bindE (rr_struct ops obj (mi_get_name info)) (\<lambda>t.
          bindE (in_ops ops obj (struct_object w p (mi_name info))) (\<lambda>q.
          bindE (rr_struct_obj ops t (\<lambda>obj. loop_ret (\<lambda>obj m. self obj q m) 0 obj (struct_members w n)))
            (\<lambda>(r, t). Inr (r, rr_struct_end ops t)))))"

text \<open>\<open>handle_info\<close>: dispatch on the member's type.\<close>

fun handle_info ::
  "nat \<Rightarrow> ('e, 'o, 'l, 't) read_ref \<Rightarrow> (addr \<Rightarrow> nat) \<Rightarrow> world \<Rightarrow> 'o \<Rightarrow> addr \<Rightarrow> member_info \<Rightarrow> 'e + int \<times> 'o" where
  "handle_info 0 ops raw_size w obj p info = Inl (rr_throw ops Undefined_behaviour obj)"
| "handle_info (Suc n) ops raw_size w obj p info =
     (case mi_type info of
        YT_STRUCT \<Rightarrow> struct_ref (handle_info n ops raw_size w) ops w obj p info
      | YT_LIST \<Rightarrow> list_ref (handle_info n ops raw_size w) ops raw_size w obj p info
      | _ \<Rightarrow> member_ref ops w obj p info)"

text \<open>\<open>assign_value\<close> (behind \<open>append\<close>): every assigned member in ascending order; the codes that
  \<open>handle_info\<close> returns are dropped.\<close>

definition assign_value ::
  "nat \<Rightarrow> ('e, 'o, 'l, 't) read_ref \<Rightarrow> (addr \<Rightarrow> nat) \<Rightarrow> world \<Rightarrow> class_decl \<Rightarrow> addr \<Rightarrow> 'o \<Rightarrow> 'e + int \<times> 'o" where
  "assign_value n ops raw_size w c p obj =
     bindE (in_ops ops obj (seqs_of w p)) (\<lambda>seqs.
     bindE
       (loop_ignore
          (\<lambda>obj seq. bindE (in_ops ops obj (ys_at (get_yan_struct (w_reg w) c) seq)) (\<lambda>info. handle_info n ops raw_size w obj p info))
          obj seqs)
       (\<lambda>obj. Inr (0, obj)))"

definition no_update_values_error :: error where
  "no_update_values_error = Runtime_error
     ''please set the values you want to update when doing update operation''"

definition append_value ::
  "nat \<Rightarrow> ('e, 'o, 'l, 't) read_ref \<Rightarrow> (addr \<Rightarrow> nat) \<Rightarrow> world \<Rightarrow> 'o \<Rightarrow> update_cond \<Rightarrow> 'e + int \<times> 'o" where
  "append_value n ops raw_size w obj uc =
     (case (rc_cys uc, uc_laddr uc) of
        (Some c, Some p) \<Rightarrow>
          bindE (in_ops ops obj (uc_get_seqs w uc)) (\<lambda>seqs.
            if seqs = [] then Inl (rr_throw ops no_update_values_error obj)
            else
              bindE
                (loop_ignore
                   (\<lambda>obj seq. bindE (in_ops ops obj (ys_at (get_yan_struct (w_reg w) c) seq))
                      (\<lambda>info. handle_info n ops raw_size w obj p info)) obj seqs)
                (\<lambda>obj. Inr (0, obj)))
      | _ \<Rightarrow> Inl (rr_throw ops Undefined_behaviour obj))"

text \<open>\<open>append_cond\<close>: the conditions of a request, named through the member with the parameter's
  number.\<close>

definition append_cond_step ::
  "('e, 'o, 'l, 't) read_ref \<Rightarrow> yan_struct \<Rightarrow> 'o \<Rightarrow> param \<Rightarrow> 'e + int \<times> 'o" where
  "append_cond_step ops cys obj prm =
     bindE (in_ops ops obj (ys_at cys (param_seq prm))) (\<lambda>info. cond_ref ops obj (mi_get_name info) prm)"

definition append_cond ::
  "('e, 'o, 'l, 't) read_ref \<Rightarrow> world \<Rightarrow> 'o \<Rightarrow> read_cond \<Rightarrow> 'e + int \<times> 'o" where
  "append_cond ops w obj rc =
     (case rc_cys rc of
        None \<Rightarrow> Inl (rr_throw ops Undefined_behaviour obj)
      | Some c \<Rightarrow>
          bindE (in_ops ops obj (rc_param_list w rc)) (\<lambda>params.
            loop_ret (append_cond_step ops (get_yan_struct (w_reg w) c)) 0 obj
              (filter (\<lambda>prm. param_type prm \<noteq> YT_STRUCT \<and> param_type prm \<noteq> YT_LIST) params)))"

text \<open>\<open>append_refobj_cond\<close>: the conditions of an object, under the names recorded in them.\<close>

definition append_refobj_cond ::
  "('e, 'o, 'l, 't) read_ref \<Rightarrow> world \<Rightarrow> 'o \<Rightarrow> addr \<Rightarrow> 'e + int \<times> 'o" where
  "append_refobj_cond ops w obj p =
     (case w_objs w p of
        None \<Rightarrow> Inl (rr_throw ops Undefined_behaviour obj)
      | Some ob \<Rightarrow>
          (case ob_conds ob of
             None \<Rightarrow> Inl (rr_throw ops no_params_error obj)
           | Some l \<Rightarrow>
               (case w_plists w l of
                  None \<Rightarrow> Inl (rr_throw ops Undefined_behaviour obj)
                | Some params \<Rightarrow>
                    loop_ret (\<lambda>obj prm. cond_ref ops obj (param_name prm) prm) 0 obj
                      (filter (\<lambda>prm. param_type prm \<noteq> YT_STRUCT \<and> param_type prm \<noteq> YT_LIST) params))))"

text \<open>\<open>append_field\<close>: the members of a class, without values; \<open>f\<close> is the back end's field operation.\<close>

definition append_field ::
  "('o \<Rightarrow> string \<Rightarrow> yan_type \<Rightarrow> bool \<Rightarrow> int \<Rightarrow> 'e + int \<times> 'o) \<Rightarrow> world \<Rightarrow> class_decl \<Rightarrow> 'o \<Rightarrow> 'e + int \<times> 'o" where
  "append_field f w c obj =
     bindE
       (loop_ret (\<lambda>obj m. f obj (mi_get_name m) (mi_type m) (mi_can_be_null m) (mi_length m)) 0 obj
          (filter (\<lambda>m. mi_type m \<noteq> YT_STRUCT \<and> mi_type m \<noteq> YT_LIST) (class_members w c)))
       (\<lambda>(r, obj). Inr (if r < 0 then r else 0, obj))"

section \<open>ComReadRef\<close>

text \<open>Back ends of flat tables: the list and struct operation objects throw on construction.\<close>

definition com_read_ref ::
  "(error \<Rightarrow> 'o \<Rightarrow> 'e) \<Rightarrow>
   ('o \<Rightarrow> string \<Rightarrow> tparam \<Rightarrow> cond_type \<Rightarrow> ops_type \<Rightarrow> param_value res \<Rightarrow> 'e + int \<times> 'o) \<Rightarrow>
   ('e, 'o, 'o, 'o) read_ref" where
  "com_read_ref thr mem =
     \<lparr>rr_throw = thr,
      rr_mem = mem,
      rr_list = (\<lambda>obj name. Inl (thr (Runtime_error ''ComReadRef has no list member'') obj)),
      rr_list_obj = (\<lambda>l cb. Inl (thr (Runtime_error ''ComReadRef has no list member'') l)),
      rr_list_vals = (\<lambda>l t vs. Inl (thr (Runtime_error ''ComReadRef has no list member'') l)),
      rr_list_end = (\<lambda>l. l),
      rr_struct = (\<lambda>obj name. Inl (thr (Runtime_error ''ComReadRef has no struct member'') obj)),
      rr_struct_obj = (\<lambda>t cb. Inl (thr (Runtime_error ''ComReadRef has no struct member'') t)),
      rr_struct_end = (\<lambda>t. t)\<rparr>"

abbreviation text_ref ::
  "('o \<Rightarrow> string \<Rightarrow> tparam \<Rightarrow> cond_type \<Rightarrow> ops_type \<Rightarrow> param_value res \<Rightarrow> (int \<times> 'o) res) \<Rightarrow>
   (error, 'o, 'o, 'o) read_ref" where
  "text_ref \<equiv> com_read_ref (\<lambda>e _. e)"

lemma com_read_ref_simps [simp]: "rr_throw (com_read_ref thr mem) = thr" "rr_mem (com_read_ref thr mem) = mem"
  by (simp_all add: com_read_ref_def)

text \<open>No recursion happens for such a back end, so one level is enough.\<close>

lemma com_struct_ref:
  "struct_ref self (com_read_ref thr mem) w obj p info =
     Inl (thr (if mi_struct_member info = None then Assert_failure
               else Runtime_error ''ComReadRef has no struct member'') obj)"
  by (cases "mi_struct_member info") (simp_all add: struct_ref_def com_read_ref_def)

lemma com_list_ref:
  "list_ref self (com_read_ref thr mem) raw_size w obj p info =
     (if mi_list_member info = None then Inl (thr Assert_failure obj)
      else if raw_size p = 0 then Inr (0, obj)
      else Inl (thr (Runtime_error ''ComReadRef has no list member'') obj))"
  by (cases "mi_list_member info") (simp_all add: list_ref_def com_read_ref_def)

lemma com_handle_info:
  "handle_info (Suc n) (com_read_ref thr mem) raw_size w obj p info =
   handle_info 1 (com_read_ref thr mem) raw_size w obj p info"
  by (simp only: handle_info.simps One_nat_def com_struct_ref com_list_ref)

section \<open>WriteRefOps\<close>

text \<open>
  Writing a fetched row into an object.  \<open>wr_mem\<close> is \<open>MemRefOps::get<T>\<close>, which passes the fetched
  value to a callback; the operations on list and struct members are whole operations here.
\<close>

record 'o write_ref =
  wr_mem :: "'o \<Rightarrow> string \<Rightarrow> ctype \<Rightarrow> (yan_val \<Rightarrow> (world, int) sres) \<Rightarrow> (world, int \<times> 'o) sres"
  wr_list :: "'o \<Rightarrow> addr \<Rightarrow> member_info \<Rightarrow> (world, int \<times> 'o) sres"
  wr_struct :: "'o \<Rightarrow> addr \<Rightarrow> member_info \<Rightarrow> (world, int \<times> 'o) sres"

definition write_member_ref ::
  "'o write_ref \<Rightarrow> 'o \<Rightarrow> addr \<Rightarrow> member_info \<Rightarrow> (world, int \<times> 'o) sres" where
  "write_member_ref ops obj p info =
     (case mi_member info of
        None \<Rightarrow> throwS Assert_failure
      | Some mt \<Rightarrow>
          (case YanType2Type mt of
             None \<Rightarrow> throwS Assert_failure
           | Some t \<Rightarrow>
               wr_mem ops obj (mi_get_name info) t
                 (\<lambda>val. bindS (member_set_value val p (mi_name info)) (\<lambda>_. returnS 0))))"

definition write_handle_info ::
  "'o write_ref \<Rightarrow> 'o \<Rightarrow> addr \<Rightarrow> member_info \<Rightarrow> (world, int \<times> 'o) sres" where
  "write_handle_info ops obj p info =
     (case mi_type info of
        YT_STRUCT \<Rightarrow> wr_struct ops obj p info
      | YT_LIST \<Rightarrow> wr_list ops obj p info
      | _ \<Rightarrow> write_member_ref ops obj p info)"

fun write_members :: "'o write_ref \<Rightarrow> addr \<Rightarrow> 'o \<Rightarrow> member_info list \<Rightarrow> (world, 'o) sres" where
  "write_members ops p obj [] = returnS obj"
| "write_members ops p obj (m # ms) =
     bindS (write_handle_info ops obj p m) (\<lambda>(_, obj'). write_members ops p obj' ms)"

text \<open>\<open>set_value\<close> (behind \<open>get\<close>): every member of the class in declaration order, codes dropped.\<close>

definition set_value ::
  "'o write_ref \<Rightarrow> class_decl \<Rightarrow> addr \<Rightarrow> 'o \<Rightarrow> (world, int \<times> 'o) sres" where
  "set_value ops c p obj = (\<lambda>w.
     bindS (write_members ops p obj (class_members w c)) (\<lambda>obj'. returnS (0, obj')) w)"

definition com_write_ref ::
  "('o \<Rightarrow> string \<Rightarrow> ctype \<Rightarrow> (yan_val \<Rightarrow> (world, int) sres) \<Rightarrow> (world, int \<times> 'o) sres) \<Rightarrow> 'o write_ref" where
  "com_write_ref mem =
     \<lparr>wr_mem = mem,
      wr_list = (\<lambda>obj p info.
        if mi_list_member info = None then throwS Assert_failure
        else throwS (Runtime_error ''ComWriteRef has no list member'')),
      wr_struct = (\<lambda>obj p info.
        if mi_struct_member info = None then throwS Assert_failure
        else throwS (Runtime_error ''ComWriteRef has no struct member''))\<rparr>"

end
