(* ===== verification/Yan_Sql.thy ===== *)
theory Yan_Sql
  imports Yan_RefOps
begin

text \<open>
  The SQL text builders of \<open>src/sqlite/sqlite_readref.h\<close> and \<open>sqlite_readref.cpp\<close>: \<open>MakeTableSql\<close>,
  \<open>MakeInsertSql\<close>, \<open>MakeQuerySql\<close> (one table, union, join, copy), \<open>MakeUpdateSql\<close>, \<open>MakeDeleteSql\<close>.
  Each keeps a context with the text so far and "nothing appended yet" flags, which the traversals of
  \<open>Yan_RefOps\<close> thread through.
\<close>

abbreviation throw_text :: "string \<Rightarrow> 'a res" where
  "throw_text s \<equiv> Inl (Runtime_error s)"

section \<open>CREATE TABLE\<close>

record table_ctx =
  tc_fields :: string
  tc_first :: bool

definition table_ctx0 :: table_ctx where
  "table_ctx0 = \<lparr>tc_fields = '''', tc_first = True\<rparr>"

definition table_append :: "table_ctx \<Rightarrow> string \<Rightarrow> yan_type \<Rightarrow> bool \<Rightarrow> int \<Rightarrow> (int \<times> table_ctx) res" where
  "table_append ctx name type canbenull len =
     (let fields = tc_fields ctx @ (if tc_first ctx then '''' else '', '') @ name;
          finish = (\<lambda>t. Inr (0, ctx\<lparr>tc_first := False,
                              tc_fields := fields @ t @ (if \<not> canbenull then '' NOT NULL'' else '''')\<rparr>))
      in case type of
           YT_AUTO_INCREMENT \<Rightarrow>
             Inr (0, ctx\<lparr>tc_first := False, tc_fields := fields @ '' INTEGER PRIMARY_KEY AUTO_INCREMENT''\<rparr>)
         | YT_INT8 \<Rightarrow> finish '' INT''
         | YT_INT16 \<Rightarrow> finish '' INT''
         | YT_INT32 \<Rightarrow> finish '' INT''
         | YT_INT64 \<Rightarrow> finish '' INT''
         | YT_STRING \<Rightarrow>
             if len \<le> 0 then
               throw_text (''sqlite'' @ [CHR 0x27] @ ''s field length with char type should be large than '' @
                           string_of_int LEAST_TABLE_FIELD_CHAR_LENGTH)
             else finish ('' CHAR('' @ string_of_int len @ '')'')
         | YT_DATE \<Rightarrow> finish '' INT''
         | _ \<Rightarrow> throw_text (''unsupports the field type ['' @ get_yan_type_str type @ '']''))"

definition table_make :: "world \<Rightarrow> class_decl \<Rightarrow> string res" where
  "table_make w c =
     (let name = class_name w c in
      bindE (append_field table_append w c table_ctx0) (\<lambda>(ret, ctx).
        if ret < 0 then
          throw_text (''create sqlite sql for table ['' @ name @ ''] failed: '' @ string_of_int ret)
        else if tc_first ctx then
          throw_text (''sqlite has no field set when creating table sql ['' @ name @ '']'')
        else Inr (''CREATE TABLE IF NOT EXISTS '' @ name @ '' '' @ ''('' @ tc_fields ctx @ '') '')))"

section \<open>INSERT\<close>

record insert_ctx =
  ic_fields :: string
  ic_values :: string
  ic_first :: bool
  ic_onlyone :: bool

definition insert_ctx0 :: insert_ctx where
  "insert_ctx0 = \<lparr>ic_fields = '''', ic_values = '''', ic_first = True, ic_onlyone = True\<rparr>"

definition insert_reset :: "insert_ctx \<Rightarrow> insert_ctx" where
  "insert_reset ctx = ctx\<lparr>ic_values := '''', ic_first := True, ic_onlyone := False\<rparr>"

text \<open>\<open>std::to_string\<close> of a value, or the quoted text of a string.\<close>

fun sql_literal :: "yan_val \<Rightarrow> string" where
  "sql_literal (V_int8 x) = string_of_int (sint x)"
| "sql_literal (V_int16 x) = string_of_int (sint x)"
| "sql_literal (V_int32 x) = string_of_int (sint x)"
| "sql_literal (V_int64 x) = string_of_int (sint x)"
| "sql_literal (V_float x) = fp_to_string x"
| "sql_literal (V_double x) = fp_to_string x"
| "sql_literal (V_bool b) = (if b then ''1'' else ''0'')"
| "sql_literal (V_string s) = [CHR 0x27] @ s @ [CHR 0x27]"

text \<open>There is no \<open>append_value\<close> for a list operand; the code never instantiates it.\<close>

definition insert_append ::
  "insert_ctx \<Rightarrow> string \<Rightarrow> tparam \<Rightarrow> cond_type \<Rightarrow> ops_type \<Rightarrow> param_value res \<Rightarrow> (int \<times> insert_ctx) res" where
  "insert_append ctx name t condtype opstype cb =
     (if condtype \<noteq> CT_AND then Inr (-1, ctx)
      else
        (let ctx1 = (if \<not> ic_first ctx
                     then ctx\<lparr>ic_fields := ic_fields ctx @ (if ic_onlyone ctx then '', '' else ''''),
                              ic_values := ic_values ctx @ '', ''\<rparr>
                     else ctx\<lparr>ic_first := False\<rparr>);
             ctx2 = (if ic_onlyone ctx1 then ctx1\<lparr>ic_fields := ic_fields ctx1 @ name\<rparr> else ctx1)
         in bindE cb (\<lambda>pv.
              case pv of
                PL _ \<Rightarrow> Inl Undefined_behaviour
              | PV v \<Rightarrow> Inr (0, ctx2\<lparr>ic_values := ic_values ctx2 @ sql_literal v\<rparr>))))"

abbreviation insert_ops :: "(error, insert_ctx, insert_ctx, insert_ctx) read_ref" where
  "insert_ops \<equiv> text_ref insert_append"

definition insert_create :: "insert_ctx \<Rightarrow> string \<Rightarrow> string" where
  "insert_create ctx name =
     ''INSERT INTO '' @ name @ '' '' @ ''('' @ ic_fields ctx @ '') '' @ ''VALUES ('' @ ic_values ctx @ '')''"

definition insert_make ::
  "(addr \<Rightarrow> nat) \<Rightarrow> world \<Rightarrow> class_decl \<Rightarrow> addr \<Rightarrow> insert_ctx \<Rightarrow> (string \<times> insert_ctx) res" where
  "insert_make raw_size w c p ctx =
     (let name = class_name w c in
      bindE (assign_value 1 insert_ops raw_size w c p ctx) (\<lambda>(ret, ctx).
        if ret < 0 then
          throw_text (''sqlite append insert sql failed: ['' @ name @ ''] failed: '' @ string_of_int ret)
        else if ic_first ctx then throw_text ''sqlite has no field set when creating insert sql''
        else Inr (insert_create ctx name, ctx)))"

text \<open>The loop of the container overload, after the first row.\<close>

fun insert_more_rows ::
  "(addr \<Rightarrow> nat) \<Rightarrow> world \<Rightarrow> class_decl \<Rightarrow> addr list \<Rightarrow> string \<times> insert_ctx \<Rightarrow> (string \<times> insert_ctx) res" where
  "insert_more_rows raw_size w c [] (sql, ctx) = Inr (sql, ctx)"
| "insert_more_rows raw_size w c (p # ps) (sql, ctx) =
     bindE (assign_value 1 insert_ops raw_size w c p (insert_reset ctx)) (\<lambda>(ret, ctx).
       if ret < 0 then throw_text (''sqlite append insert list sql failed: '' @ string_of_int ret)
       else insert_more_rows raw_size w c ps (sql @ '', ('' @ ic_values ctx @ '')'', ctx))"

definition insert_make_rows ::
  "(addr \<Rightarrow> nat) \<Rightarrow> world \<Rightarrow> class_decl \<Rightarrow> addr list \<Rightarrow> insert_ctx \<Rightarrow> (string \<times> insert_ctx) res" where
  "insert_make_rows raw_size w c ps ctx =
     (case ps of
        [] \<Rightarrow> Inr ('''', ctx)
      | p # ps \<Rightarrow> bindE (insert_make raw_size w c p ctx) (insert_more_rows raw_size w c ps))"

section \<open>SELECT\<close>

record query_ctx =
  qc_sql :: string
  qc_ret_first :: bool
  qc_cond_first :: bool

definition query_ctx0 :: query_ctx where
  "query_ctx0 = \<lparr>qc_sql = '''', qc_ret_first = True, qc_cond_first = True\<rparr>"

definition add_sql :: "string \<Rightarrow> query_ctx \<Rightarrow> query_ctx" where
  "add_sql s ctx = ctx\<lparr>qc_sql := qc_sql ctx @ s\<rparr>"

text \<open>The three branches for \<open>AND\<close>, \<open>OR\<close> and \<open>NOT\<close> share their shape.\<close>

definition add_field_cond :: "string \<Rightarrow> string \<Rightarrow> query_ctx \<Rightarrow> (int \<times> query_ctx) res" where
  "add_field_cond sep s ctx =
     Inr (0, add_sql s (if qc_cond_first ctx then ctx\<lparr>qc_cond_first := False\<rparr> else add_sql sep ctx))"

definition first_cond_error :: error where
  "first_cond_error = Runtime_error
     (''sqlite'' @ [CHR 0x27] @ ''s first condition should be pointed to a field'')"

definition unknown_cond_error :: "cond_type \<Rightarrow> error" where
  "unknown_cond_error ct = Runtime_error
     (''unknown condition type: '' @ string_of_nat (unat (cond_type_code ct)))"

definition query_append_cond ::
  "query_ctx \<Rightarrow> string \<Rightarrow> cond_type \<Rightarrow> ops_type \<Rightarrow> (int \<times> query_ctx) res" where
  "query_append_cond ctx name condtype opstype =
     (case condtype of
        CT_AND \<Rightarrow> add_field_cond '' AND '' (name @ get_yan_ops_str opstype False @ ''?'') ctx
      | CT_OR \<Rightarrow> add_field_cond '' OR '' (name @ get_yan_ops_str opstype False @ ''?'') ctx
      | CT_NOT \<Rightarrow> add_field_cond '' AND '' (name @ get_yan_ops_str opstype True @ ''?'') ctx
      | CT_GROUP \<Rightarrow>
          if qc_cond_first ctx then Inl first_cond_error
          else Inr (0, add_sql ('' GROUP BY '' @ name) ctx)
      | CT_ORDER_ASC \<Rightarrow>
          if qc_cond_first ctx then Inl first_cond_error
          else Inr (0, add_sql ('' ORDER BY '' @ name) ctx)
      | CT_ORDER_DESC \<Rightarrow>
          if qc_cond_first ctx then Inl first_cond_error
          else Inr (0, add_sql ('' ORDER BY '' @ name @ '' DESC '') ctx)
      | _ \<Rightarrow> Inl (unknown_cond_error condtype))"

abbreviation query_ops :: "(error, query_ctx, query_ctx, query_ctx) read_ref" where
  "query_ops \<equiv> text_ref (\<lambda>ctx name t condtype opstype cb. query_append_cond ctx name condtype opstype)"

text \<open>The two callbacks that write the list of returned columns.\<close>

definition ret_column :: "query_ctx \<Rightarrow> string \<Rightarrow> string \<Rightarrow> (int \<times> query_ctx) res" where
  "ret_column ctx table name =
     (let ctx1 = (if \<not> qc_ret_first ctx then add_sql '', '' ctx else ctx\<lparr>qc_ret_first := False\<rparr>)
      in Inr (0, add_sql ((if table \<noteq> '''' then table @ ''.'' else '''') @ name) ctx1))"

definition ret_column_or_count :: "query_ctx \<Rightarrow> string \<Rightarrow> string \<Rightarrow> (int \<times> query_ctx) res" where
  "ret_column_or_count ctx table name =
     (if qc_ret_first ctx \<and> table = COUNT_FIELD
      then Inr (0, add_sql (''COUNT('' @ name @ '')'') (ctx\<lparr>qc_ret_first := False\<rparr>))
      else ret_column ctx table name)"

definition code_error :: "string \<Rightarrow> int \<Rightarrow> error" where
  "code_error s ret = Runtime_error (s @ string_of_int ret)"

text \<open>\<open>make(const ReadCond*)\<close>; the text is appended to what the context holds.\<close>

definition query_where :: "world \<Rightarrow> string \<Rightarrow> read_cond \<Rightarrow> query_ctx \<Rightarrow> query_ctx res" where
  "query_where w err rc ctx =
     bindE (append_cond query_ops w ctx rc) (\<lambda>(ret, ctx).
       if ret < 0 then Inl (code_error err ret) else Inr ctx)"

definition query_make :: "read_cond \<Rightarrow> query_ctx \<Rightarrow> (world, query_ctx) sres" where
  "query_make rc ctx0 =
     (let ctx1 = add_sql ''SELECT '' ctx0 in
      bindS
        (if ret_equal_to_cond (rc_ret rc) (rc_cys rc) then returnS (0, add_sql ''*'' ctx1)
         else get_read_members rc ret_column_or_count ctx1)
        (\<lambda>(ret, ctx) w. (w,
           if ret < 0 then
             Inl (code_error (''sqlite get return object'' @ [CHR 0x27] @ ''s members for query sql failed: '') ret)
           else
             bindE (rc_get_obj_name w rc) (\<lambda>name.
               let ctx = add_sql ('' FROM '' @ name) ctx in
               if \<not> has_cond rc then Inr ctx
               else query_where w ''sqlite append condition for query sql failed: '' rc
                      (add_sql '' WHERE '' ctx)))))"

fun union_loop :: "bool \<Rightarrow> read_cond list \<Rightarrow> query_ctx \<Rightarrow> (world, query_ctx) sres" where
  "union_loop first [] ctx = returnS ctx"
| "union_loop first (rc # rcs) ctx =
     (let ctx1 = (if first then ctx else add_sql '' UNION '' ctx) in
      bindS (query_make rc (ctx1\<lparr>qc_ret_first := True, qc_cond_first := True\<rparr>))
        (\<lambda>ctx. union_loop False rcs ctx))"

definition union_make :: "read_cond list \<Rightarrow> query_ctx \<Rightarrow> (world, query_ctx) sres" where
  "union_make conds ctx =
     (if conds = [] then throwS (Runtime_error ''no condition for union read'')
      else union_loop True conds ctx)"

text \<open>The conditions of a join or copy share one context, so they continue each other's text.\<close>

definition where_all :: "world \<Rightarrow> read_cond list \<Rightarrow> query_ctx \<Rightarrow> query_ctx res" where
  "where_all w conds ctx =
     foldE (\<lambda>ctx rc. query_where w ''sqlite append condition for query sql failed: '' rc ctx) ctx conds"

definition join_clause :: "world \<Rightarrow> bool \<Rightarrow> join_cond \<Rightarrow> string" where
  "join_clause w first jc =
     (if first then '' FROM '' @ jc_get_obj_name w jc
      else '' LEFT JOIN '' @ jc_get_obj_name w jc @ '' ON '') @
     emit (\<lambda>_. '' AND '') (\<lambda>e. e) True (jc_equals jc)"

fun join_clauses :: "world \<Rightarrow> bool \<Rightarrow> join_cond list \<Rightarrow> string" where
  "join_clauses w first [] = ''''"
| "join_clauses w first (jc # jcs) = join_clause w first jc @ join_clauses w False jcs"

definition left_join :: "world \<Rightarrow> join_cond list \<Rightarrow> read_cond list \<Rightarrow> query_ctx \<Rightarrow> query_ctx res" where
  "left_join w equals conds ctx =
     (let ctx1 = add_sql (join_clauses w True equals) ctx;
          ctx2 = (if conds \<noteq> [] then add_sql '' WHERE '' ctx1 else ctx1)
      in where_all w conds ctx2)"

definition join_make ::
  "read_cond \<Rightarrow> join_cond list \<Rightarrow> read_cond list \<Rightarrow> query_ctx \<Rightarrow> (world, query_ctx) sres" where
  "join_make retcond equals conds ctx =
     (if equals = [] then throwS (Runtime_error ''no condition for join read'')
      else
        bindS (get_read_members retcond ret_column (add_sql ''SELECT '' ctx)) (\<lambda>(ret, ctx) w. (w,
          if ret < 0 then
            Inl (code_error (''sqlite get return object'' @ [CHR 0x27] @ ''s members for join read sql failed: '') ret)
          else left_join w equals conds ctx)))"

definition copy_make ::
  "join_cond list \<Rightarrow> read_cond \<Rightarrow> read_cond list \<Rightarrow> query_ctx \<Rightarrow> (world, query_ctx) sres" where
  "copy_make froms column conds ctx =
     (case froms of
        [from] \<Rightarrow> (\<lambda>w0.
          case rc_get_obj_name w0 column of
            Inl e \<Rightarrow> (w0, Inl e)
          | Inr to \<Rightarrow>
              bindS (get_read_members column ret_column ctx) (\<lambda>(ret, ctx) w. (w,
                if ret < 0 then Inl (code_error ''sqlite get column members for copy sql failed: '' ret)
                else
                  (let ctx1 = ctx\<lparr>qc_sql := ''INSERT INTO '' @ to @ '' ('' @ qc_sql ctx @ '') SELECT '' @
                                qc_sql ctx @ '' FROM '' @ jc_get_obj_name w from\<rparr> in
                   if conds = [] then Inr ctx1 else where_all w conds (add_sql '' WHERE '' ctx1)))) w0)
      | _ \<Rightarrow> throwS (Runtime_error ''unknow copy from table''))"

section \<open>UPDATE and DELETE\<close>

record field_ctx =
  fc_fields :: string
  fc_first :: bool

definition field_ctx0 :: field_ctx where
  "field_ctx0 = \<lparr>fc_fields = '''', fc_first = True\<rparr>"

definition field_append ::
  "field_ctx \<Rightarrow> string \<Rightarrow> tparam \<Rightarrow> cond_type \<Rightarrow> ops_type \<Rightarrow> param_value res \<Rightarrow> (int \<times> field_ctx) res" where
  "field_append ctx name t condtype opstype cb =
     Inr (0, ctx\<lparr>fc_fields := fc_fields ctx @ (if fc_first ctx then '''' else '', '') @ name @ '' = ?'',
                 fc_first := False\<rparr>)"

abbreviation field_ops :: "(error, field_ctx, field_ctx, field_ctx) read_ref" where
  "field_ops \<equiv> text_ref field_append"

definition update_make :: "(addr \<Rightarrow> nat) \<Rightarrow> world \<Rightarrow> update_cond \<Rightarrow> string res" where
  "update_make raw_size w uc =
     bindE (rc_get_obj_name w (read_cond.truncate uc)) (\<lambda>name.
     bindE (append_value 1 field_ops raw_size w
              (field_ctx0\<lparr>fc_fields := ''UPDATE '' @ name @ '' SET ''\<rparr>) uc) (\<lambda>(ret, fctx).
       if ret < 0 then throw_text ''invalid updating value when doing update operation''
       else if \<not> has_cond (read_cond.truncate uc) then Inr (fc_fields fctx)
       else
         bindE (query_where w ''sqlite append condition for update sql failed: '' (read_cond.truncate uc)
                  (query_ctx0\<lparr>qc_sql := fc_fields fctx @ '' WHERE ''\<rparr>))
           (\<lambda>ctx. Inr (qc_sql ctx))))"

definition delete_make :: "world \<Rightarrow> read_cond \<Rightarrow> string res" where
  "delete_make w rc =
     bindE (rc_get_obj_name w rc) (\<lambda>name.
       if \<not> has_cond rc then Inr (''DELETE FROM '' @ name)
       else
         bindE (query_where w ''sqlite append condition for delete sql failed: '' rc
                  (query_ctx0\<lparr>qc_sql := ''DELETE FROM '' @ name @ '' WHERE ''\<rparr>))
           (\<lambda>ctx. Inr (qc_sql ctx)))"

end
