(* ===== verification/Yan_Sql_Text.thy ===== *)
theory Yan_Sql_Text
  imports Yan_Sql
begin

text \<open>
  What the SQL builders write: each builder is an instance of the prelude's contract \<open>sep_builder\<close>, from
  which the whole text follows; the properties give it for every request on well-formed objects, relate
  columns to values and rows, and state where the text is not what its caller relies on.
\<close>

section \<open>The builders as instances of the contract\<close>

subsection \<open>Columns of a table\<close>

definition table_step :: "table_ctx \<Rightarrow> member_info \<Rightarrow> (int \<times> table_ctx) res" where
  "table_step ctx m = table_append ctx (mi_get_name m) (mi_type m) (mi_can_be_null m) (mi_length m)"

definition null_text :: "member_info \<Rightarrow> string" where
  "null_text m = (if mi_can_be_null m then '''' else '' NOT NULL'')"

text \<open>The column definition a member stands for, if its type has one.\<close>

definition column_def :: "member_info \<Rightarrow> string option" where
  "column_def m =
     (if mi_type m = YT_AUTO_INCREMENT then Some (mi_get_name m @ '' INTEGER PRIMARY_KEY AUTO_INCREMENT'')
      else if mi_type m \<in> {YT_INT8, YT_INT16, YT_INT32, YT_INT64, YT_DATE}
      then Some (mi_get_name m @ '' INT'' @ null_text m)
      else if mi_type m = YT_STRING \<and> 0 < mi_length m
      then Some (mi_get_name m @ '' CHAR('' @ string_of_int (mi_length m) @ '')'' @ null_text m)
      else None)"

definition column_error :: "member_info \<Rightarrow> error" where
  "column_error m =
     (if mi_type m = YT_STRING
      then Runtime_error (''sqlite'' @ [CHR 0x27] @ ''s field length with char type should be large than 32'')
      else Runtime_error (''unsupports the field type ['' @ get_yan_type_str (mi_type m) @ '']''))"

lemma string_of_int_32 [simp]: "string_of_int LEAST_TABLE_FIELD_CHAR_LENGTH = ''32''"
  by (simp add: string_of_int_def LEAST_TABLE_FIELD_CHAR_LENGTH_def string_of_nat.simps)

interpretation table_cols: sep_builder tc_first tc_fields table_step "\<lambda>_. '', ''" "\<lambda>m. the (column_def m)"
    "\<lambda>_ m. column_def m \<noteq> None" column_error
  by unfold_locales
    (auto simp: table_step_def table_append_def column_def_def column_error_def null_text_def Let_def
       split: yan_type.splits if_splits)

subsection \<open>Conditions\<close>

type_synonym cond_item = "string \<times> cond_type \<times> ops_type"

fun query_step :: "query_ctx \<Rightarrow> cond_item \<Rightarrow> (int \<times> query_ctx) res" where
  "query_step ctx (name, ct, ot) = query_append_cond ctx name ct ot"

definition field_cond :: "cond_type \<Rightarrow> bool" where
  "field_cond ct \<longleftrightarrow> ct \<in> {CT_AND, CT_OR, CT_NOT}"

definition order_cond :: "cond_type \<Rightarrow> bool" where
  "order_cond ct \<longleftrightarrow> ct \<in> {CT_GROUP, CT_ORDER_ASC, CT_ORDER_DESC}"

fun cond_sep :: "cond_item \<Rightarrow> string" where
  "cond_sep (name, ct, ot) = (if ct = CT_OR then '' OR '' else if field_cond ct then '' AND '' else '''')"

fun cond_text :: "cond_item \<Rightarrow> string" where
  "cond_text (name, ct, ot) =
     (if field_cond ct then name @ get_yan_ops_str ot (ct = CT_NOT) @ ''?''
      else if ct = CT_GROUP then '' GROUP BY '' @ name
      else if ct = CT_ORDER_ASC then '' ORDER BY '' @ name
      else '' ORDER BY '' @ name @ '' DESC '')"

fun cond_ok :: "bool \<Rightarrow> cond_item \<Rightarrow> bool" where
  "cond_ok first (name, ct, ot) \<longleftrightarrow> field_cond ct \<or> (\<not> first \<and> order_cond ct)"

fun cond_err :: "cond_item \<Rightarrow> error" where
  "cond_err (name, ct, ot) = (if order_cond ct then first_cond_error else unknown_cond_error ct)"

interpretation conds: sep_builder qc_cond_first qc_sql query_step cond_sep cond_text cond_ok cond_err
proof
  fix s :: query_ctx and i :: cond_item
  obtain name ct ot where i: "i = (name, ct, ot)" by (cases i)
  show "cond_ok (qc_cond_first s) i \<Longrightarrow> \<exists>s'. query_step s i = Inr (0, s') \<and> \<not> qc_cond_first s' \<and>
      qc_sql s' = qc_sql s @ (if qc_cond_first s then '''' else cond_sep i) @ cond_text i"
    by (cases ct) (auto simp: i query_append_cond_def add_field_cond_def add_sql_def field_cond_def order_cond_def)
  show "\<not> cond_ok (qc_cond_first s) i \<Longrightarrow> query_step s i = Inl (cond_err i)"
    by (cases ct) (auto simp: i query_append_cond_def field_cond_def order_cond_def)
qed

subsection \<open>Rows and assigned fields\<close>

type_synonym row_item = "string \<times> yan_val"

text \<open>An insert step; \<open>b\<close> is the flag \<open>onlyone_\<close>, which no step changes.\<close>

definition insert_step :: "insert_ctx \<Rightarrow> row_item \<Rightarrow> (int \<times> insert_ctx) res" where
  "insert_step ctx i =
     insert_append ctx (fst i) (T_val (ctype_of (snd i))) CT_AND OT_EQUAL (Inr (PV (snd i)))"

interpretation row_values: sep_builder ic_first ic_values insert_step "\<lambda>_. '', ''" "\<lambda>i. sql_literal (snd i)"
    "\<lambda>_ _. True" "\<lambda>_. Undefined_behaviour"
  by unfold_locales (auto simp: insert_step_def insert_append_def Let_def)

interpretation row_fields: sep_builder ic_first ic_fields "\<lambda>ctx. insert_step (ctx\<lparr>ic_onlyone := b\<rparr>)"
    "\<lambda>_. if b then '', '' else ''''" "\<lambda>i. if b then fst i else ''''" "\<lambda>_ _. True" "\<lambda>_. Undefined_behaviour"
  for b
  by unfold_locales (auto simp: insert_step_def insert_append_def Let_def)

definition field_step :: "field_ctx \<Rightarrow> row_item \<Rightarrow> (int \<times> field_ctx) res" where
  "field_step ctx i =
     field_append ctx (fst i) (T_val (ctype_of (snd i))) CT_AND OT_EQUAL (Inr (PV (snd i)))"

interpretation set_fields: sep_builder fc_first fc_fields field_step "\<lambda>_. '', ''" "\<lambda>i. fst i @ '' = ?''"
    "\<lambda>_ _. True" "\<lambda>_. Undefined_behaviour"
  by unfold_locales (auto simp: field_step_def field_append_def)

subsection \<open>Returned columns\<close>

fun column_step :: "query_ctx \<Rightarrow> string \<times> string \<Rightarrow> (int \<times> query_ctx) res" where
  "column_step ctx (table, name) = ret_column ctx table name"

fun column_text :: "string \<times> string \<Rightarrow> string" where
  "column_text (table, name) = (if table \<noteq> '''' then table @ ''.'' else '''') @ name"

interpretation ret_columns: sep_builder qc_ret_first qc_sql column_step "\<lambda>_. '', ''" column_text
    "\<lambda>_ _. True" "\<lambda>_. Undefined_behaviour"
  by unfold_locales (auto simp: ret_column_def add_sql_def Let_def)

section \<open>CREATE TABLE\<close>

lemma class_members_ready: "class_ready (w_reg w) c \<Longrightarrow> class_members w c = map decl_info (cd_members c)"
  by (simp add: class_ready_def class_members_def)

definition columns_of :: "class_decl \<Rightarrow> member_info list" where
  "columns_of c =
     filter (\<lambda>m. mi_type m \<noteq> YT_STRUCT \<and> mi_type m \<noteq> YT_LIST) (map decl_info (cd_members c))"

lemma append_field_table:
  "class_ready (w_reg w) c \<Longrightarrow>
    append_field table_append w c ctx =
      bindE (loop_ret table_step 0 ctx (columns_of c)) (\<lambda>(r, ctx). Inr (if r < 0 then r else 0, ctx))"
  by (simp add: append_field_def class_members_ready columns_of_def table_step_def [abs_def])

lemma all_ok_const: "all_ok (\<lambda>_ i. P i) f is \<longleftrightarrow> (\<forall>i \<in> set is. P i)"
  by (induction "is" arbitrary: f) auto

lemma table_make_text_run:
  assumes "class_ready (w_reg w) c"
  shows "(columns_of c \<noteq> [] \<longrightarrow> (\<forall>m \<in> set (columns_of c). column_def m \<noteq> None) \<longrightarrow>
      table_make w c = Inr (''CREATE TABLE IF NOT EXISTS '' @ class_name w c @ '' ('' @
        join_with '', '' (map (\<lambda>m. the (column_def m)) (columns_of c)) @ '') '')) \<and>
    ((\<exists>m \<in> set (columns_of c). column_def m = None) \<longrightarrow>
      (\<exists>m \<in> set (columns_of c). column_def m = None \<and> table_make w c = Inl (column_error m))) \<and>
    (columns_of c = [] \<longrightarrow> table_make w c =
      throw_text (''sqlite has no field set when creating table sql ['' @ class_name w c @ '']''))"
proof (intro conjI impI)
  note app = append_field_table [OF assms]
  have first: "tc_first table_ctx0" "tc_fields table_ctx0 = ''''" by (simp_all add: table_ctx0_def)
  {
    assume ne: "columns_of c \<noteq> []" and ok: "\<forall>m \<in> set (columns_of c). column_def m \<noteq> None"
    from ok have "all_ok (\<lambda>_ m. column_def m \<noteq> None) (tc_first table_ctx0) (columns_of c)"
      by (simp only: all_ok_const)
    from table_cols.loop_ret_ok [OF this] ne show "table_make w c = Inr (''CREATE TABLE IF NOT EXISTS '' @
        class_name w c @ '' ('' @ join_with '', '' (map (\<lambda>m. the (column_def m)) (columns_of c)) @ '') '')"
      by (auto simp: table_make_def app first emit_uniform)
  next
    assume "\<exists>m \<in> set (columns_of c). column_def m = None"
    then have "\<not> all_ok (\<lambda>_ m. column_def m \<noteq> None) (tc_first table_ctx0) (columns_of c)"
      by (simp only: all_ok_const) blast
    from table_cols.loop_ret_err [OF this]
    show "\<exists>m \<in> set (columns_of c). column_def m = None \<and> table_make w c = Inl (column_error m)"
      by (auto simp: table_make_def app)
  next
    assume "columns_of c = []"
    then show "table_make w c =
        throw_text (''sqlite has no field set when creating table sql ['' @ class_name w c @ '']'')"
      by (simp add: table_make_def app first)
  }
qed

text \<open>
  The \<open>CREATE TABLE\<close> text of a registered class lists one column definition per member that is no
  struct and no list, in declaration order and separated by commas; the builder throws for a member
  whose type the back end does not know (or a string without a positive length) and for a class
  without columns, and in no other case.
\<close>

theorem table_make_text:
  assumes "class_ready (w_reg w) c"
  shows "(columns_of c \<noteq> [] \<longrightarrow> (\<forall>m \<in> set (columns_of c). column_def m \<noteq> None) \<longrightarrow>
      table_make w c = Inr (''CREATE TABLE IF NOT EXISTS '' @ class_name w c @ '' ('' @
        join_with '', '' (map (\<lambda>m. the (column_def m)) (columns_of c)) @ '') '')) \<and>
    ((\<exists>m \<in> set (columns_of c). column_def m = None) \<longrightarrow>
      (\<exists>m \<in> set (columns_of c). column_def m = None \<and> table_make w c = Inl (column_error m))) \<and>
    (columns_of c = [] \<longrightarrow> table_make w c =
      throw_text (''sqlite has no field set when creating table sql ['' @ class_name w c @ '']''))"
  using assms by (rule table_make_text_run)

section \<open>Conditions\<close>

text \<open>What a condition contributes, given the members of the class its number refers to.\<close>

definition cond_item_of :: "member_info list \<Rightarrow> param \<Rightarrow> cond_item" where
  "cond_item_of ms prm =
     (mi_get_name (ms ! unat (param_seq prm)), get_mem_cond_type (param_cond prm), get_mem_ops_type (param_cond prm))"

definition where_text :: "member_info list \<Rightarrow> param list \<Rightarrow> string" where
  "where_text ms ps = emit cond_sep cond_text True (map (cond_item_of ms) ps)"

text \<open>A request whose conditions were recorded on an object of the (registered) class \<open>c\<close>.\<close>

definition conds_of :: "world \<Rightarrow> read_cond \<Rightarrow> class_decl \<Rightarrow> param list \<Rightarrow> bool" where
  "conds_of w rc c ps \<longleftrightarrow>
     class_ready (w_reg w) c \<and> rc_cys rc = Some c \<and> rc_param_list w rc = Inr ps \<and>
     (\<forall>prm \<in> set ps. param_of_class c prm)"

definition first_is_field :: "param list \<Rightarrow> bool" where
  "first_is_field ps \<longleftrightarrow> ps \<noteq> [] \<and> field_cond (get_mem_cond_type (param_cond (hd ps)))"

lemma param_of_class_facts:
  assumes "param_of_class c prm" and "length (cd_members c) \<le> 65536"
  shows "unat (param_seq prm) < length (cd_members c)"
    and "\<exists>t. YanType2Type (param_type prm) = Some t \<and> payload_ok (param_type prm) (get_mem_ops_type (param_cond prm)) (param_val prm)"
    and "param_type prm \<noteq> YT_STRUCT" and "param_type prm \<noteq> YT_LIST"
    and "field_cond (get_mem_cond_type (param_cond prm)) \<or> order_cond (get_mem_cond_type (param_cond prm))"
proof -
  from assms(1) obtain i where "i < length (cd_members c)" "param_seq prm = of_nat i"
    unfolding param_of_class_def by blast
  with assms(2) show "unat (param_seq prm) < length (cd_members c)" by (simp add: unat_of_nat16)
  from assms(1) have pay: "payload_ok (param_type prm) (get_mem_ops_type (param_cond prm)) (param_val prm)"
    by (simp add: param_of_class_def)
  then show "\<exists>t. YanType2Type (param_type prm) = Some t \<and> payload_ok (param_type prm) (get_mem_ops_type (param_cond prm)) (param_val prm)"
    by (cases "param_val prm") (auto split: option.splits)
  from pay show "param_type prm \<noteq> YT_STRUCT" "param_type prm \<noteq> YT_LIST"
    by (cases "param_val prm"; force)+
  from assms(1) show "field_cond (get_mem_cond_type (param_cond prm)) \<or> order_cond (get_mem_cond_type (param_cond prm))"
    by (auto simp: param_of_class_def valid_cond_def field_cond_def order_cond_def)
qed

text \<open>The traversal of a request's conditions, for any back end.\<close>

lemma append_cond_items:
  assumes "conds_of w rc c ps"
  shows "append_cond ops w ctx rc =
    loop_ret (\<lambda>ctx prm. cond_ref ops ctx (mi_get_name (class_members w c ! unat (param_seq prm))) prm) 0 ctx ps"
proof -
  have cr: "class_ready (w_reg w) c" and rc: "rc_cys rc = Some c" "rc_param_list w rc = Inr ps"
    and ps: "\<forall>prm \<in> set ps. param_of_class c prm"
    using assms by (auto simp: conds_of_def)
  have len: "length (cd_members c) \<le> 65536" using cr by (simp add: class_ready_def)
  have f: "filter (\<lambda>prm. param_type prm \<noteq> YT_STRUCT \<and> param_type prm \<noteq> YT_LIST) ps = ps"
    using ps param_of_class_facts(3,4) [OF _ len] by (simp add: filter_id_conv)
  have at: "ys_at (get_yan_struct (w_reg w) c) (param_seq prm) = Inr (class_members w c ! unat (param_seq prm))"
    if "prm \<in> set ps" for prm
    using ps that param_of_class_facts(1) [OF _ len] class_members_ready [OF cr]
    by (simp add: ys_at_def class_members_def)
  show ?thesis
    by (simp add: append_cond_def rc f)
      (rule loop_ret_cong, simp add: append_cond_step_def at)
qed

lemma append_cond_query:
  assumes "conds_of w rc c ps"
  shows "append_cond query_ops w ctx rc =
    loop_ret query_step 0 ctx (map (cond_item_of (class_members w c)) ps)"
proof -
  have len: "length (cd_members c) \<le> 65536" using assms by (simp add: conds_of_def class_ready_def)
  have "cond_ref query_ops ctx name prm =
      query_append_cond ctx name (get_mem_cond_type (param_cond prm)) (get_mem_ops_type (param_cond prm))"
    if "prm \<in> set ps" for prm ctx name
    using assms that param_of_class_facts(2) [OF _ len]
    by (force simp: conds_of_def cond_ref_def com_read_ref_def Let_def)
  then show ?thesis
    unfolding append_cond_items [OF assms] loop_ret_map
    by (intro loop_ret_cong) (simp add: cond_item_of_def)
qed

lemma all_ok_conds:
  assumes "conds_of w rc c ps"
  shows "all_ok cond_ok first (map (cond_item_of ms) ps) \<longleftrightarrow> \<not> first \<or> ps = [] \<or> first_is_field ps"
proof -
  have len: "length (cd_members c) \<le> 65536" using assms by (simp add: conds_of_def class_ready_def)
  have fo: "field_cond (get_mem_cond_type (param_cond prm)) \<or> order_cond (get_mem_cond_type (param_cond prm))"
    if "prm \<in> set ps" for prm
    using assms that param_of_class_facts(5) [OF _ len] by (simp add: conds_of_def)
  have rest: "all_ok cond_ok False (map (cond_item_of ms) qs)" if "set qs \<subseteq> set ps" for qs
    using that by (induction qs) (auto simp: cond_item_of_def dest: fo)
  show ?thesis
  proof (cases ps)
    case (Cons prm qs)
    have "all_ok cond_ok False (map (cond_item_of ms) qs)" by (rule rest) (auto simp: Cons)
    with fo [of prm] show ?thesis by (auto simp: Cons cond_item_of_def first_is_field_def)
  qed simp
qed

lemma cond_err_conds:
  assumes "conds_of w rc c ps" and "i \<in> set (map (cond_item_of ms) ps)" and "\<not> cond_ok f i"
  shows "cond_err i = first_cond_error"
proof -
  have len: "length (cd_members c) \<le> 65536" using assms(1) by (simp add: conds_of_def class_ready_def)
  from assms(2) obtain prm where "prm \<in> set ps" "i = cond_item_of ms prm" by auto
  with assms(1,3) param_of_class_facts(5) [OF _ len, of prm] show ?thesis
    by (auto simp: conds_of_def cond_item_of_def)
qed

lemma query_where_ok:
  assumes "conds_of w rc c ps" and "\<not> qc_cond_first ctx \<or> ps = [] \<or> first_is_field ps"
  shows "\<exists>ctx'. query_where w err rc ctx = Inr ctx' \<and> (qc_cond_first ctx' \<longleftrightarrow> qc_cond_first ctx \<and> ps = []) \<and>
    qc_sql ctx' = qc_sql ctx @
      emit cond_sep cond_text (qc_cond_first ctx) (map (cond_item_of (class_members w c)) ps)"
  using conds.loop_ret_ok [of ctx "map (cond_item_of (class_members w c)) ps"] assms(2)
    all_ok_conds [OF assms(1), of "qc_cond_first ctx" "class_members w c"]
  by (auto simp: query_where_def append_cond_query [OF assms(1)])

lemma query_where_throws:
  assumes "conds_of w rc c ps" and "qc_cond_first ctx" and "ps \<noteq> []" and "\<not> first_is_field ps"
  shows "query_where w err rc ctx = Inl first_cond_error"
proof -
  have "\<not> all_ok cond_ok (qc_cond_first ctx) (map (cond_item_of (class_members w c)) ps)"
    using all_ok_conds [OF assms(1)] assms(2-4) by simp
  from conds.loop_ret_err [OF this] obtain i f where
    i: "i \<in> set (map (cond_item_of (class_members w c)) ps)" "\<not> cond_ok f i"
    and run: "loop_ret query_step 0 ctx (map (cond_item_of (class_members w c)) ps) = Inl (cond_err i)"
    by blast
  from cond_err_conds [OF assms(1) i] run show ?thesis
    by (simp add: query_where_def append_cond_query [OF assms(1)])
qed

section \<open>SELECT\<close>

text \<open>The returned columns, and the requests whose text the properties describe.\<close>

definition column_of :: "world \<Rightarrow> member_info \<Rightarrow> string \<times> string" where
  "column_of w m = (from_name w m, mi_get_name m)"

definition ret_columns_text :: "world \<Rightarrow> read_cond \<Rightarrow> string" where
  "ret_columns_text w rc =
     (case rc_ret rc of
        Ret_class r \<Rightarrow>
          if ret_equal_to_cond (Ret_class r) (rc_cys rc) then ''*''
          else join_with '', '' (map (\<lambda>m. column_text (column_of w m)) (class_members w r))
      | Ret_int64 \<Rightarrow>
          (case find (\<lambda>m. mi_type m \<noteq> YT_AUTO_INCREMENT) (class_members w (the (rc_cys rc))) of
             None \<Rightarrow> ''''
           | Some m \<Rightarrow> ''COUNT('' @ mi_get_name m @ '')''))"

definition ret_ok :: "world \<Rightarrow> read_cond \<Rightarrow> bool" where
  "ret_ok w rc \<longleftrightarrow>
     (case rc_ret rc of
        Ret_class r \<Rightarrow> class_members w r \<noteq> [] \<and> (\<forall>m \<in> set (class_members w r). from_name w m \<noteq> COUNT_FIELD)
      | Ret_int64 \<Rightarrow> (\<exists>c. rc_cys rc = Some c \<and> class_members w c \<noteq> []))"

definition params_of :: "world \<Rightarrow> read_cond \<Rightarrow> param list" where
  "params_of w rc = (case rc_param_list w rc of Inr ps \<Rightarrow> ps | Inl _ \<Rightarrow> [])"

definition where_clause :: "world \<Rightarrow> read_cond \<Rightarrow> string" where
  "where_clause w rc =
     (if has_cond rc then '' WHERE '' @ where_text (class_members w (the (rc_cys rc))) (params_of w rc) else '''')"

definition table_of :: "world \<Rightarrow> read_cond \<Rightarrow> string" where
  "table_of w rc =
     (case rc_cys rc of
        Some c \<Rightarrow> class_name w c
      | None \<Rightarrow> (case rc_ret rc of Ret_class r \<Rightarrow> class_name w r | Ret_int64 \<Rightarrow> ''''))"

definition select_text :: "world \<Rightarrow> read_cond \<Rightarrow> string" where
  "select_text w rc =
     ''SELECT '' @ ret_columns_text w rc @ '' FROM '' @ table_of w rc @ where_clause w rc"

definition read_request_ok :: "world \<Rightarrow> read_cond \<Rightarrow> bool" where
  "read_request_ok w rc \<longleftrightarrow>
     ret_ok w rc \<and> (has_cond rc \<longrightarrow> (\<exists>c ps. conds_of w rc c ps \<and> first_is_field ps))"

lemma column_loop:
  "\<exists>ctx'. loop_ret (\<lambda>ctx m. ret_column ctx (from_name w m) (mi_get_name m)) 0 ctx ms = Inr (0, ctx') \<and>
     qc_sql ctx' = qc_sql ctx @
       (if qc_ret_first ctx \<or> ms = [] then '''' else '', '') @
       join_with '', '' (map (\<lambda>m. column_text (column_of w m)) ms) \<and>
     qc_cond_first ctx' = qc_cond_first ctx"
proof -
  have step: "column_step ctx (column_of w m) = ret_column ctx (from_name w m) (mi_get_name m)" for ctx m
    by (simp add: column_of_def)
  have frame: "qc_cond_first s' = qc_cond_first s" if "column_step s x = Inr (r, s')" for s x r s'
    using that by (cases x) (auto simp: ret_column_def add_sql_def Let_def split: if_splits)
  have "all_ok (\<lambda>_ _. True) (qc_ret_first ctx) (map (column_of w) ms)" by simp
  from ret_columns.loop_ret_ok [OF this] obtain ctx' where
    run: "loop_ret column_step 0 ctx (map (column_of w) ms) = Inr (0, ctx')" and
    sql: "qc_sql ctx' = qc_sql ctx @ emit (\<lambda>_. '', '') column_text (qc_ret_first ctx) (map (column_of w) ms)"
    by blast
  from loop_ret_frame [OF run, of qc_cond_first] frame have "qc_cond_first ctx' = qc_cond_first ctx"
    by blast
  with run sql show ?thesis
    by (auto simp: loop_ret_map step emit_uniform o_def)
qed

lemma column_or_count_loop:
  assumes "\<forall>m \<in> set ms. from_name w m \<noteq> COUNT_FIELD"
  shows "loop_ret (\<lambda>ctx m. ret_column_or_count ctx (from_name w m) (mi_get_name m)) 0 ctx ms =
    loop_ret (\<lambda>ctx m. ret_column ctx (from_name w m) (mi_get_name m)) 0 ctx ms"
  using assms by (intro loop_ret_cong) (simp add: ret_column_or_count_def)

lemma add_sql_simps [simp]:
  "qc_sql (add_sql s ctx) = qc_sql ctx @ s" "qc_ret_first (add_sql s ctx) = qc_ret_first ctx"
  "qc_cond_first (add_sql s ctx) = qc_cond_first ctx"
  by (simp_all add: add_sql_def)

lemma returned_columns:
  assumes "ret_ok w rc" and "qc_ret_first ctx"
  shows "\<exists>ctx'. (if ret_equal_to_cond (rc_ret rc) (rc_cys rc) then returnS (0, add_sql ''*'' ctx)
      else get_read_members rc ret_column_or_count ctx) w = (w, Inr (0, ctx')) \<and>
    qc_sql ctx' = qc_sql ctx @ ret_columns_text w rc \<and> qc_cond_first ctx' = qc_cond_first ctx"
proof (cases "rc_ret rc")
  case (Ret_class r)
  with assms(1) have ms: "class_members w r \<noteq> []"
    and nf: "\<forall>m \<in> set (class_members w r). from_name w m \<noteq> COUNT_FIELD"
    by (simp_all add: ret_ok_def)
  show ?thesis
  proof (cases "ret_equal_to_cond (rc_ret rc) (rc_cys rc)")
    case True
    with Ret_class show ?thesis by (simp add: ret_columns_text_def)
  next
    case False
    then have cols: "ret_columns_text w rc =
        join_with '', '' (map (\<lambda>m. column_text (column_of w m)) (class_members w r))"
      by (simp add: ret_columns_text_def Ret_class)
    have "get_read_members rc ret_column_or_count ctx w = (w,
        loop_ret (\<lambda>ctx m. ret_column ctx (from_name w m) (mi_get_name m)) 0 ctx (class_members w r))"
      using ms column_or_count_loop [OF nf]
      by (simp add: get_read_members_def Ret_class bindS_apply)
    with False cols column_loop [of w ctx "class_members w r"] assms(2) show ?thesis by auto
  qed
next
  case Ret_int64
  with assms(1) obtain c where c: "rc_cys rc = Some c" "class_members w c \<noteq> []"
    by (auto simp: ret_ok_def)
  show ?thesis
    by (cases "find (\<lambda>m. mi_type m \<noteq> YT_AUTO_INCREMENT) (class_members w c)")
      (use c assms(2) in \<open>simp_all add: Ret_int64 get_read_members_def ret_columns_text_def ret_column_or_count_def\<close>)
qed

lemma rc_get_obj_name_ok: "ret_ok w rc \<Longrightarrow> rc_get_obj_name w rc = Inr (table_of w rc)"
  by (auto simp: rc_get_obj_name_def table_of_def ret_ok_def split: option.splits ret_type.splits)

lemma conds_of_unique:
  "conds_of w rc c ps \<Longrightarrow> rc_cys rc = Some c \<and> params_of w rc = ps \<and> has_cond rc"
  by (auto simp: conds_of_def params_of_def has_cond_def rc_param_list_def split: option.splits)

lemma query_make_run:
  assumes "read_request_ok w rc" and "qc_ret_first ctx" and "qc_cond_first ctx"
  shows "\<exists>ctx'. query_make rc ctx w = (w, Inr ctx') \<and> qc_sql ctx' = qc_sql ctx @ select_text w rc"
proof -
  have ret: "ret_ok w rc" using assms(1) by (simp add: read_request_ok_def)
  obtain ctx1 where
    c1: "(if ret_equal_to_cond (rc_ret rc) (rc_cys rc) then returnS (0, add_sql ''*'' (add_sql ''SELECT '' ctx))
          else get_read_members rc ret_column_or_count (add_sql ''SELECT '' ctx)) w = (w, Inr (0, ctx1))"
    and s1: "qc_sql ctx1 = qc_sql ctx @ ''SELECT '' @ ret_columns_text w rc" "qc_cond_first ctx1"
    using returned_columns [OF ret, of "add_sql ''SELECT '' ctx"] assms(2,3) by auto
  note name = rc_get_obj_name_ok [OF ret]
  let ?ctx2 = "add_sql ('' FROM '' @ table_of w rc) ctx1"
  show ?thesis
  proof (cases "has_cond rc")
    case False
    then show ?thesis
      by (simp add: query_make_def Let_def bindS_apply c1 name s1 select_text_def where_clause_def)
  next
    case True
    with assms(1) obtain c ps where c: "conds_of w rc c ps" "first_is_field ps"
      by (auto simp: read_request_ok_def)
    let ?ctx3 = "add_sql '' WHERE '' ?ctx2"
    obtain ctx4 where
      "query_where w ''sqlite append condition for query sql failed: '' rc ?ctx3 = Inr ctx4"
      "qc_sql ctx4 = qc_sql ?ctx3 @ where_text (class_members w c) ps"
      using query_where_ok [OF c(1), of ?ctx3] c(2) s1(2) by (auto simp: where_text_def)
    moreover have "where_clause w rc = '' WHERE '' @ where_text (class_members w c) ps"
      using conds_of_unique [OF c(1)] by (simp add: where_clause_def)
    ultimately show ?thesis using True
      by (simp add: query_make_def Let_def bindS_apply c1 name s1 select_text_def)
  qed
qed


text \<open>
  A request whose first condition is a \<open>GROUP\<close> or an \<open>ORDER\<close> is refused by every builder that
  writes a condition clause with its own context.
\<close>

theorem leading_order_is_refused:
  assumes "conds_of w rc c ps" and "ps \<noteq> []" and "\<not> first_is_field ps"
  shows "delete_make w rc = Inl first_cond_error \<and>
    (ret_ok w rc \<longrightarrow> query_make rc query_ctx0 w = (w, Inl first_cond_error))"
proof
  have f: "qc_cond_first (query_ctx0\<lparr>qc_sql := s\<rparr>)" for s by (simp add: query_ctx0_def)
  have u: "rc_cys rc = Some c" "has_cond rc" using conds_of_unique [OF assms(1)] by auto
  show "delete_make w rc = Inl first_cond_error"
    using query_where_throws [OF assms(1) f assms(2,3)]
    by (simp add: delete_make_def rc_get_obj_name_def u)
  show "ret_ok w rc \<longrightarrow> query_make rc query_ctx0 w = (w, Inl first_cond_error)"
  proof
    assume ret: "ret_ok w rc"
    have q0: "qc_ret_first (add_sql ''SELECT '' query_ctx0)" "qc_cond_first query_ctx0" by (simp_all add: query_ctx0_def)
    obtain ctx1 where
      c1: "(if ret_equal_to_cond (rc_ret rc) (rc_cys rc) then returnS (0, add_sql ''*'' (add_sql ''SELECT '' query_ctx0))
            else get_read_members rc ret_column_or_count (add_sql ''SELECT '' query_ctx0)) w = (w, Inr (0, ctx1))"
      and s1: "qc_cond_first ctx1"
      using returned_columns [OF ret q0(1)] q0(2) by auto
    have "qc_cond_first (add_sql '' WHERE '' (add_sql ('' FROM '' @ table_of w rc) ctx1))" using s1 by simp
    from query_where_throws [OF assms(1) this assms(2,3)] show "query_make rc query_ctx0 w = (w, Inl first_cond_error)"
      by (simp add: query_make_def Let_def bindS_apply c1 rc_get_obj_name_ok [OF ret] u(2))
  qed
qed

section \<open>UNION, JOIN and copy\<close>

lemma union_loop_run:
  "\<forall>rc \<in> set rcs. read_request_ok w rc \<Longrightarrow>
    \<exists>ctx'. union_loop first rcs ctx w = (w, Inr ctx') \<and>
      qc_sql ctx' = qc_sql ctx @ (if first \<or> rcs = [] then '''' else '' UNION '') @
        join_with '' UNION '' (map (select_text w) rcs)"
proof (induction rcs arbitrary: first ctx)
  case (Cons rc rcs)
  let ?ctx1 = "(if first then ctx else add_sql '' UNION '' ctx)\<lparr>qc_ret_first := True, qc_cond_first := True\<rparr>"
  from Cons.prems have "read_request_ok w rc" by simp
  from query_make_run [OF this, of ?ctx1] obtain ctx1 where
    c1: "query_make rc ?ctx1 w = (w, Inr ctx1)" "qc_sql ctx1 = qc_sql ?ctx1 @ select_text w rc" by auto
  from Cons.prems Cons.IH [of False ctx1] obtain ctx2 where
    c2: "union_loop False rcs ctx1 w = (w, Inr ctx2)"
      "qc_sql ctx2 = qc_sql ctx1 @ (if rcs = [] then '''' else '' UNION '') @ join_with '' UNION '' (map (select_text w) rcs)"
    by auto
  show ?case
    using c1 c2 by (cases "first") (simp_all add: Let_def bindS_apply join_with_Cons)
qed simp

text \<open>
  C37: the text of a union of at least one request is the requests' query texts joined by \<open>UNION\<close>, in
  the order they were added; without a request the builder throws.
\<close>

theorem union_make_text:
  assumes "\<forall>rc \<in> set rcs. read_request_ok w rc"
  shows "(rcs \<noteq> [] \<longrightarrow> (\<exists>ctx. union_make rcs query_ctx0 w = (w, Inr ctx) \<and>
      qc_sql ctx = join_with '' UNION '' (map (select_text w) rcs))) \<and>
    union_make [] query_ctx0 w = (w, Inl (Runtime_error ''no condition for union read''))"
  using union_loop_run [OF assms, of True query_ctx0] by (auto simp: union_make_def query_ctx0_def)

text \<open>The conditions of several requests written into one context.\<close>

definition all_items :: "world \<Rightarrow> read_cond list \<Rightarrow> cond_item list" where
  "all_items w rcs =
     concat (map (\<lambda>rc. map (cond_item_of (class_members w (the (rc_cys rc)))) (params_of w rc)) rcs)"

definition cond_request_ok :: "world \<Rightarrow> read_cond \<Rightarrow> bool" where
  "cond_request_ok w rc \<longleftrightarrow> (\<exists>c ps. conds_of w rc c ps \<and> ps \<noteq> [])"

lemma where_all_run:
  "\<forall>rc \<in> set rcs. cond_request_ok w rc \<Longrightarrow>
    \<not> qc_cond_first ctx \<or> rcs = [] \<or> first_is_field (params_of w (hd rcs)) \<Longrightarrow>
    \<exists>ctx'. where_all w rcs ctx = Inr ctx' \<and>
      qc_sql ctx' = qc_sql ctx @ emit cond_sep cond_text (qc_cond_first ctx) (all_items w rcs)"
proof (induction rcs arbitrary: ctx)
  case (Cons rc rcs)
  let ?err = "''sqlite append condition for query sql failed: ''"
  from Cons.prems(1) obtain c ps where c: "conds_of w rc c ps" "ps \<noteq> []"
    by (auto simp: cond_request_ok_def)
  have u: "rc_cys rc = Some c" "params_of w rc = ps" using conds_of_unique [OF c(1)] by auto
  from Cons.prems(2) have "\<not> qc_cond_first ctx \<or> ps = [] \<or> first_is_field ps" by (simp add: u)
  from query_where_ok [OF c(1) this, of ?err] c(2) obtain ctx1 where
    c1: "query_where w ?err rc ctx = Inr ctx1" "\<not> qc_cond_first ctx1"
      "qc_sql ctx1 = qc_sql ctx @ emit cond_sep cond_text (qc_cond_first ctx) (map (cond_item_of (class_members w c)) ps)"
    by auto
  from Cons.prems(1) Cons.IH [of ctx1] c1(2) obtain ctx2 where
    c2: "where_all w rcs ctx1 = Inr ctx2"
      "qc_sql ctx2 = qc_sql ctx1 @ emit cond_sep cond_text False (all_items w rcs)" by auto
  have "where_all w (rc # rcs) ctx = Inr ctx2" using c1(1) c2(1) by (simp add: where_all_def)
  with c1(3) c2(2) c(2) u show ?case by (simp add: all_items_def emit_append)
qed (simp add: where_all_def all_items_def)

definition join_request_ok :: "world \<Rightarrow> read_cond \<Rightarrow> read_cond list \<Rightarrow> bool" where
  "join_request_ok w ret conds \<longleftrightarrow>
     (\<exists>r. rc_ret ret = Ret_class r \<and> class_members w r \<noteq> []) \<and>
     (\<forall>rc \<in> set conds. cond_request_ok w rc) \<and> (conds = [] \<or> first_is_field (params_of w (hd conds)))"

definition where_all_text :: "world \<Rightarrow> read_cond list \<Rightarrow> string" where
  "where_all_text w conds =
     (if conds = [] then '''' else '' WHERE '' @ emit cond_sep cond_text True (all_items w conds))"

fun ret_class_of :: "ret_type \<Rightarrow> class_decl" where
  "ret_class_of (Ret_class r) = r"
| "ret_class_of Ret_int64 = CLASS '''' None []"

definition column_list :: "world \<Rightarrow> read_cond \<Rightarrow> string" where
  "column_list w ret =
     join_with '', '' (map (\<lambda>m. column_text (column_of w m)) (class_members w (ret_class_of (rc_ret ret))))"

lemma join_columns_run:
  assumes "join_request_ok w ret conds" and "qc_ret_first ctx"
  shows "\<exists>ctx'. get_read_members ret ret_column ctx w = (w, Inr (0, ctx')) \<and>
    qc_sql ctx' = qc_sql ctx @ column_list w ret \<and> qc_cond_first ctx' = qc_cond_first ctx"
proof -
  from assms(1) obtain r where r: "rc_ret ret = Ret_class r" "class_members w r \<noteq> []"
    by (auto simp: join_request_ok_def)
  with column_loop [of w ctx "class_members w r"] assms(2) show ?thesis
    by (auto simp: get_read_members_def bindS_apply column_list_def)
qed

lemma join_conds_run:
  assumes "join_request_ok w ret conds" and "qc_cond_first ctx"
  shows "\<exists>ctx'. where_all w conds (if conds \<noteq> [] then add_sql '' WHERE '' ctx else ctx) = Inr ctx' \<and>
    qc_sql ctx' = qc_sql ctx @ where_all_text w conds"
  using where_all_run [of conds w "if conds \<noteq> [] then add_sql '' WHERE '' ctx else ctx"] assms
  by (auto simp: join_request_ok_def where_all_text_def all_items_def)


text \<open>
  The text of a copy inserts into the target table, under the same list of columns that it selects
  from the source table, with the conditions of all condition objects; it exists exactly for one
  source table.
\<close>

theorem copy_make_text:
  assumes "join_request_ok w column conds" and "rc_cys column = None"
  shows "(\<exists>ctx. copy_make [jc] column conds query_ctx0 w = (w, Inr ctx) \<and>
    qc_sql ctx = ''INSERT INTO '' @ class_name w (ret_class_of (rc_ret column)) @
      '' ('' @ column_list w column @ '') SELECT '' @ column_list w column @
      '' FROM '' @ jc_get_obj_name w jc @ where_all_text w conds) \<and>
    (length froms \<noteq> 1 \<longrightarrow> copy_make froms column conds query_ctx0 w =
      (w, Inl (Runtime_error ''unknow copy from table'')))"
proof (rule conjI)
  have q0: "qc_ret_first query_ctx0" "qc_cond_first query_ctx0" "qc_sql query_ctx0 = ''''"
    by (simp_all add: query_ctx0_def)
  have name: "rc_get_obj_name w column = Inr (class_name w (ret_class_of (rc_ret column)))"
    using assms by (auto simp: join_request_ok_def rc_get_obj_name_def)
  from join_columns_run [OF assms(1) q0(1)] obtain ctx1 where
    c1: "get_read_members column ret_column query_ctx0 w = (w, Inr (0, ctx1))"
    and s1: "qc_sql ctx1 = column_list w column" "qc_cond_first ctx1"
    using q0 by auto
  let ?ctx1 = "ctx1\<lparr>qc_sql := ''INSERT INTO '' @ class_name w (ret_class_of (rc_ret column)) @ '' ('' @
      qc_sql ctx1 @ '') SELECT '' @ qc_sql ctx1 @ '' FROM '' @ jc_get_obj_name w jc\<rparr>"
  have "qc_cond_first ?ctx1" using s1 by simp
  from join_conds_run [OF assms(1) this] obtain ctx2 where
    c2: "where_all w conds (if conds \<noteq> [] then add_sql '' WHERE '' ?ctx1 else ?ctx1) = Inr ctx2"
    and s2: "qc_sql ctx2 = qc_sql ?ctx1 @ where_all_text w conds" by blast
  have "copy_make [jc] column conds query_ctx0 w = (w, Inr ctx2)"
    using c2 by (cases "conds = []") (simp_all add: copy_make_def name bindS_apply c1 Let_def where_all_def)
  with s1 s2 show "\<exists>ctx. copy_make [jc] column conds query_ctx0 w = (w, Inr ctx) \<and>
    qc_sql ctx = ''INSERT INTO '' @ class_name w (ret_class_of (rc_ret column)) @
      '' ('' @ column_list w column @ '') SELECT '' @ column_list w column @
      '' FROM '' @ jc_get_obj_name w jc @ where_all_text w conds" by simp
  show "length froms \<noteq> 1 \<longrightarrow> copy_make froms column conds query_ctx0 w =
      (w, Inl (Runtime_error ''unknow copy from table''))"
    by (cases froms rule: list.exhaust; cases "tl froms") (auto simp: copy_make_def)
qed

section \<open>INSERT\<close>

text \<open>The assigned members of an object: column name and value, in ascending order of their numbers.\<close>

definition row_item :: "world \<Rightarrow> addr \<Rightarrow> yan_obj \<Rightarrow> 16 word \<Rightarrow> row_item" where
  "row_item w p ob s =
     (let info = class_members w (ob_class ob) ! unat s in
      (mi_get_name info, (case get_value w p (mi_name info) of Inr v \<Rightarrow> v | Inl _ \<Rightarrow> V_bool False)))"

definition row_of :: "world \<Rightarrow> addr \<Rightarrow> row_item list" where
  "row_of w p = (case w_objs w p of None \<Rightarrow> [] | Some ob \<Rightarrow> map (row_item w p ob) (ob_seqset ob))"

text \<open>The step of \<open>assign_value\<close> and \<open>append_value\<close> on an assigned member of a consistent object.\<close>

lemma assigned_member_step:
  assumes w: "w_objs w p = Some ob" and ok: "table_ok w p ob" and s: "s \<in> set (ob_seqset ob)"
  shows "bindE (in_ops (com_read_ref thr f) ctx (ys_at (get_yan_struct (w_reg w) (ob_class ob)) s))
      (\<lambda>info. handle_info 1 (com_read_ref thr f) raw_size w ctx p info) =
    f ctx (fst (row_item w p ob s)) (T_val (ctype_of (snd (row_item w p ob s)))) CT_AND OT_EQUAL
      (Inr (PV (snd (row_item w p ob s))))"
proof -
  let ?c = "ob_class ob"
  have cr: "class_ready (w_reg w) ?c" and len: "unat s < length (cd_members ?c)"
    using ok s by (auto simp: table_ok_def)
  obtain mem t args m where m: "cd_members ?c ! unat s = MEMBER mem t args" "at_member w p ob mem t m"
    "value_member_ok p t (of_nat (unat s) \<in> set (ob_seqset ob)) m"
    by (rule table_ok_member [OF w ok len])
  from m(3) s obtain v where v: "vm_flag m" "vm_value m = Some v" "YanType2Type t = Some (ctype_of v)"
    by (auto simp: value_member_ok_def)
  have info: "class_members w ?c ! unat s = decl_info (MEMBER mem t args)"
    using class_members_ready [OF cr] len m(1) by simp
  have at: "ys_at (get_yan_struct (w_reg w) ?c) s = Inr (decl_info (MEMBER mem t args))"
    using class_members_ready [OF cr] len info by (simp add: ys_at_def class_members_def)
  have mo: "ob_mems ob mem = Some (MO_value m)" using m(2) by (simp add: at_member_def)
  have val: "get_value w p mem = Inr v" "get_flag w p mem = Inr True"
    using w mo v by (simp_all add: get_value_def get_flag_def)
  have row: "row_item w p ob s = (mi_get_name (decl_info (MEMBER mem t args)), v)"
    using info val by (simp add: row_item_def Let_def)
  have ty: "t \<noteq> YT_STRUCT" "t \<noteq> YT_LIST" using v(3) by auto
  have "handle_info 1 (com_read_ref thr f) raw_size w ctx p (decl_info (MEMBER mem t args)) =
      member_ref (com_read_ref thr f) w ctx p (decl_info (MEMBER mem t args))" for ctx
    using ty by (cases t) simp_all
  then show ?thesis
    using val v(3) by (simp add: at row member_ref_def com_read_ref_def)
qed

lemma assigned_members_loop:
  assumes w: "w_objs w p = Some ob" and ok: "table_ok w p ob"
  shows "loop_ignore (\<lambda>ctx seq. bindE (in_ops (com_read_ref thr f) ctx (ys_at (get_yan_struct (w_reg w) (ob_class ob)) seq))
      (\<lambda>info. handle_info 1 (com_read_ref thr f) raw_size w ctx p info)) ctx (ob_seqset ob) =
    loop_ignore (\<lambda>ctx i. f ctx (fst i) (T_val (ctype_of (snd i))) CT_AND OT_EQUAL (Inr (PV (snd i)))) ctx (row_of w p)"
  unfolding row_of_def loop_ignore_map w option.case
  by (rule loop_ignore_cong) (rule assigned_member_step [OF w ok])

lemma insert_step_onlyone: "insert_step ctx i = Inr (r, ctx') \<Longrightarrow> ic_onlyone ctx' = ic_onlyone ctx"
  by (auto simp: insert_step_def insert_append_def Let_def split: if_splits)

lemma insert_loop_onlyone:
  "loop_ret (\<lambda>ctx. insert_step (ctx\<lparr>ic_onlyone := b\<rparr>)) r ctx is = loop_ret insert_step r ctx is"
  if "ic_onlyone ctx = b"
  using that
proof (induction "is" arbitrary: r ctx)
  case (Cons i "is")
  have c: "ctx\<lparr>ic_onlyone := b\<rparr> = ctx" using Cons.prems by (cases ctx) simp
  show ?case
  proof (cases "insert_step ctx i")
    case (Inr x)
    then obtain r' ctx' where s: "insert_step ctx i = Inr (r', ctx')" by (cases x) auto
    with insert_step_onlyone [OF s] Cons.prems Cons.IH [of ctx' r'] show ?thesis by (simp add: c)
  qed (simp add: c)
qed simp

lemma insert_rows_run:
  "\<exists>ctx'. loop_ignore insert_step ctx rows = Inr ctx' \<and>
     ic_values ctx' = ic_values ctx @ (if ic_first ctx \<or> rows = [] then '''' else '', '') @
       join_with '', '' (map (\<lambda>i. sql_literal (snd i)) rows) \<and>
     (ic_onlyone ctx \<longrightarrow> ic_fields ctx' = ic_fields ctx @
       (if ic_first ctx \<or> rows = [] then '''' else '', '') @ join_with '', '' (map fst rows)) \<and>
     (\<not> ic_onlyone ctx \<longrightarrow> ic_fields ctx' = ic_fields ctx) \<and>
     ic_onlyone ctx' = ic_onlyone ctx \<and> (ic_first ctx' \<longleftrightarrow> ic_first ctx \<and> rows = [])"
proof -
  let ?b = "ic_onlyone ctx"
  have ok: "all_ok (\<lambda>_ _. True) (ic_first ctx) rows" by simp
  from row_values.loop_ret_ok [OF ok] obtain ctx' where
    run: "loop_ret insert_step 0 ctx rows = Inr (0, ctx')" and
    vals: "ic_values ctx' = ic_values ctx @ emit (\<lambda>_. '', '') (\<lambda>i. sql_literal (snd i)) (ic_first ctx) rows" and
    f: "ic_first ctx' \<longleftrightarrow> ic_first ctx \<and> rows = []" by blast
  from row_fields.loop_ret_ok [OF ok, of ?b] have
    fields: "ic_fields ctx' = ic_fields ctx @
      emit (\<lambda>_. if ?b then '', '' else '''') (\<lambda>i. if ?b then fst i else '''') (ic_first ctx) rows"
    by (simp add: insert_loop_onlyone run)
  have one: "ic_onlyone ctx' = ic_onlyone ctx"
    using loop_ret_frame [OF run, of ic_onlyone] insert_step_onlyone by blast
  have empty: "emit (\<lambda>_. '''') (\<lambda>_. '''') g rows = ''''" for g
    by (induction rows arbitrary: g) auto
  have "loop_ignore insert_step ctx rows = Inr ctx'"
    by (simp add: row_values.loop_ignore_eq run)
  with vals fields f one empty show ?thesis
    by (auto simp: emit_uniform)
qed

lemma assign_value_insert:
  assumes "w_objs w p = Some ob" and "table_ok w p ob"
  shows "assign_value 1 insert_ops raw_size w (ob_class ob) p ctx =
    bindE (loop_ignore insert_step ctx (row_of w p)) (\<lambda>ctx. Inr (0, ctx))"
proof -
  have "loop_ignore (\<lambda>obj seq. bindE (in_ops insert_ops obj (ys_at (get_yan_struct (w_reg w) (ob_class ob)) seq))
      (\<lambda>info. handle_info 1 insert_ops raw_size w obj p info)) ctx (ob_seqset ob) =
    loop_ignore insert_step ctx (row_of w p)"
    unfolding assigned_members_loop [OF assms] by (rule loop_ignore_cong) (simp add: insert_step_def)
  then show ?thesis using assms(1) by (simp add: assign_value_def seqs_of_def)
qed

definition insert_text :: "string \<Rightarrow> row_item list \<Rightarrow> string" where
  "insert_text name row =
     ''INSERT INTO '' @ name @ '' ('' @ join_with '', '' (map fst row) @ '') VALUES ('' @
       join_with '', '' (map (\<lambda>i. sql_literal (snd i)) row) @ '')''"

lemma insert_make_run:
  assumes "w_objs w p = Some ob" and "table_ok w p ob" and "ob_seqset ob \<noteq> []"
  shows "\<exists>ctx. insert_make raw_size w (ob_class ob) p insert_ctx0 =
      Inr (insert_text (class_name w (ob_class ob)) (row_of w p), ctx) \<and> \<not> ic_onlyone (insert_reset ctx)"
proof -
  have row: "row_of w p \<noteq> []" using assms(1,3) by (simp add: row_of_def)
  have i0: "ic_first insert_ctx0" "ic_onlyone insert_ctx0" "ic_values insert_ctx0 = ''''" "ic_fields insert_ctx0 = ''''"
    by (simp_all add: insert_ctx0_def)
  from insert_rows_run [of insert_ctx0 "row_of w p"] row i0 show ?thesis
    by (auto simp: insert_make_def assign_value_insert [OF assms(1,2)] insert_create_def insert_text_def
        insert_reset_def simp del: One_nat_def)
qed

lemma insert_make_text_run:
  assumes "w_objs w p = Some ob" and "table_ok w p ob"
  shows "(ob_seqset ob \<noteq> [] \<longrightarrow> (\<exists>ctx. insert_make raw_size w (ob_class ob) p insert_ctx0 =
      Inr (insert_text (class_name w (ob_class ob)) (row_of w p), ctx))) \<and>
    (ob_seqset ob = [] \<longrightarrow> insert_make raw_size w (ob_class ob) p insert_ctx0 =
      throw_text ''sqlite has no field set when creating insert sql'')"
proof (intro conjI impI)
  assume "ob_seqset ob \<noteq> []"
  from insert_make_run [OF assms this] show "\<exists>ctx. insert_make raw_size w (ob_class ob) p insert_ctx0 =
      Inr (insert_text (class_name w (ob_class ob)) (row_of w p), ctx)" by blast
next
  assume "ob_seqset ob = []"
  then have "row_of w p = []" using assms(1) by (simp add: row_of_def)
  then show "insert_make raw_size w (ob_class ob) p insert_ctx0 =
      throw_text ''sqlite has no field set when creating insert sql''"
    by (simp add: insert_make_def assign_value_insert [OF assms] insert_ctx0_def del: One_nat_def)
qed

text \<open>
  The insert text of a consistent object with at least one assigned member names exactly the
  assigned members, in ascending order of their numbers, and gives their values in the same order
  (so that column and value counts agree); for an object without assigned members the builder throws.
\<close>

theorem insert_make_text:
  assumes "w_objs w p = Some ob" and "table_ok w p ob"
  shows "(ob_seqset ob \<noteq> [] \<longrightarrow> (\<exists>ctx. insert_make raw_size w (ob_class ob) p insert_ctx0 =
      Inr (insert_text (class_name w (ob_class ob)) (row_of w p), ctx))) \<and>
    (ob_seqset ob = [] \<longrightarrow> insert_make raw_size w (ob_class ob) p insert_ctx0 =
      throw_text ''sqlite has no field set when creating insert sql'')"
  using assms by (rule insert_make_text_run)

definition values_text :: "row_item list \<Rightarrow> string" where
  "values_text row = '', ('' @ join_with '', '' (map (\<lambda>i. sql_literal (snd i)) row) @ '')''"

lemma insert_more_rows_run:
  "\<forall>p \<in> set ps. \<exists>ob. w_objs w p = Some ob \<and> table_ok w p ob \<and> ob_class ob = c \<Longrightarrow>
    \<exists>ctx'. insert_more_rows raw_size w c ps (sql, ctx) =
      Inr (sql @ concat (map (\<lambda>p. values_text (row_of w p)) ps), ctx')"
proof (induction ps arbitrary: sql ctx)
  case (Cons p ps)
  from Cons.prems obtain ob where ob: "w_objs w p = Some ob" "table_ok w p ob" "ob_class ob = c" by auto
  from insert_rows_run [of "insert_reset ctx" "row_of w p"] obtain ctx1 where
    c1: "loop_ignore insert_step (insert_reset ctx) (row_of w p) = Inr ctx1"
    "ic_values ctx1 = join_with '', '' (map (\<lambda>i. sql_literal (snd i)) (row_of w p))"
    by (auto simp: insert_reset_def)
  have "assign_value 1 insert_ops raw_size w c p (insert_reset ctx) = Inr (0, ctx1)"
    using assign_value_insert [OF ob(1,2)] c1(1) by (simp add: ob(3) del: One_nat_def)
  with Cons.prems Cons.IH [of "sql @ values_text (row_of w p)" ctx1] c1(2) show ?case
    by (simp add: values_text_def del: One_nat_def)
qed simp

lemma insert_make_rows_text_run:
  assumes "w_objs w p = Some ob" and "table_ok w p ob" and "ob_seqset ob \<noteq> []"
    and "\<forall>q \<in> set ps. \<exists>ob'. w_objs w q = Some ob' \<and> table_ok w q ob' \<and> ob_class ob' = ob_class ob"
  shows "\<exists>ctx. insert_make_rows raw_size w (ob_class ob) (p # ps) insert_ctx0 =
    Inr (insert_text (class_name w (ob_class ob)) (row_of w p) @ concat (map (\<lambda>q. values_text (row_of w q)) ps), ctx)"
proof -
  from insert_make_run [OF assms(1-3)] obtain ctx where
    "insert_make raw_size w (ob_class ob) p insert_ctx0 =
      Inr (insert_text (class_name w (ob_class ob)) (row_of w p), ctx)" by blast
  with insert_more_rows_run [OF assms(4)] show ?thesis by (simp add: insert_make_rows_def)
qed

text \<open>
  The text for a container of objects names the columns of the first object only and then lists
  the values of every object: the rows fit the column list exactly when every further object has as
  many assigned members as the first one, and they mean the same columns only if it has the same ones.
\<close>

theorem insert_make_rows_text:
  assumes "w_objs w p = Some ob" and "table_ok w p ob" and "ob_seqset ob \<noteq> []"
    and "\<forall>q \<in> set ps. \<exists>ob'. w_objs w q = Some ob' \<and> table_ok w q ob' \<and> ob_class ob' = ob_class ob"
  shows "\<exists>ctx. insert_make_rows raw_size w (ob_class ob) (p # ps) insert_ctx0 =
    Inr (insert_text (class_name w (ob_class ob)) (row_of w p) @ concat (map (\<lambda>q. values_text (row_of w q)) ps), ctx)"
  using assms by (rule insert_make_rows_text_run)

section \<open>String literals\<close>

text \<open>
  How SQL reads a string literal: up to the next quote that is not doubled; the content and the rest
  of the statement.
\<close>

fun read_quoted :: "string \<Rightarrow> (string \<times> string) option" where
  "read_quoted [] = None"
| "read_quoted (ch # s) =
     (if ch \<noteq> CHR 0x27 then map_option (\<lambda>(v, rest). (ch # v, rest)) (read_quoted s)
      else case s of
             ch' # s' \<Rightarrow>
               if ch' = CHR 0x27 then map_option (\<lambda>(v, rest). (CHR 0x27 # v, rest)) (read_quoted s')
               else Some ('''', s)
           | [] \<Rightarrow> Some ('''', []))"

fun read_literal :: "string \<Rightarrow> (string \<times> string) option" where
  "read_literal (ch # s) = (if ch = CHR 0x27 then read_quoted s else None)"
| "read_literal [] = None"

lemma read_quoted_plain:
  "CHR 0x27 \<notin> set s \<Longrightarrow> rest = [] \<or> hd rest \<noteq> CHR 0x27 \<Longrightarrow>
    read_quoted (s @ CHR 0x27 # rest) = Some (s, rest)"
  by (induction s) (auto split: list.splits)

text \<open>
  A stored string without a quote is read back from the insert text as itself, whatever follows
  it.  Quotes are not escaped: for a string with a single quote inside, the literal ends at that quote
  and the remainder of the value is read as SQL text.
\<close>

theorem string_literal_roundtrip:
  assumes "CHR 0x27 \<notin> set s" and "rest = [] \<or> hd rest \<noteq> CHR 0x27"
  shows "read_literal (sql_literal (V_string s) @ rest) = Some (s, rest) \<and>
    (t \<noteq> [] \<longrightarrow> hd t \<noteq> CHR 0x27 \<longrightarrow>
      read_literal (sql_literal (V_string (s @ [CHR 0x27] @ t)) @ rest) = Some (s, t @ [CHR 0x27] @ rest))"
  using read_quoted_plain [OF assms] read_quoted_plain [OF assms(1), of "t @ CHR 0x27 # rest"]
  by auto

theorem string_literal_roundtrip_witness:
  "read_literal (sql_literal (V_string ''v5'') @ '', 7'') = Some (''v5'', '', 7'') \<and>
   read_literal (sql_literal (V_string (''x'' @ [CHR 0x27] @ ''); DROP TABLE tm; --'')) @ '')'') =
     Some (''x'', ''); DROP TABLE tm; --'' @ [CHR 0x27] @ '')'')"
  using string_literal_roundtrip [of "''v5''" "'', 7''"]
    string_literal_roundtrip [of "''x''" "'')''" "''); DROP TABLE tm; --''"] by simp

end
