(* ===== verification/Yan_Sql_Update.thy ===== *)
theory Yan_Sql_Update
  imports Yan_Sql_Text
begin

text \<open>
  Update and delete requests: \<open>UpdateCondImpl::copy_refobj\<close> takes a snapshot of the assigned values of
  the user's object in an object of its own; \<open>MakeUpdateSql\<close> and \<open>MakeDeleteSql\<close> write the text.
\<close>

section \<open>The snapshot of an update request\<close>

definition member_name_at :: "class_decl \<Rightarrow> 16 word \<Rightarrow> string" where
  "member_name_at c s = member_decl_name (cd_members c ! unat s)"

text \<open>The members after values were copied from the object at \<open>rp\<close>.\<close>

definition copied_member :: "world \<Rightarrow> addr \<Rightarrow> string \<Rightarrow> member_obj option \<Rightarrow> member_obj option" where
  "copied_member w rp mem mo =
     (case (mo, get_value w rp mem) of
        (Some (MO_value m), Inr v) \<Rightarrow> Some (MO_value (m\<lparr>vm_value := Some v, vm_flag := True\<rparr>))
      | _ \<Rightarrow> mo)"

definition copied_members ::
  "world \<Rightarrow> addr \<Rightarrow> string set \<Rightarrow> (string \<Rightarrow> member_obj option) \<Rightarrow> string \<Rightarrow> member_obj option" where
  "copied_members w rp names mems = (\<lambda>k. if k \<in> names then copied_member w rp k (mems k) else mems k)"

lemma copied_member_idem: "copied_member w rp mem (copied_member w rp mem mo) = copied_member w rp mem mo"
  by (auto simp: copied_member_def split: option.splits member_obj.splits sum.splits)

lemma get_value_put_obj: "lp \<noteq> rp \<Longrightarrow> get_value (put_obj lp ob w) rp mem = get_value w rp mem"
  by (simp add: get_value_def)

lemma copied_members_put_obj:
  "lp \<noteq> rp \<Longrightarrow> copied_members (put_obj lp ob w) rp names mems = copied_members w rp names mems"
  by (rule ext) (simp add: copied_members_def copied_member_def get_value_put_obj)

lemma table_ok_other: "table_ok w p ob \<Longrightarrow> table_ok (put_obj q x w) p ob"
  using table_ok_cong [of "put_obj q x w" w] by simp

text \<open>The assigned member with number \<open>s\<close> of a consistent object.\<close>

lemma assigned_member:
  assumes w: "w_objs w p = Some ob" and ok: "table_ok w p ob" and s: "s \<in> set (ob_seqset ob)"
  obtains mem t args m v where "cd_members (ob_class ob) ! unat s = MEMBER mem t args"
    and "member_name_at (ob_class ob) s = mem" and "unat s < length (cd_members (ob_class ob))"
    and "ys_at (get_yan_struct (w_reg w) (ob_class ob)) s = Inr (decl_info (MEMBER mem t args))"
    and "get_value w p mem = Inr v" and "YanType2Type t = Some (ctype_of v)" and "t \<noteq> YT_AUTO_INCREMENT"
proof -
  let ?c = "ob_class ob"
  have cr: "class_ready (w_reg w) ?c" and len: "unat s < length (cd_members ?c)"
    using ok s by (auto simp: table_ok_def)
  obtain mem t args m where m: "cd_members ?c ! unat s = MEMBER mem t args" "at_member w p ob mem t m"
    "value_member_ok p t (of_nat (unat s) \<in> set (ob_seqset ob)) m"
    by (rule table_ok_member [OF w ok len])
  from m(3) s obtain v where v: "vm_flag m" "vm_value m = Some v" "YanType2Type t = Some (ctype_of v)"
    "t \<noteq> YT_AUTO_INCREMENT" by (auto simp: value_member_ok_def)
  have "ys_at (get_yan_struct (w_reg w) ?c) s = Inr (decl_info (MEMBER mem t args))"
    using class_members_ready [OF cr] len m(1) by (simp add: ys_at_def class_members_def)
  moreover have "get_value w p mem = Inr v"
    using w m(2) v by (simp add: get_value_def at_member_def)
  ultimately show ?thesis using that [OF m(1) _ len] v m(1) by (simp add: member_name_at_def)
qed

lemma copy_values_run:
  assumes rp: "w_objs w rp = Some rob" "table_ok w rp rob" and neq: "lp \<noteq> rp"
    and lp: "w_objs w lp = Some lob"
    and mems: "\<forall>s \<in> set (ob_seqset rob). \<exists>m. ob_mems lob (member_name_at (ob_class rob) s) = Some (MO_value m)"
    and seqs: "set seqs \<subseteq> set (ob_seqset rob)"
  shows "copy_values (ob_class rob) lp rp seqs w =
    (put_obj lp (lob\<lparr>ob_mems := copied_members w rp (member_name_at (ob_class rob) ` set seqs) (ob_mems lob)\<rparr>) w, Inr ())"
  using assms
proof (induction seqs arbitrary: w lob)
  case Nil
  then have "put_obj lp lob w = w" by (simp add: put_obj_def fun_upd_idem)
  moreover have "copied_members w rp {} (ob_mems lob) = ob_mems lob" by (simp add: copied_members_def)
  ultimately show ?case by simp
next
  case (Cons s seqs)
  let ?c = "ob_class rob"
  from Cons.prems(6) have s: "s \<in> set (ob_seqset rob)" and ss: "set seqs \<subseteq> set (ob_seqset rob)" by auto
  obtain mem t args m v where m: "member_name_at ?c s = mem"
    "ys_at (get_yan_struct (w_reg w) ?c) s = Inr (decl_info (MEMBER mem t args))"
    "get_value w rp mem = Inr v" "YanType2Type t = Some (ctype_of v)"
    by (rule assigned_member [OF Cons.prems(1,2) s])
  from Cons.prems(5) s m(1) obtain lm where lm: "ob_mems lob mem = Some (MO_value lm)" by auto
  let ?lob = "put_mem mem (MO_value (lm\<lparr>vm_value := Some v, vm_flag := True\<rparr>)) lob"
  let ?w = "put_obj lp ?lob w"
  have set: "member_set_value v lp mem w = (?w, Inr ())"
    using Cons.prems(4) lm by (simp add: member_set_value_def with_obj_run modify_obj_run)
  have ob: "?lob\<lparr>ob_mems := X\<rparr> = lob\<lparr>ob_mems := X\<rparr>" for X by (simp add: put_mem_def)
  have "w_objs ?w rp = Some rob" "table_ok ?w rp rob" "w_objs ?w lp = Some ?lob"
    using Cons.prems(1-3) by (auto intro: table_ok_other)
  moreover have "\<forall>s \<in> set (ob_seqset rob). \<exists>m. ob_mems ?lob (member_name_at ?c s) = Some (MO_value m)"
    using Cons.prems(5) by auto
  ultimately have IH: "copy_values ?c lp rp seqs ?w =
      (put_obj lp (?lob\<lparr>ob_mems := copied_members ?w rp (member_name_at ?c ` set seqs) (ob_mems ?lob)\<rparr>) ?w, Inr ())"
    by (intro Cons.IH [OF _ _ Cons.prems(3) _ _ ss]) auto
  have step: "copied_members w rp (member_name_at ?c ` set seqs) (ob_mems ?lob) =
      copied_members w rp (member_name_at ?c ` set (s # seqs)) (ob_mems lob)"
    by (rule ext) (use m(1,3) lm in \<open>auto simp: copied_members_def copied_member_def\<close>)
  have ty: "copy_values ?c lp rp (s # seqs) w =
      bindS (member_set_value v lp mem) (\<lambda>_. copy_values ?c lp rp seqs) w"
    using m(2-4) by (cases t) simp_all
  show ?case
    unfolding ty using step by (simp add: bindS_apply set IH copied_members_put_obj [OF Cons.prems(3)] ob)
qed

lemma fold_sset_insert:
  "sset xs \<Longrightarrow> fold sset_insert xs [] = xs"
proof -
  assume xs: "sset xs"
  have "sset (fold sset_insert ys acc) \<and> set (fold sset_insert ys acc) = set ys \<union> set acc" if "sset acc"
    for ys acc :: "'a list"
    using that by (induction ys arbitrary: acc) auto
  from this [of "[]" xs] xs show ?thesis by (intro sset_unique) auto
qed

text \<open>The object that \<open>UpdateCondImpl\<close> constructs, as the snapshot finds it.\<close>

definition empty_object :: "world \<Rightarrow> addr \<Rightarrow> class_decl \<Rightarrow> yan_obj \<Rightarrow> bool" where
  "empty_object w p c ob \<longleftrightarrow>
     w_objs w p = Some ob \<and> table_ok w p ob \<and> ob_class ob = c \<and> ob_seqset ob = [] \<and> ob_conds ob = None"

lemma copied_object_ok:
  assumes rp: "w_objs w rp = Some rob" "table_ok w rp rob"
    and lp: "empty_object w lp (ob_class rob) lob"
  shows "table_ok w lp (lob\<lparr>ob_seqset := ob_seqset rob,
    ob_mems := copied_members w rp (member_name_at (ob_class rob) ` set (ob_seqset rob)) (ob_mems lob)\<rparr>)"
    (is "table_ok w lp ?ob")
proof -
  let ?c = "ob_class rob" and ?S = "ob_seqset rob"
  have c: "ob_class lob = ?c" and lok: "table_ok w lp lob" and empty: "ob_seqset lob = []" "ob_conds lob = None"
    using lp by (auto simp: empty_object_def)
  have len: "length (cd_members ?c) \<le> 65536" using rp(2) by (rule table_ok_length)
  have dist: "distinct (map member_decl_name (cd_members ?c))"
    using rp(2) by (simp add: table_ok_def class_ready_def)
  have mems: "\<exists>mem t args m. cd_members ?c ! i = MEMBER mem t args \<and> ob_mems ?ob mem = Some (MO_value m) \<and>
      value_member_ok lp t (of_nat i \<in> set ?S) m" if i: "i < length (cd_members ?c)" for i
  proof -
    have w: "w_objs w lp = Some lob" using lp by (simp add: empty_object_def)
    have il: "i < length (cd_members (ob_class lob))" using i c by simp
    obtain mem t args m where m: "cd_members ?c ! i = MEMBER mem t args" "at_member w lp lob mem t m"
      "value_member_ok lp t False m"
      using table_ok_member [OF w lok il] c empty(1) by (metis empty_iff list.set(1))
    have mo: "ob_mems lob mem = Some (MO_value m)" using m(2) by (simp add: at_member_def)
    have name: "member_name_at ?c (of_nat i) = mem"
      using i len m(1) by (simp add: member_name_at_def unat_of_nat16)
    have inS: "mem \<in> member_name_at ?c ` set ?S \<longleftrightarrow> of_nat i \<in> set ?S"
    proof
      assume "mem \<in> member_name_at ?c ` set ?S"
      then obtain s where s: "s \<in> set ?S" "member_name_at ?c s = mem" by auto
      from s(1) rp(2) have "unat s < length (cd_members ?c)" by (simp add: table_ok_def)
      with s(2) m(1) i dist have "unat s = i"
        by (metis distinct_conv_nth length_map member_decl_name.simps(1) member_name_at_def nth_map)
      then have "s = of_nat i" by auto
      with s(1) show "of_nat i \<in> set ?S" by simp
    qed (use name in force)
    show ?thesis
    proof (cases "of_nat i \<in> set ?S")
      case True
      obtain mem' t' args' v where v: "cd_members ?c ! unat (of_nat i :: 16 word) = MEMBER mem' t' args'"
        "get_value w rp mem' = Inr v" "YanType2Type t' = Some (ctype_of v)" "t' \<noteq> YT_AUTO_INCREMENT"
        by (rule assigned_member [OF rp True])
      with m(1) i len have "mem' = mem" "t' = t" by (simp_all add: unat_of_nat16)
      with v(2-4) m(3) True inS mo m(1) show ?thesis
        by (auto simp: copied_members_def copied_member_def value_member_ok_def)
    next
      case False
      with inS mo m(1,3) show ?thesis by (auto simp: copied_members_def)
    qed
  qed
  have par: "obj_params w ?ob = obj_params w lob" by (simp add: obj_params_def)
  show ?thesis
    using lok rp(2) mems par unfolding table_ok_def c by (simp add: empty(2) c)
qed

lemma copied_row:
  assumes rp: "w_objs w rp = Some rob" "table_ok w rp rob" and neq: "lp \<noteq> rp"
    and lp: "empty_object w lp (ob_class rob) lob"
  defines "lob' \<equiv> lob\<lparr>ob_seqset := ob_seqset rob,
    ob_mems := copied_members w rp (member_name_at (ob_class rob) ` set (ob_seqset rob)) (ob_mems lob)\<rparr>"
  shows "row_of (put_obj lp lob' w) lp = row_of w rp"
proof -
  let ?c = "ob_class rob" and ?w = "put_obj lp lob' w"
  have c: "ob_class lob = ?c" and lok: "table_ok w lp lob" and wl: "w_objs w lp = Some lob"
    using lp by (auto simp: empty_object_def)
  have cm: "class_members ?w ?c = class_members w ?c" by (simp add: class_members_def)
  have c': "ob_class lob' = ?c" by (simp add: lob'_def c)
  have "row_item ?w lp lob' s = row_item w rp rob s" if s: "s \<in> set (ob_seqset rob)" for s
  proof -
    obtain mem t args v where m: "cd_members ?c ! unat s = MEMBER mem t args" "member_name_at ?c s = mem"
      "unat s < length (cd_members ?c)" "get_value w rp mem = Inr v"
      by (rule assigned_member [OF rp s])
    have cr: "class_ready (w_reg w) ?c" using rp(2) by (simp add: table_ok_def)
    have info: "class_members w ?c ! unat s = decl_info (MEMBER mem t args)"
      using class_members_ready [OF cr] m(1,3) by simp
    have "unat s < length (cd_members (ob_class lob))" using m(3) c by simp
    from table_ok_member [OF wl lok this] m(1) c obtain lm where "at_member w lp lob mem t lm" by auto
    then have "ob_mems lob mem = Some (MO_value lm)" by (simp add: at_member_def)
    then have "get_value ?w lp mem = Inr v"
      using m(2,4) s by (auto simp: get_value_def [of "put_obj lp x w" for x] lob'_def copied_members_def
          copied_member_def)
    then show ?thesis
      using info m(4) c' by (simp add: row_item_def Let_def cm)
  qed
  then show ?thesis using rp(1) neq by (simp add: row_of_def lob'_def)
qed

lemma copy_refobj_snapshot_run:
  assumes "w_objs w rp = Some rob" and "table_ok w rp rob" and "uc_lco uc \<noteq> rp"
    and "empty_object w (uc_lco uc) (ob_class rob) lob"
  shows "\<exists>w' uc' lob'. copy_refobj (ob_class rob) rp uc w = (w', Inr uc') \<and>
    w' = put_obj (uc_lco uc) lob' w \<and> ob_conds lob' = None \<and>
    w_objs w' (uc_lco uc) = Some lob' \<and> table_ok w' (uc_lco uc) lob' \<and> ob_class lob' = ob_class rob \<and>
    ob_seqset lob' = ob_seqset rob \<and> row_of w' (uc_lco uc) = row_of w rp \<and>
    w_objs w' rp = Some rob \<and> rc_cys uc' = Some (ob_class rob) \<and> uc_laddr uc' = Some (uc_lco uc) \<and>
    rc_params uc' = ob_conds rob \<and> rc_hash uc' = ob_hashv rob \<and> uc_lco uc' = uc_lco uc \<and> rc_ret uc' = rc_ret uc"
proof -
  let ?lp = "uc_lco uc" and ?c = "ob_class rob" and ?S = "ob_seqset rob"
  let ?uc = "uc\<lparr>rc_cys := Some ?c, uc_laddr := Some ?lp, rc_hash := ob_hashv rob, rc_params := ob_conds rob\<rparr>"
  let ?names = "member_name_at ?c ` set ?S"
  let ?lob1 = "lob\<lparr>ob_seqset := ?S\<rparr>"
  let ?lob2 = "lob\<lparr>ob_seqset := ?S, ob_mems := copied_members w rp ?names (ob_mems lob)\<rparr>"
  let ?w1 = "put_obj ?lp ?lob1 w" and ?w2 = "put_obj ?lp ?lob2 w"
  have lp: "w_objs w ?lp = Some lob" and c: "ob_class lob = ?c" and e: "ob_seqset lob = []"
    and lok: "table_ok w ?lp lob" and conds: "ob_conds lob = None"
    using assms(4) by (auto simp: empty_object_def)
  have ss: "sset ?S" using assms(2) by (simp add: table_ok_def)
  have run: "copy_refobj ?c rp uc w = (?w2, Inr ?uc)"
  proof (cases "?S = []")
    case True
    then have "?lob2 = lob" using e by (simp add: copied_members_def)
    moreover from lp have "put_obj ?lp lob w = w" by (simp add: put_obj_def fun_upd_idem)
    ultimately show ?thesis
      using True by (simp add: copy_refobj_def with_obj_run [OF assms(1)] Let_def)
  next
    case False
    have seqs: "copy_seqs ?lp ?S w = (?w1, Inr ())"
      by (simp add: copy_seqs_def modify_obj_run [OF lp] e fold_sset_insert [OF ss])
    have "\<forall>s \<in> set ?S. \<exists>m. ob_mems ?lob1 (member_name_at ?c s) = Some (MO_value m)"
    proof
      fix s assume s: "s \<in> set ?S"
      obtain mem t args where m: "cd_members ?c ! unat s = MEMBER mem t args" "member_name_at ?c s = mem"
        "unat s < length (cd_members ?c)" by (rule assigned_member [OF assms(1,2) s])
      then have "unat s < length (cd_members (ob_class lob))" using c by simp
      from table_ok_member [OF lp lok this] m(1,2) c
      show "\<exists>m. ob_mems ?lob1 (member_name_at ?c s) = Some (MO_value m)" by (auto simp: at_member_def)
    qed
    moreover have "w_objs ?w1 rp = Some rob" "table_ok ?w1 rp rob" "w_objs ?w1 ?lp = Some ?lob1"
      using assms(1-3) by (auto intro: table_ok_other)
    ultimately have vals: "copy_values ?c ?lp rp ?S ?w1 =
        (put_obj ?lp (?lob1\<lparr>ob_mems := copied_members ?w1 rp ?names (ob_mems ?lob1)\<rparr>) ?w1, Inr ())"
      by (intro copy_values_run [OF _ _ assms(3)]) auto
    show ?thesis
      using False by (simp add: copy_refobj_def with_obj_run [OF assms(1)] Let_def bindS_apply seqs vals
          copied_members_put_obj [OF assms(3)])
  qed
  have "table_ok ?w2 ?lp ?lob2"
    using copied_object_ok [OF assms(1,2,4)] by (rule table_ok_put_obj)
  moreover have "row_of ?w2 ?lp = row_of w rp" by (rule copied_row [OF assms(1-4)])
  ultimately show ?thesis
    using run assms(1,3) c conds by (intro exI [of _ ?w2] exI [of _ ?uc] exI [of _ ?lob2]) simp
qed

text \<open>
  \<open>copy_refobj\<close> on a consistent object succeeds; the condition gets the object's hash text and
  shares its parameter list, and its own object becomes a consistent object with the same assigned
  members and the same values, so that the request no longer depends on later assignments to the
  user's object.
\<close>

theorem copy_refobj_snapshot:
  assumes "w_objs w rp = Some rob" and "table_ok w rp rob" and "uc_lco uc \<noteq> rp"
    and "empty_object w (uc_lco uc) (ob_class rob) lob"
  shows "\<exists>w' uc' lob'. copy_refobj (ob_class rob) rp uc w = (w', Inr uc') \<and>
    w_objs w' (uc_lco uc) = Some lob' \<and> table_ok w' (uc_lco uc) lob' \<and> ob_class lob' = ob_class rob \<and>
    ob_seqset lob' = ob_seqset rob \<and> row_of w' (uc_lco uc) = row_of w rp \<and>
    w_objs w' rp = Some rob \<and> rc_cys uc' = Some (ob_class rob) \<and> uc_laddr uc' = Some (uc_lco uc) \<and>
    rc_params uc' = ob_conds rob \<and> rc_hash uc' = ob_hashv rob"
  using copy_refobj_snapshot_run [OF assms] by blast

section \<open>UPDATE and DELETE\<close>

lemma append_value_fields:
  assumes "rc_cys uc = Some (ob_class ob)" and "uc_laddr uc = Some p" and w: "w_objs w p = Some ob"
    and ok: "table_ok w p ob"
  shows "append_value 1 field_ops raw_size w ctx uc =
    (if ob_seqset ob = [] then Inl no_update_values_error
     else bindE (loop_ignore field_step ctx (row_of w p)) (\<lambda>ctx. Inr (0, ctx)))"
proof -
  have "loop_ignore (\<lambda>obj seq. bindE (in_ops field_ops obj (ys_at (get_yan_struct (w_reg w) (ob_class ob)) seq))
      (\<lambda>info. handle_info 1 field_ops raw_size w obj p info)) ctx (ob_seqset ob) =
    loop_ignore field_step ctx (row_of w p)"
    unfolding assigned_members_loop [OF w ok] by (rule loop_ignore_cong) (simp add: field_step_def)
  then show ?thesis using assms(1-3) by (simp add: append_value_def uc_get_seqs_def seqs_of_def del: One_nat_def)
qed

lemma fields_run:
  "\<exists>ctx'. loop_ignore field_step ctx rows = Inr ctx' \<and>
     fc_fields ctx' = fc_fields ctx @ (if fc_first ctx \<or> rows = [] then '''' else '', '') @
       join_with '', '' (map (\<lambda>i. fst i @ '' = ?'') rows)"
proof -
  have "all_ok (\<lambda>_ _. True) (fc_first ctx) rows" by simp
  from set_fields.loop_ret_ok [OF this] show ?thesis
    by (auto simp: set_fields.loop_ignore_eq emit_uniform)
qed

definition update_text :: "string \<Rightarrow> row_item list \<Rightarrow> string" where
  "update_text name row = ''UPDATE '' @ name @ '' SET '' @ join_with '', '' (map (\<lambda>i. fst i @ '' = ?'') row)"

text \<open>An update request whose snapshot is consistent and whose conditions come from its class.\<close>

definition update_request_ok :: "world \<Rightarrow> update_cond \<Rightarrow> addr \<Rightarrow> yan_obj \<Rightarrow> bool" where
  "update_request_ok w uc p ob \<longleftrightarrow>
     rc_cys uc = Some (ob_class ob) \<and> uc_laddr uc = Some p \<and> w_objs w p = Some ob \<and> table_ok w p ob \<and>
     (has_cond (read_cond.truncate uc) \<longrightarrow>
        (\<exists>ps. conds_of w (read_cond.truncate uc) (ob_class ob) ps \<and> first_is_field ps))"

lemma where_after:
  assumes "has_cond rc" and "conds_of w rc c ps" and "first_is_field ps"
  shows "\<exists>ctx. query_where w err rc (query_ctx0\<lparr>qc_sql := s @ '' WHERE ''\<rparr>) = Inr ctx \<and>
    qc_sql ctx = s @ where_clause w rc"
proof -
  let ?ctx = "query_ctx0\<lparr>qc_sql := s @ '' WHERE ''\<rparr>"
  have q: "qc_cond_first ?ctx" "qc_sql ?ctx = s @ '' WHERE ''" by (simp_all add: query_ctx0_def)
  from query_where_ok [OF assms(2), of ?ctx err] assms(3) obtain ctx where
    "query_where w err rc ?ctx = Inr ctx"
    "qc_sql ctx = s @ '' WHERE '' @ where_text (class_members w c) ps"
    using q by (auto simp: where_text_def)
  with conds_of_unique [OF assms(2)] assms(1) show ?thesis by (auto simp: where_clause_def)
qed

lemma update_make_text_run:
  assumes "update_request_ok w uc p ob"
  shows "(ob_seqset ob \<noteq> [] \<longrightarrow> update_make raw_size w uc =
      Inr (update_text (class_name w (ob_class ob)) (row_of w p) @ where_clause w (read_cond.truncate uc))) \<and>
    (ob_seqset ob = [] \<longrightarrow> update_make raw_size w uc = Inl no_update_values_error)"
proof -
  let ?rc = "read_cond.truncate uc" and ?name = "class_name w (ob_class ob)"
  have cys: "rc_cys uc = Some (ob_class ob)" and p: "uc_laddr uc = Some p" and w: "w_objs w p = Some ob"
    and ok: "table_ok w p ob"
    using assms by (simp_all add: update_request_ok_def)
  have name: "rc_get_obj_name w ?rc = Inr ?name"
    using cys by (simp add: rc_get_obj_name_def read_cond.truncate_def)
  let ?f0 = "field_ctx0\<lparr>fc_fields := ''UPDATE '' @ ?name @ '' SET ''\<rparr>"
  note app = append_value_fields [OF cys p w ok, of raw_size ?f0]
  show ?thesis
  proof (cases "ob_seqset ob = []")
    case True
    with app show ?thesis by (simp add: update_make_def name)
  next
    case False
    from fields_run [of ?f0 "row_of w p"] obtain fctx where
      f: "loop_ignore field_step ?f0 (row_of w p) = Inr fctx"
        "fc_fields fctx = update_text ?name (row_of w p)"
      by (auto simp: update_text_def field_ctx0_def)
    show ?thesis
    proof (cases "has_cond ?rc")
      case False
      with f app \<open>ob_seqset ob \<noteq> []\<close> show ?thesis by (simp add: update_make_def name where_clause_def)
    next
      case True
      with assms obtain ps where ps: "conds_of w ?rc (ob_class ob) ps" "first_is_field ps"
        by (auto simp: update_request_ok_def)
      from where_after [OF True ps] obtain ctx where
        "query_where w ''sqlite append condition for update sql failed: '' ?rc
           (query_ctx0\<lparr>qc_sql := fc_fields fctx @ '' WHERE ''\<rparr>) = Inr ctx"
        "qc_sql ctx = fc_fields fctx @ where_clause w ?rc" by blast
      with True f app \<open>ob_seqset ob \<noteq> []\<close> show ?thesis by (simp add: update_make_def name)
    qed
  qed
qed

text \<open>
  The update text sets exactly the members assigned in the snapshot, one placeholder each, in
  ascending order of their numbers, and then states the conditions; without an assigned member the
  builder throws.
\<close>

theorem update_make_text:
  assumes "update_request_ok w uc p ob"
  shows "(ob_seqset ob \<noteq> [] \<longrightarrow> update_make raw_size w uc =
      Inr (update_text (class_name w (ob_class ob)) (row_of w p) @ where_clause w (read_cond.truncate uc))) \<and>
    (ob_seqset ob = [] \<longrightarrow> update_make raw_size w uc = Inl no_update_values_error)"
  using assms by (rule update_make_text_run)

text \<open>
  The delete text names the table of the request and states its conditions in the order they were
  given; without conditions every row is deleted.
\<close>

theorem delete_make_text:
  assumes "rc_cys rc = Some c" and "has_cond rc \<longrightarrow> (\<exists>ps. conds_of w rc c ps \<and> first_is_field ps)"
  shows "delete_make w rc = Inr (''DELETE FROM '' @ class_name w c @ where_clause w rc)"
proof (cases "has_cond rc")
  case False
  with assms(1) show ?thesis by (simp add: delete_make_def rc_get_obj_name_def where_clause_def)
next
  case True
  with assms(2) obtain ps where "conds_of w rc c ps" "first_is_field ps" by blast
  from where_after [OF True this, of "''sqlite append condition for delete sql failed: ''"
      "''DELETE FROM '' @ class_name w c"] obtain ctx where
    "query_where w ''sqlite append condition for delete sql failed: '' rc
       (query_ctx0\<lparr>qc_sql := ''DELETE FROM '' @ class_name w c @ '' WHERE ''\<rparr>) = Inr ctx"
    "qc_sql ctx = ''DELETE FROM '' @ class_name w c @ where_clause w rc" by auto
  with True assms(1) show ?thesis by (simp add: delete_make_def rc_get_obj_name_def)
qed

section \<open>Concrete requests\<close>

text \<open>
  The request \<open>update\<close> of the object at address 0 with its snapshot at address 2, and the read of the
  object at address 5.
\<close>

definition sample_update :: update_cond where
  "sample_update = \<lparr>rc_ret = Ret_class ComponentDB, rc_cys = None, rc_params = None, rc_hash = '''',
                    uc_laddr = None, uc_lco = 2\<rparr>"

definition sample_read :: "ret_type \<Rightarrow> read_cond" where
  "sample_read ret = \<lparr>rc_ret = ret, rc_cys = Some MaintainDB, rc_params = Some 6,
                      rc_hash = concat (map hash_entry sample_conds5)\<rparr>"

lemma base_member_info_simps [simp]:
  "mi_type (base_member_info n t a) = t" "mi_name (base_member_info n t a) = n"
  "mi_alias (base_member_info n t a) = a" "mi_from (base_member_info n t a) = None"
  "mi_length (base_member_info n t a) = LEAST_TABLE_FIELD_CHAR_LENGTH" "mi_can_be_null (base_member_info n t a) = False"
  by (simp_all add: base_member_info_def)

lemma sample_conds_of: "conds_of sample_world (sample_read ret) MaintainDB sample_conds5"
  by (simp add: conds_of_def sample_read_def rc_param_list_def)

lemma sample_first: "first_is_field sample_conds5" "first_is_field sample_conds0"
  by (simp_all add: first_is_field_def sample_conds5_def sample_conds0_def make_param_def field_cond_def)

lemma sample_class_names [simp]:
  "class_name sample_world ComponentDB = ''tc''" "class_name sample_world MaintainDB = ''tm''"
  by (simp_all add: class_name_def get_yan_struct_def get_class_state_def sample_reg_def sample_state_def
      ComponentDB_def MaintainDB_def ys_get_name_def)

lemma sample_class_members:
  "class_members sample_world ComponentDB = map decl_info (cd_members ComponentDB)"
  "class_members sample_world MaintainDB = map decl_info (cd_members MaintainDB)"
  by (simp_all add: class_members_ready)

lemma sample_class_members_ne [simp]:
  "class_members sample_world ComponentDB \<noteq> []" "class_members sample_world MaintainDB \<noteq> []"
  using sample_members(4,5) by (auto simp: sample_class_members)

lemma sample_where: "where_clause sample_world (sample_read ret) = '' WHERE d > ? ORDER BY p''"
proof -
  have "where_text (map decl_info (cd_members MaintainDB)) sample_conds5 = ''d > ? ORDER BY p''"
    by (simp add: where_text_def sample_conds5_def cond_item_of_def make_param_def MaintainDB_def field_cond_def
        mi_get_name_def base_member_info_def)
  then show ?thesis
    using conds_of_unique [OF sample_conds_of [of ret]]
    by (simp add: where_clause_def sample_class_members)
qed

lemma sample_request_ok: "read_request_ok sample_world (sample_read ret)" if "ret = Ret_int64 \<or> ret = Ret_class MaintainDB"
proof -
  have "from_name sample_world m = ''''" if "m \<in> set (class_members sample_world MaintainDB)" for m
    using that unfolding sample_class_members
    by (auto simp: MaintainDB_def from_name_def base_member_info_def CAN_BE_NULL_def)
  then have "ret_ok sample_world (sample_read ret)"
    using that by (auto simp: ret_ok_def sample_read_def COUNT_FIELD_def)
  with sample_conds_of [of ret] sample_first(1) show ?thesis by (auto simp: read_request_ok_def)
qed

lemma query_ctx0_simps [simp]: "qc_ret_first query_ctx0" "qc_cond_first query_ctx0" "qc_sql query_ctx0 = ''''"
  by (simp_all add: query_ctx0_def)

lemma sample_select:
  "select_text sample_world (sample_read (Ret_class MaintainDB)) = ''SELECT * FROM tm WHERE d > ? ORDER BY p''"
  "select_text sample_world (sample_read Ret_int64) = ''SELECT COUNT(n) FROM tm WHERE d > ? ORDER BY p''"
proof -
  have n: "find (\<lambda>m. mi_type m \<noteq> YT_AUTO_INCREMENT) (map decl_info (cd_members MaintainDB)) =
      Some (decl_info (MEMBER ''name'' YT_STRING (Args1 ''n'')))"
    by (simp add: MaintainDB_def base_member_info_def)
  show "select_text sample_world (sample_read (Ret_class MaintainDB)) = ''SELECT * FROM tm WHERE d > ? ORDER BY p''"
    by (simp add: select_text_def sample_where) (simp add: sample_read_def ret_columns_text_def table_of_def)
  show "select_text sample_world (sample_read Ret_int64) = ''SELECT COUNT(n) FROM tm WHERE d > ? ORDER BY p''"
    by (simp add: select_text_def sample_where)
      (simp add: sample_read_def ret_columns_text_def table_of_def sample_class_members n mi_get_name_def base_member_info_def)
qed

theorem table_make_text_witness:
  "class_ready sample_reg ComponentDB \<and>
   table_make sample_world ComponentDB = Inr (''CREATE TABLE IF NOT EXISTS tc (id INTEGER PRIMARY_KEY AUTO_INCREMENT, '' @
     ''c CHAR(32) NOT NULL, n CHAR(32) NOT NULL, v CHAR(32) NOT NULL, h CHAR(32) NOT NULL) '')"
proof -
  have cols: "columns_of ComponentDB = map decl_info (cd_members ComponentDB)"
    by (simp add: columns_of_def ComponentDB_def)
  have "string_of_int 32 = ''32''" by (simp add: string_of_int_def string_of_nat.simps)
  then have d: "map column_def (map decl_info (cd_members ComponentDB)) =
      [Some ''id INTEGER PRIMARY_KEY AUTO_INCREMENT'', Some ''c CHAR(32) NOT NULL'', Some ''n CHAR(32) NOT NULL'',
       Some ''v CHAR(32) NOT NULL'', Some ''h CHAR(32) NOT NULL'']"
    by (simp add: ComponentDB_def column_def_def base_member_info_def mi_get_name_def null_text_def
        LEAST_TABLE_FIELD_CHAR_LENGTH_def)
  have "None \<notin> set (map column_def (columns_of ComponentDB))" unfolding cols d by simp
  then have "\<forall>m \<in> set (columns_of ComponentDB). column_def m \<noteq> None"
    by (metis image_eqI list.set_map)
  moreover have "map the (map column_def (columns_of ComponentDB)) =
      [''id INTEGER PRIMARY_KEY AUTO_INCREMENT'', ''c CHAR(32) NOT NULL'', ''n CHAR(32) NOT NULL'',
       ''v CHAR(32) NOT NULL'', ''h CHAR(32) NOT NULL'']"
    unfolding cols d by simp
  then have "map (\<lambda>m. the (column_def m)) (columns_of ComponentDB) =
      [''id INTEGER PRIMARY_KEY AUTO_INCREMENT'', ''c CHAR(32) NOT NULL'', ''n CHAR(32) NOT NULL'',
       ''v CHAR(32) NOT NULL'', ''h CHAR(32) NOT NULL'']"
    unfolding map_map o_def .
  moreover have "columns_of ComponentDB \<noteq> []" using sample_members(4) by (auto simp: cols)
  moreover have "class_ready (w_reg sample_world) ComponentDB" by simp
  ultimately show ?thesis using table_make_text [of sample_world ComponentDB] by simp
qed


theorem union_make_text_witness:
  "\<exists>ctx. union_make [sample_read (Ret_class MaintainDB), sample_read Ret_int64] query_ctx0 sample_world =
       (sample_world, Inr ctx) \<and>
     qc_sql ctx = ''SELECT * FROM tm WHERE d > ? ORDER BY p UNION SELECT COUNT(n) FROM tm WHERE d > ? ORDER BY p''"
  using union_make_text [of "[sample_read (Ret_class MaintainDB), sample_read Ret_int64]" sample_world]
  by (simp add: sample_request_ok sample_select)

lemma sample_rows:
  "row_of sample_world 0 = [(''v'', V_string ''v5.6'')]"
  "row_of sample_world 3 = [(''n'', V_string ''etcd''), (''v'', V_string ''v1'')]"
  "row_of sample_world 4 = [(''v'', V_string ''v2'')]"
proof -
  have info: "class_members sample_world ComponentDB ! 2 = decl_info (MEMBER ''name'' YT_STRING (Args1 ''n''))"
    "class_members sample_world ComponentDB ! 3 = decl_info (MEMBER ''version'' YT_STRING (Args1 ''v''))"
    unfolding sample_class_members by (simp_all add: ComponentDB_def)
  have v: "get_value sample_world 0 ''version'' = Inr (V_string ''v5.6'')"
    "get_value sample_world 3 ''name'' = Inr (V_string ''etcd'')"
    "get_value sample_world 3 ''version'' = Inr (V_string ''v1'')"
    "get_value sample_world 4 ''version'' = Inr (V_string ''v2'')"
    by (simp_all add: get_value_def sample_obj_def sample_object_with_def with_conds_def sample_decl_type)
  show "row_of sample_world 0 = [(''v'', V_string ''v5.6'')]"
    "row_of sample_world 3 = [(''n'', V_string ''etcd''), (''v'', V_string ''v1'')]"
    "row_of sample_world 4 = [(''v'', V_string ''v2'')]"
    by (simp_all add: row_of_def row_item_def info v mi_get_name_def)
qed

theorem insert_make_text_witness:
  "\<exists>ctx. insert_make (\<lambda>_. 0) sample_world ComponentDB 3 insert_ctx0 =
     Inr (''INSERT INTO tc (n, v) VALUES ('' @ [CHR 0x27] @ ''etcd'' @ [CHR 0x27] @ '', '' @
          [CHR 0x27] @ ''v1'' @ [CHR 0x27] @ '')'', ctx)"
  using insert_make_text [of sample_world 3 "sample_obj 3" "\<lambda>_. 0"]
  by (simp add: insert_text_def sample_rows)

text \<open>Two rows with different assigned members: two columns, but one value in the second row.\<close>

theorem insert_make_rows_text_witness:
  "\<exists>ctx. insert_make_rows (\<lambda>_. 0) sample_world ComponentDB [3, 4] insert_ctx0 =
     Inr (''INSERT INTO tc (n, v) VALUES ('' @ [CHR 0x27] @ ''etcd'' @ [CHR 0x27] @ '', '' @
          [CHR 0x27] @ ''v1'' @ [CHR 0x27] @ ''), ('' @ [CHR 0x27] @ ''v2'' @ [CHR 0x27] @ '')'', ctx)"
  using insert_make_rows_text [of sample_world 3 "sample_obj 3" "[4]" "\<lambda>_. 0"]
  by (simp add: insert_text_def values_text_def sample_rows)

lemma sample_cond_request: "cond_request_ok sample_world (sample_read ret)"
  using sample_conds_of by (force simp: cond_request_ok_def sample_conds5_def)

lemma sample_join_request:
  "join_request_ok sample_world (ReadCondImpl (Ret_class ComponentDB)) [sample_read Ret_int64]"
  using sample_cond_request [of Ret_int64] conds_of_unique [OF sample_conds_of [of Ret_int64]] sample_first(1)
  by (simp add: join_request_ok_def ReadCondImpl_def)

lemma sample_columns: "column_list sample_world (ReadCondImpl (Ret_class ComponentDB)) = ''id, c, n, v, h''"
  by (simp add: column_list_def ReadCondImpl_def sample_class_members)
    (simp add: ComponentDB_def column_of_def from_name_def mi_get_name_def)

lemma sample_where_all: "where_all_text sample_world [sample_read Ret_int64] = '' WHERE d > ? ORDER BY p''"
  using sample_where [of Ret_int64] conds_of_unique [OF sample_conds_of [of Ret_int64]]
  by (simp add: where_clause_def where_all_text_def all_items_def where_text_def)


theorem copy_make_text_witness:
  "\<exists>ctx. copy_make [jc_append MaintainDB []] (ReadCondImpl (Ret_class ComponentDB)) [sample_read Ret_int64]
       query_ctx0 sample_world = (sample_world, Inr ctx) \<and>
     qc_sql ctx = ''INSERT INTO tc (id, c, n, v, h) SELECT id, c, n, v, h FROM tm WHERE d > ? ORDER BY p''"
  using copy_make_text [OF sample_join_request, of "jc_append MaintainDB []"]
  by (simp add: sample_columns sample_where_all jc_append_def jc_get_obj_name_def) (simp add: ReadCondImpl_def)

lemma sample_empty: "empty_object sample_world 2 ComponentDB (sample_obj 2)"
  by (simp add: empty_object_def)

theorem copy_refobj_snapshot_witness:
  "\<exists>w' uc' lob'. copy_refobj ComponentDB 0 sample_update sample_world = (w', Inr uc') \<and>
     w_objs w' 2 = Some lob' \<and> table_ok w' 2 lob' \<and> row_of w' 2 = [(''v'', V_string ''v5.6'')] \<and>
     rc_params uc' = Some 1"
  using copy_refobj_snapshot [of sample_world 0 "sample_obj 0" sample_update "sample_obj 2"]
  by (auto simp: sample_update_def sample_empty sample_rows)

text \<open>The update request that the snapshot yields for the object at 3, with a condition on its class.\<close>

definition sample_update3 :: update_cond where
  "sample_update3 = \<lparr>rc_ret = Ret_class ComponentDB, rc_cys = Some ComponentDB, rc_params = Some 1,
     rc_hash = concat (map hash_entry sample_conds0), uc_laddr = Some 3, uc_lco = 3\<rparr>"

lemma sample_update3_ok: "update_request_ok sample_world sample_update3 3 (sample_obj 3)"
  by (simp add: update_request_ok_def sample_update3_def conds_of_def rc_param_list_def read_cond.truncate_def
      sample_first)

theorem update_make_text_witness:
  "update_make (\<lambda>_. 0) sample_world sample_update3 = Inr ''UPDATE tc SET n = ?, v = ? WHERE n == ?''"
proof -
  have w: "where_clause sample_world (read_cond.truncate sample_update3) = '' WHERE n == ?''"
    by (simp add: where_clause_def sample_update3_def read_cond.truncate_def has_cond_def params_of_def
        rc_param_list_def sample_class_members where_text_def sample_conds0_def)
      (simp add: cond_item_of_def make_param_def ComponentDB_def field_cond_def mi_get_name_def)
  from update_make_text [OF sample_update3_ok, of "\<lambda>_. 0"] show ?thesis
    by (simp add: w update_text_def sample_rows)
qed

theorem delete_make_text_witness:
  "delete_make sample_world (sample_read Ret_int64) = Inr ''DELETE FROM tm WHERE d > ? ORDER BY p''"
proof -
  have "rc_cys (sample_read Ret_int64) = Some MaintainDB" by (simp add: sample_read_def)
  from delete_make_text [OF this, of sample_world] sample_conds_of [of Ret_int64] sample_first(1)
  show ?thesis by (auto simp: sample_where)
qed

theorem leading_order_is_refused_witness:
  "delete_make (sample_world\<lparr>w_plists := [6 \<mapsto> tl sample_conds5]\<rparr>) (sample_read Ret_int64) = Inl first_cond_error"
proof -
  let ?w = "sample_world\<lparr>w_plists := [6 \<mapsto> tl sample_conds5]\<rparr>"
  have "conds_of ?w (sample_read Ret_int64) MaintainDB (tl sample_conds5)"
    using sample_param_of_class(2)
    by (auto simp: conds_of_def sample_read_def rc_param_list_def sample_conds5_def)
  moreover have "tl sample_conds5 \<noteq> []" "\<not> first_is_field (tl sample_conds5)"
    by (simp_all add: sample_conds5_def first_is_field_def make_param_def field_cond_def)
  ultimately show ?thesis using leading_order_is_refused by blast
qed

end
