(* ===== verification/Yan_Bind.thy ===== *)
theory Yan_Bind
  imports Yan_Sql_Update
begin

text \<open>
  Parameters and rows of prepared statements: \<open>BindSqlParam\<close> (\<open>src/sqlite/sqlite_readref.h\<close>) and
  \<open>FetchSqlResult\<close> (\<open>src/sqlite/sqlite_writeref.h\<close>).  The SQLite library is the record \<open>sqlite_api\<close> of its
  functions on an opaque state \<open>'db\<close>; nothing is assumed about them, except in the properties that
  name a documented behaviour as a hypothesis.
\<close>

section \<open>The library interface\<close>

text \<open>A statement pointer; \<open>None\<close> is the null pointer, which \<open>sqlite3_prepare_v2\<close> yields for empty text.\<close>

type_synonym stmt = "nat option"

record 'db sqlite_api =
  sq_prepare :: "string \<Rightarrow> 'db \<Rightarrow> (int \<times> stmt) \<times> 'db"
  sq_exec :: "string \<Rightarrow> 'db \<Rightarrow> int \<times> 'db"
  sq_bind_text :: "stmt \<Rightarrow> int \<Rightarrow> string \<Rightarrow> 'db \<Rightarrow> int \<times> 'db"
  sq_bind_int :: "stmt \<Rightarrow> int \<Rightarrow> 32 word \<Rightarrow> 'db \<Rightarrow> int \<times> 'db"
  sq_bind_int64 :: "stmt \<Rightarrow> int \<Rightarrow> 64 word \<Rightarrow> 'db \<Rightarrow> int \<times> 'db"
  sq_step :: "stmt \<Rightarrow> 'db \<Rightarrow> int \<times> 'db"
  sq_reset :: "stmt \<Rightarrow> 'db \<Rightarrow> 'db"
  sq_clear_bindings :: "stmt \<Rightarrow> 'db \<Rightarrow> 'db"
  sq_finalize :: "stmt \<Rightarrow> 'db \<Rightarrow> 'db"
  sq_column_text :: "stmt \<Rightarrow> int \<Rightarrow> 'db \<Rightarrow> string option"
  sq_column_int :: "stmt \<Rightarrow> int \<Rightarrow> 'db \<Rightarrow> 32 word"
  sq_column_int64 :: "stmt \<Rightarrow> int \<Rightarrow> 'db \<Rightarrow> 64 word"
  sq_errstr :: "int \<Rightarrow> string"
  sq_errmsg :: "'db \<Rightarrow> string"

definition SQLITE_OK :: int where "SQLITE_OK = 0"
definition SQLITE_ROW :: int where "SQLITE_ROW = 100"
definition SQLITE_DONE :: int where "SQLITE_DONE = 101"

text \<open>A C string ends at the first NUL; with length \<open>-1\<close> SQLite binds that part.\<close>

definition c_str :: "string \<Rightarrow> string" where
  "c_str s = takeWhile (\<lambda>ch. ch \<noteq> CHR 0x00) s"

section \<open>BindSqlParam\<close>

record 'db bind_ctx =
  bc_stmt :: stmt
  bc_index :: int
  bc_db :: 'db

definition no_bind_error :: error where
  "no_bind_error = Runtime_error ''sqlite does not implement bind value func''"

definition bind_error :: "'db sqlite_api \<Rightarrow> string \<Rightarrow> int \<Rightarrow> int \<Rightarrow> error" where
  "bind_error api name index ret = Runtime_error
     (''sqlite bind ['' @ name @ '':'' @ string_of_int index @ ''] value failed: '' @ sq_errstr api ret)"

text \<open>The three specialisations of \<open>append_value\<close>; every other operand type throws.\<close>

definition bind_value ::
  "'db sqlite_api \<Rightarrow> stmt \<Rightarrow> int \<Rightarrow> param_value \<Rightarrow> 'db \<Rightarrow> (int \<times> 'db) option" where
  "bind_value api stmt index pv db =
     (case pv of
        PV (V_string s) \<Rightarrow> Some (sq_bind_text api stmt index (c_str s) db)
      | PV (V_int32 x) \<Rightarrow> Some (sq_bind_int api stmt index x db)
      | PV (V_int64 x) \<Rightarrow> Some (sq_bind_int64 api stmt index x db)
      | _ \<Rightarrow> None)"

definition bindable :: "tparam \<Rightarrow> bool" where
  "bindable t \<longleftrightarrow> t \<in> {T_val C_string, T_val C_int32, T_val C_int64}"

definition bind_append ::
  "'db sqlite_api \<Rightarrow> 'db bind_ctx \<Rightarrow> string \<Rightarrow> tparam \<Rightarrow> cond_type \<Rightarrow> ops_type \<Rightarrow> param_value res \<Rightarrow>
   (error \<times> 'db) + int \<times> 'db bind_ctx" where
  "bind_append api ctx name t condtype opstype cb =
     (let index = bc_index ctx + 1 in
      if \<not> bindable t then Inl (no_bind_error, bc_db ctx)
      else
        (case cb of
           Inl e \<Rightarrow> Inl (e, bc_db ctx)
         | Inr pv \<Rightarrow>
             (case bind_value api (bc_stmt ctx) index pv (bc_db ctx) of
                None \<Rightarrow> Inl (Undefined_behaviour, bc_db ctx)
              | Some (ret, db) \<Rightarrow>
                  if ret \<noteq> SQLITE_OK then Inl (bind_error api name index ret, db)
                  else Inr (0, ctx\<lparr>bc_index := index, bc_db := db\<rparr>))))"

definition bind_ops :: "'db sqlite_api \<Rightarrow> (error \<times> 'db, 'db bind_ctx, 'db bind_ctx, 'db bind_ctx) read_ref" where
  "bind_ops api = com_read_ref (\<lambda>e ctx. (e, bc_db ctx)) (bind_append api)"

text \<open>The overloads of \<open>bind\<close>: one request, several requests, an update.\<close>

definition bind_read ::
  "'db sqlite_api \<Rightarrow> world \<Rightarrow> 'db bind_ctx \<Rightarrow> read_cond \<Rightarrow> (error \<times> 'db) + 'db bind_ctx" where
  "bind_read api w ctx rc =
     (if \<not> has_cond rc then Inr ctx
      else
        bindE (append_cond (bind_ops api) w ctx rc) (\<lambda>(ret, ctx).
          if ret < 0 then Inl (code_error ''sqlite bind condition for query sql failed: '' ret, bc_db ctx)
          else if bc_index ctx = 0 then Inl (Runtime_error ''no parameter was binded'', bc_db ctx)
          else Inr ctx))"

definition bind_reads ::
  "'db sqlite_api \<Rightarrow> world \<Rightarrow> 'db bind_ctx \<Rightarrow> read_cond list \<Rightarrow> (error \<times> 'db) + 'db bind_ctx" where
  "bind_reads api w ctx rcs = foldE (bind_read api w) ctx rcs"

definition bind_update ::
  "'db sqlite_api \<Rightarrow> (addr \<Rightarrow> nat) \<Rightarrow> world \<Rightarrow> 'db bind_ctx \<Rightarrow> update_cond \<Rightarrow> (error \<times> 'db) + 'db bind_ctx" where
  "bind_update api raw_size w ctx uc =
     bindE (append_value 1 (bind_ops api) raw_size w ctx uc) (\<lambda>(ret, ctx).
       if ret < 0 then Inl (code_error ''sqlite bind value for update sql failed: '' ret, bc_db ctx)
       else bind_read api w ctx (read_cond.truncate uc))"

section \<open>FetchSqlResult\<close>

text \<open>The context is the column last read, starting at \<open>-1\<close>.\<close>

definition fetch_get ::
  "'db sqlite_api \<Rightarrow> stmt \<Rightarrow> 'db \<Rightarrow> int \<Rightarrow> string \<Rightarrow> ctype \<Rightarrow> (yan_val \<Rightarrow> (world, int) sres) \<Rightarrow> (world, int \<times> int) sres" where
  "fetch_get api stmt db col name t cb =
     (let col = col + 1 in
      case t of
        C_string \<Rightarrow>
          (case sq_column_text api stmt col db of
             None \<Rightarrow> returnS (0, col)
           | Some s \<Rightarrow> bindS (cb (V_string (c_str s))) (\<lambda>_. returnS (0, col)))
      | C_int32 \<Rightarrow> bindS (cb (V_int32 (sq_column_int api stmt col db))) (\<lambda>_. returnS (0, col))
      | C_int64 \<Rightarrow> bindS (cb (V_int64 (sq_column_int64 api stmt col db))) (\<lambda>_. returnS (0, col))
      | _ \<Rightarrow> throwS no_bind_error)"

definition fetch_object :: "'db sqlite_api \<Rightarrow> stmt \<Rightarrow> 'db \<Rightarrow> class_decl \<Rightarrow> addr \<Rightarrow> (world, unit) sres" where
  "fetch_object api stmt db c p =
     bindS (set_value (com_write_ref (fetch_get api stmt db)) c p (-1)) (\<lambda>(ret, _).
       if ret < 0 then throwS (code_error ''sqlite fetch result failed: '' ret) else returnS ())"

definition fetch_count :: "'db sqlite_api \<Rightarrow> stmt \<Rightarrow> 'db \<Rightarrow> yan_val" where
  "fetch_count api stmt db = V_int64 (sq_column_int64 api stmt 0 db)"

section \<open>The order of the bindings\<close>

text \<open>The reference: bind the operands one after the other, numbered from \<open>i + 1\<close>.\<close>

type_synonym bind_item = "string \<times> tparam \<times> param_value"

fun bind_seq ::
  "'db sqlite_api \<Rightarrow> stmt \<Rightarrow> int \<Rightarrow> bind_item list \<Rightarrow> 'db \<Rightarrow> (error \<times> 'db) + 'db" where
  "bind_seq api stmt i [] db = Inr db"
| "bind_seq api stmt i ((name, t, pv) # items) db =
     (if \<not> bindable t then Inl (no_bind_error, db)
      else
        (case bind_value api stmt (i + 1) pv db of
           None \<Rightarrow> Inl (Undefined_behaviour, db)
         | Some (ret, db') \<Rightarrow>
             if ret \<noteq> SQLITE_OK then Inl (bind_error api name (i + 1) ret, db')
             else bind_seq api stmt (i + 1) items db'))"

lemma bind_seq_append:
  "bind_seq api stmt i (xs @ ys) db =
     bindE (bind_seq api stmt i xs db) (\<lambda>db. bind_seq api stmt (i + int (length xs)) ys db)"
  by (induction xs arbitrary: i db) (auto simp: algebra_simps split: option.splits)

definition bound :: "'db bind_ctx \<Rightarrow> nat \<Rightarrow> (error \<times> 'db) + 'db \<Rightarrow> (error \<times> 'db) + 'db bind_ctx" where
  "bound ctx n r = (case r of Inl e \<Rightarrow> Inl e | Inr db \<Rightarrow> Inr (ctx\<lparr>bc_index := bc_index ctx + int n, bc_db := db\<rparr>))"

fun bind_item_step :: "'db sqlite_api \<Rightarrow> 'db bind_ctx \<Rightarrow> bind_item \<Rightarrow> (error \<times> 'db) + int \<times> 'db bind_ctx" where
  "bind_item_step api ctx (name, t, pv) = bind_append api ctx name t CT_AND OT_EQUAL (Inr pv)"

lemma bind_item_loop:
  "loop_ret (bind_item_step api) 0 ctx items =
     bindE (bound ctx (length items) (bind_seq api (bc_stmt ctx) (bc_index ctx) items (bc_db ctx))) (\<lambda>ctx. Inr (0, ctx))"
proof (induction items arbitrary: ctx)
  case (Cons i items)
  obtain name t pv where i: "i = (name, t, pv)" by (cases i)
  show ?case
    using Cons.IH
    by (auto simp: i bind_append_def Let_def bound_def algebra_simps split: option.splits sum.splits)
qed (simp add: bound_def)

lemma bind_item_loop_ignore:
  "loop_ignore (bind_item_step api) ctx items =
     bound ctx (length items) (bind_seq api (bc_stmt ctx) (bc_index ctx) items (bc_db ctx))"
proof (induction items arbitrary: ctx)
  case (Cons i items)
  obtain name t pv where i: "i = (name, t, pv)" by (cases i)
  show ?case
    using Cons.IH
    by (auto simp: i bind_append_def Let_def bound_def algebra_simps split: option.splits sum.splits)
qed (simp add: bound_def)

lemma bind_append_irrelevant: "bind_append api ctx name t c1 o1 cb = bind_append api ctx name t c2 o2 cb"
  by (simp add: bind_append_def)

text \<open>The operands of a request: those of its conditions, and those of an assigned row.\<close>

definition cond_bind_item :: "member_info list \<Rightarrow> param \<Rightarrow> bind_item" where
  "cond_bind_item ms prm =
     (mi_get_name (ms ! unat (param_seq prm)),
      (let t = the (YanType2Type (param_type prm)) in
       if get_mem_ops_type (param_cond prm) = OT_EQUAL_LIST then T_list t else T_val t),
      param_val prm)"

definition row_bind_item :: "row_item \<Rightarrow> bind_item" where
  "row_bind_item i = (fst i, T_val (ctype_of (snd i)), PV (snd i))"

lemma append_cond_bind:
  assumes "conds_of w rc c ps"
  shows "append_cond (bind_ops api) w ctx rc =
    loop_ret (bind_item_step api) 0 ctx (map (cond_bind_item (class_members w c)) ps)"
proof -
  have len: "length (cd_members c) \<le> 65536" using assms by (simp add: conds_of_def class_ready_def)
  have "cond_ref (bind_ops api) ctx (mi_get_name (class_members w c ! unat (param_seq prm))) prm =
      bind_item_step api ctx (cond_bind_item (class_members w c) prm)" if "prm \<in> set ps" for prm ctx
  proof -
    from assms that have "param_of_class c prm" by (simp add: conds_of_def)
    from param_of_class_facts(2) [OF this len] obtain t where
      t: "YanType2Type (param_type prm) = Some t" "param_get prm = Inr (param_val prm)"
      by (auto simp: param_get_def)
    show ?thesis
      unfolding cond_ref_def cond_bind_item_def bind_ops_def
      by (simp add: t Let_def) (auto intro: bind_append_irrelevant)
  qed
  then show ?thesis
    unfolding append_cond_items [OF assms] loop_ret_map by (rule loop_ret_cong)
qed

definition cond_operands :: "world \<Rightarrow> read_cond \<Rightarrow> bind_item list" where
  "cond_operands w rc =
     (if has_cond rc then map (cond_bind_item (class_members w (the (rc_cys rc)))) (params_of w rc) else [])"

lemma bind_read_run:
  assumes "conds_of w rc c ps" and "ps \<noteq> []" and "0 \<le> bc_index ctx"
  shows "bind_read api w ctx rc =
    bound ctx (length ps) (bind_seq api (bc_stmt ctx) (bc_index ctx) (cond_operands w rc) (bc_db ctx))"
proof -
  have u: "rc_cys rc = Some c" "params_of w rc = ps" "has_cond rc" using conds_of_unique [OF assms(1)] by auto
  have "0 < bc_index ctx + int (length ps)" using assms(2,3) by (cases ps) auto
  then show ?thesis
    by (simp add: bind_read_def u append_cond_bind [OF assms(1)] bind_item_loop cond_operands_def)
      (auto simp: bound_def split: sum.splits)
qed

text \<open>
  C20: binding a request's conditions makes one library call per condition, with consecutive indices
  and in the order in which the conditions stand in the text, stopping with an exception at the first
  operand of another type than string, 32-bit or 64-bit integer and at the first call that fails.
\<close>

theorem bind_read_order:
  assumes "conds_of w rc c ps" and "ps \<noteq> []" and "0 \<le> bc_index ctx"
  shows "bind_read api w ctx rc =
    bound ctx (length ps) (bind_seq api (bc_stmt ctx) (bc_index ctx) (cond_operands w rc) (bc_db ctx))"
  using assms by (rule bind_read_run)

lemma append_value_bind:
  assumes "rc_cys uc = Some (ob_class ob)" and "uc_laddr uc = Some p" and w: "w_objs w p = Some ob"
    and ok: "table_ok w p ob" and "ob_seqset ob \<noteq> []"
  shows "append_value 1 (bind_ops api) raw_size w ctx uc =
    bindE (loop_ignore (bind_item_step api) ctx (map row_bind_item (row_of w p))) (\<lambda>ctx. Inr (0, ctx))"
proof -
  have "loop_ignore (\<lambda>obj seq. bindE (in_ops (bind_ops api) obj (ys_at (get_yan_struct (w_reg w) (ob_class ob)) seq))
      (\<lambda>info. handle_info 1 (bind_ops api) raw_size w obj p info)) ctx (ob_seqset ob) =
    loop_ignore (bind_item_step api) ctx (map row_bind_item (row_of w p))"
    unfolding bind_ops_def assigned_members_loop [OF w ok] loop_ignore_map
    by (rule loop_ignore_cong) (simp add: row_bind_item_def)
  then show ?thesis using assms(1-3,5) by (simp add: append_value_def uc_get_seqs_def seqs_of_def del: One_nat_def)
qed

lemma bind_update_run:
  assumes "update_request_ok w uc p ob" and "ob_seqset ob \<noteq> []" and "0 \<le> bc_index ctx"
  shows "bind_update api raw_size w ctx uc =
    (let items = map row_bind_item (row_of w p) @ cond_operands w (read_cond.truncate uc) in
     bound ctx (length items) (bind_seq api (bc_stmt ctx) (bc_index ctx) items (bc_db ctx)))"
proof -
  let ?rc = "read_cond.truncate uc" and ?rows = "map row_bind_item (row_of w p)"
  have uc: "rc_cys uc = Some (ob_class ob)" "uc_laddr uc = Some p" "w_objs w p = Some ob" "table_ok w p ob"
    using assms(1) by (simp_all add: update_request_ok_def)
  note av = append_value_bind [OF uc assms(2), of api raw_size ctx, unfolded bind_item_loop_ignore]
  show ?thesis
  proof (cases "bind_seq api (bc_stmt ctx) (bc_index ctx) ?rows (bc_db ctx)")
    case (Inl e)
    then show ?thesis
      by (simp add: bind_update_def av bound_def bind_seq_append Let_def del: One_nat_def)
  next
    case (Inr db)
    let ?ctx = "ctx\<lparr>bc_index := bc_index ctx + int (length ?rows), bc_db := db\<rparr>"
    have upd: "bind_update api raw_size w ctx uc = bind_read api w ?ctx ?rc"
      by (simp add: bind_update_def av bound_def Inr del: One_nat_def)
    show ?thesis
    proof (cases "has_cond ?rc")
      case False
      then have "bind_read api w ?ctx ?rc = Inr ?ctx" "cond_operands w ?rc = []"
        by (simp_all add: bind_read_def cond_operands_def)
      with upd Inr show ?thesis by (simp add: bound_def Let_def)
    next
      case True
      with assms(1) obtain ps where ps: "conds_of w ?rc (ob_class ob) ps" "first_is_field ps"
        by (auto simp: update_request_ok_def)
      have ne: "ps \<noteq> []" using ps(2) by (simp add: first_is_field_def)
      have len: "length (cond_operands w ?rc) = length ps"
        using conds_of_unique [OF ps(1)] by (simp add: cond_operands_def)
      have "0 \<le> bc_index ?ctx" using assms(3) by simp
      from bind_read_run [OF ps(1) ne this] upd Inr len show ?thesis
        by (simp add: bind_seq_append bound_def Let_def add.assoc split: sum.split)
    qed
  qed
qed

text \<open>
  An update first binds the assigned values, in the order of the \<open>SET\<close> list, and then the operands
  of its conditions, with consecutive indices throughout: the i-th operand belongs to the i-th
  placeholder of the text.
\<close>

theorem bind_update_order:
  assumes "update_request_ok w uc p ob" and "ob_seqset ob \<noteq> []" and "0 \<le> bc_index ctx"
  shows "bind_update api raw_size w ctx uc =
    (let items = map row_bind_item (row_of w p) @ cond_operands w (read_cond.truncate uc) in
     bound ctx (length items) (bind_seq api (bc_stmt ctx) (bc_index ctx) items (bc_db ctx)))"
  by (rule bind_update_run [OF assms])

section \<open>Placeholders\<close>

definition no_placeholder :: "member_info list \<Rightarrow> bool" where
  "no_placeholder ms \<longleftrightarrow> (\<forall>m \<in> set ms. CHR ''?'' \<notin> set (mi_get_name m))"

lemma ops_str_no_placeholder: "CHR ''?'' \<notin> set (get_yan_ops_str opstype n)"
  by (cases opstype) auto

lemma count_list_no: "x \<notin> set s \<Longrightarrow> count_list s x = 0"
  by (simp add: count_list_0_iff)

lemma cond_text_placeholders:
  "CHR ''?'' \<notin> set name \<Longrightarrow> count_list (cond_text (name, ct, ot)) (CHR ''?'') = (if field_cond ct then 1 else 0)"
  using ops_str_no_placeholder [of ot "ct = CT_NOT"]
  by (auto simp: count_list_append count_list_no)

lemma emit_placeholders:
  "\<forall>i \<in> set is. CHR ''?'' \<notin> set (fst i) \<Longrightarrow>
    count_list (emit cond_sep cond_text f is) (CHR ''?'') = length (filter (\<lambda>i. field_cond (fst (snd i))) is)"
proof (induction "is" arbitrary: f)
  case (Cons i "is")
  obtain name ct ot where i: "i = (name, ct, ot)" by (cases i)
  have "count_list (cond_sep i) (CHR ''?'') = 0" by (simp add: i)
  with Cons cond_text_placeholders [of name ct ot] show ?case
    by (simp add: i count_list_append del: cond_text.simps cond_sep.simps)
qed simp

lemma conds_names_in_range:
  assumes "conds_of w rc c ps" and "prm \<in> set ps"
  shows "class_members w c ! unat (param_seq prm) \<in> set (class_members w c)"
proof -
  have cr: "class_ready (w_reg w) c" and prm: "param_of_class c prm" using assms by (simp_all add: conds_of_def)
  have "length (cd_members c) \<le> 65536" using cr by (simp add: class_ready_def)
  from param_of_class_facts(1) [OF prm this] show ?thesis
    by (simp add: class_members_ready [OF cr] nth_mem)
qed

lemma where_placeholders:
  assumes "conds_of w rc c ps" and "no_placeholder (class_members w c)"
  shows "count_list (where_text (class_members w c) ps) (CHR ''?'') =
    length (filter (\<lambda>prm. field_cond (get_mem_cond_type (param_cond prm))) ps)"
proof -
  have "\<forall>i \<in> set (map (cond_item_of (class_members w c)) ps). CHR ''?'' \<notin> set (fst i)"
    using conds_names_in_range [OF assms(1)] assms(2) by (auto simp: cond_item_of_def no_placeholder_def)
  from emit_placeholders [OF this] show ?thesis
    by (simp add: where_text_def filter_map o_def cond_item_of_def)
qed

lemma placeholders_and_operands_run:
  assumes "conds_of w rc c ps" and "no_placeholder (class_members w c)"
  shows "count_list (where_text (class_members w c) ps) (CHR ''?'') =
      length (filter (\<lambda>prm. field_cond (get_mem_cond_type (param_cond prm))) ps) \<and>
    (count_list (where_text (class_members w c) ps) (CHR ''?'') = length (cond_operands w rc) \<longleftrightarrow>
      (\<forall>prm \<in> set ps. \<not> order_cond (get_mem_cond_type (param_cond prm))))"
proof -
  have len: "length (cd_members c) \<le> 65536" using assms(1) by (simp add: conds_of_def class_ready_def)
  have fo: "field_cond ct \<longleftrightarrow> \<not> order_cond ct" if "ct = get_mem_cond_type (param_cond prm)" "prm \<in> set ps" for ct prm
    using assms(1) that param_of_class_facts(5) [OF _ len, of prm]
    by (auto simp: conds_of_def field_cond_def order_cond_def)
  have "length (cond_operands w rc) = length ps"
    using conds_of_unique [OF assms(1)] by (simp add: cond_operands_def)
  moreover have "length (filter P ps) = length ps \<longleftrightarrow> (\<forall>prm \<in> set ps. P prm)" for P
    by (metis filter_True filter_id_conv length_filter_less less_irrefl)
  ultimately show ?thesis using where_placeholders [OF assms] fo by auto
qed


text \<open>
  SQLite documents that binding to an index beyond the statement's placeholders fails
  (\<open>SQLITE_RANGE\<close>).
\<close>

definition range_checked :: "'db sqlite_api \<Rightarrow> stmt \<Rightarrow> nat \<Rightarrow> bool" where
  "range_checked api stmt n \<longleftrightarrow>
     (\<forall>i pv db ret db'. bind_value api stmt i pv db = Some (ret, db') \<longrightarrow> int n < i \<longrightarrow> ret \<noteq> SQLITE_OK)"

lemma bind_seq_out_of_range:
  "range_checked api stmt n \<Longrightarrow> int n < i + int (length items) \<Longrightarrow> items \<noteq> [] \<Longrightarrow>
    \<exists>e. bind_seq api stmt i items db = Inl e"
proof (induction items arbitrary: i db)
  case (Cons x items)
  obtain name t pv where x: "x = (name, t, pv)" by (cases x)
  show ?case
  proof (cases "bindable t")
    case True
    show ?thesis
    proof (cases "bind_value api stmt (i + 1) pv db")
      case (Some y)
      obtain ret db' where y: "y = (ret, db')" by force
      show ?thesis
      proof (cases "items = []")
        case True
        then have "int n < i + 1" using Cons.prems(2) by simp
        with Cons.prems(1) Some y have "ret \<noteq> SQLITE_OK" unfolding range_checked_def by blast
        with Some y \<open>bindable t\<close> show ?thesis by (simp add: x)
      next
        case False
        with Cons.prems Cons.IH [of "i + 1" db'] Some y \<open>bindable t\<close> show ?thesis by (simp add: x)
      qed
    qed (simp add: x)
  qed (simp add: x)
qed simp

text \<open>
  Consequently, with the documented range check of the library, no read request with a \<open>GROUP\<close> or
  \<open>ORDER\<close> condition can be executed: binding it to the statement made from its own text always throws.
\<close>

theorem ordered_request_cannot_be_bound:
  assumes "conds_of w rc c ps" and "no_placeholder (class_members w c)"
    and "prm \<in> set ps" and "order_cond (get_mem_cond_type (param_cond prm))"
    and "range_checked api (bc_stmt ctx) (count_list (where_text (class_members w c) ps) (CHR ''?''))"
    and "bc_index ctx = 0"
  shows "\<exists>e. bind_read api w ctx rc = Inl e"
proof -
  let ?n = "count_list (where_text (class_members w c) ps) (CHR ''?'')"
  have u: "rc_cys rc = Some c" "params_of w rc = ps" "has_cond rc" using conds_of_unique [OF assms(1)] by auto
  have "\<not> field_cond (get_mem_cond_type (param_cond prm))"
    using assms(4) by (auto simp: field_cond_def order_cond_def)
  with assms(3) have "?n < length ps"
    unfolding where_placeholders [OF assms(1,2)] by (rule length_filter_less)
  then have "int ?n < bc_index ctx + int (length (cond_operands w rc))" "cond_operands w rc \<noteq> []"
    using assms(3,6) u by (auto simp: cond_operands_def)
  from bind_seq_out_of_range [OF assms(5) this] obtain e where
    "bind_seq api (bc_stmt ctx) (bc_index ctx) (cond_operands w rc) (bc_db ctx) = Inl e" by blast
  moreover have "ps \<noteq> []" "0 \<le> bc_index ctx" using assms(3,6) by auto
  note bind_read_run [OF assms(1) this, of api]
  ultimately show ?thesis by (simp add: bound_def)
qed

section \<open>Fetching a row\<close>

text \<open>What column \<open>i\<close> of the current row yields for a member of type \<open>t\<close>; a NULL text yields nothing.\<close>

fun column_value :: "'db sqlite_api \<Rightarrow> stmt \<Rightarrow> 'db \<Rightarrow> ctype \<Rightarrow> int \<Rightarrow> yan_val option" where
  "column_value api stmt db C_string i = map_option (\<lambda>s. V_string (c_str s)) (sq_column_text api stmt i db)"
| "column_value api stmt db C_int32 i = Some (V_int32 (sq_column_int api stmt i db))"
| "column_value api stmt db C_int64 i = Some (V_int64 (sq_column_int64 api stmt i db))"
| "column_value api stmt db _ i = None"

definition fetchable :: "member_decl \<Rightarrow> bool" where
  "fetchable d \<longleftrightarrow>
     (case d of MEMBER mem t args \<Rightarrow> YanType2Type t \<in> {Some C_string, Some C_int32, Some C_int64} | _ \<Rightarrow> False)"

definition fetched :: "yan_val option \<Rightarrow> value_member \<Rightarrow> value_member" where
  "fetched v m = (case v of None \<Rightarrow> m | Some v \<Rightarrow> m\<lparr>vm_value := Some v, vm_flag := True\<rparr>)"

fun decl_ctype :: "member_decl \<Rightarrow> ctype" where
  "decl_ctype (MEMBER mem t args) = the (YanType2Type t)"
| "decl_ctype _ = C_bool"

text \<open>The members of an object after the members \<open>ds\<close> were fetched from column \<open>col + 1\<close> on.\<close>

fun fetched_members ::
  "'db sqlite_api \<Rightarrow> stmt \<Rightarrow> 'db \<Rightarrow> int \<Rightarrow> member_decl list \<Rightarrow> (string \<Rightarrow> member_obj option) \<Rightarrow> string \<Rightarrow> member_obj option" where
  "fetched_members api stmt db col [] mems = mems"
| "fetched_members api stmt db col (d # ds) mems =
     fetched_members api stmt db (col + 1) ds
       (case mems (member_decl_name d) of
          Some (MO_value m) \<Rightarrow> mems(member_decl_name d \<mapsto> MO_value (fetched (column_value api stmt db (decl_ctype d) (col + 1)) m))
        | _ \<Rightarrow> mems)"

lemma fetch_members_run:
  "list_all fetchable ds \<Longrightarrow> w_objs w p = Some ob \<Longrightarrow>
    \<forall>d \<in> set ds. \<exists>m. ob_mems ob (member_decl_name d) = Some (MO_value m) \<Longrightarrow>
    write_members (com_write_ref (fetch_get api stmt db)) p col (map decl_info ds) w =
      (put_obj p (ob\<lparr>ob_mems := fetched_members api stmt db col ds (ob_mems ob)\<rparr>) w, Inr (col + int (length ds)))"
proof (induction ds arbitrary: w ob col)
  case Nil
  then have "put_obj p ob w = w" by (simp add: put_obj_def fun_upd_idem)
  then show ?case by simp
next
  case (Cons d ds)
  from Cons.prems(1) obtain mem t args ty where d: "d = MEMBER mem t args" "YanType2Type t = Some ty"
    and ty: "ty \<in> {C_string, C_int32, C_int64}"
    by (cases d) (auto simp: fetchable_def)
  from Cons.prems(3) d obtain m where m: "ob_mems ob mem = Some (MO_value m)" by auto
  let ?v = "column_value api stmt db ty (col + 1)"
  let ?ob = "put_mem mem (MO_value (fetched ?v m)) ob"
  let ?w = "put_obj p ?ob w"
  have same: "put_obj p ob w = w" using Cons.prems(2) by (simp add: put_obj_def fun_upd_idem)
  have put: "put_mem mem (MO_value m) ob = ob" using m by (simp add: put_mem_def fun_upd_idem)
  have t: "t \<noteq> YT_STRUCT" "t \<noteq> YT_LIST" using d(2) by auto
  have set: "member_set_value v p mem w = (put_obj p (put_mem mem (MO_value (m\<lparr>vm_value := Some v, vm_flag := True\<rparr>)) ob) w, Inr ())" for v
    using Cons.prems(2) m by (simp add: member_set_value_def with_obj_run modify_obj_run)
  have h: "write_handle_info (com_write_ref (fetch_get api stmt db)) col p (decl_info d) w = (?w, Inr (0, col + 1))"
  proof -
    have "write_handle_info (com_write_ref (fetch_get api stmt db)) col p (decl_info d) =
        fetch_get api stmt db col (mi_get_name (decl_info d)) ty
          (\<lambda>val. bindS (member_set_value val p mem) (\<lambda>_. returnS 0))"
      using t d by (cases t) (auto simp: write_handle_info_def write_member_ref_def com_write_ref_def)
    moreover have "fetch_get api stmt db col (mi_get_name (decl_info d)) ty
          (\<lambda>val. bindS (member_set_value val p mem) (\<lambda>_. returnS 0)) w = (?w, Inr (0, col + 1))"
      using ty by (auto simp: fetch_get_def Let_def fetched_def bindS_apply set put same split: option.splits)
    ultimately show ?thesis by simp
  qed
  have "\<forall>d \<in> set ds. \<exists>m. ob_mems ?ob (member_decl_name d) = Some (MO_value m)"
    using Cons.prems(3) by auto
  moreover have "list_all fetchable ds" using Cons.prems(1) by simp
  moreover have "w_objs ?w p = Some ?ob" by simp
  ultimately have "write_members (com_write_ref (fetch_get api stmt db)) p (col + 1) (map decl_info ds) ?w =
      (put_obj p (?ob\<lparr>ob_mems := fetched_members api stmt db (col + 1) ds (ob_mems ?ob)\<rparr>) ?w, Inr (col + 1 + int (length ds)))"
    by (intro Cons.IH)
  moreover have "?ob\<lparr>ob_mems := X\<rparr> = ob\<lparr>ob_mems := X\<rparr>" for X by (simp add: put_mem_def)
  ultimately have "write_members (com_write_ref (fetch_get api stmt db)) p (col + 1) (map decl_info ds) ?w =
      (put_obj p (ob\<lparr>ob_mems := fetched_members api stmt db (col + 1) ds (ob_mems ?ob)\<rparr>) w, Inr (col + 1 + int (length ds)))"
    by simp
  moreover have "write_members (com_write_ref (fetch_get api stmt db)) p col (map decl_info (d # ds)) w =
      write_members (com_write_ref (fetch_get api stmt db)) p (col + 1) (map decl_info ds) ?w"
    by (simp add: bindS_apply h)
  moreover have "fetched_members api stmt db col (d # ds) (ob_mems ob) =
      fetched_members api stmt db (col + 1) ds (ob_mems ?ob)"
    using d m by simp
  ultimately show ?case by simp
qed

lemma fetched_members_other:
  "mem \<notin> set (map member_decl_name ds) \<Longrightarrow> fetched_members api stmt db col ds mems mem = mems mem"
  by (induction ds arbitrary: col mems) (auto split: option.splits member_obj.splits)

lemma fetched_members_at:
  "distinct (map member_decl_name ds) \<Longrightarrow> i < length ds \<Longrightarrow> mems (member_decl_name (ds ! i)) = Some (MO_value m) \<Longrightarrow>
    fetched_members api stmt db col ds mems (member_decl_name (ds ! i)) =
      Some (MO_value (fetched (column_value api stmt db (decl_ctype (ds ! i)) (col + 1 + int i)) m))"
proof (induction ds arbitrary: i col mems)
  case (Cons d ds)
  show ?case
  proof (cases i)
    case 0
    with Cons.prems have "member_decl_name d \<notin> set (map member_decl_name ds)" by simp
    with 0 Cons.prems(3) show ?thesis by (simp add: fetched_members_other)
  next
    case (Suc j)
    with Cons.prems have ne: "member_decl_name (ds ! j) \<noteq> member_decl_name d"
      by (metis distinct.simps(2) length_Cons length_map list.simps(9) not_less_eq nth_map nth_mem)
    let ?mems = "case mems (member_decl_name d) of
          Some (MO_value m) \<Rightarrow> mems(member_decl_name d \<mapsto> MO_value (fetched (column_value api stmt db (decl_ctype d) (col + 1)) m))
        | _ \<Rightarrow> mems"
    from Suc Cons.prems ne have "?mems (member_decl_name (ds ! j)) = Some (MO_value m)"
      by (auto split: option.split member_obj.split)
    with Cons.IH [of j ?mems "col + 1"] Suc Cons.prems show ?thesis by (simp add: algebra_simps)
  qed
qed simp

lemma fetch_object_run:
  assumes "class_ready (w_reg w) c" and "list_all fetchable (cd_members c)" and "w_objs w p = Some ob"
    and "\<forall>d \<in> set (cd_members c). \<exists>m. ob_mems ob (member_decl_name d) = Some (MO_value m)"
  shows "fetch_object api stmt db c p w =
    (put_obj p (ob\<lparr>ob_mems := fetched_members api stmt db (-1) (cd_members c) (ob_mems ob)\<rparr>) w, Inr ())"
  using fetch_members_run [OF assms(2-4), of api stmt db "-1"]
  by (simp add: fetch_object_def set_value_def class_members_ready [OF assms(1)] bindS_apply)

text \<open>
  C25: fetching a row into an object of a table class whose members are strings and 32- or 64-bit
  integers gives the i-th declared member the i-th column of the row and flags it as set (a NULL text
  leaves the member as it is), and touches nothing else; in particular the set of assigned members
  stays as it was.
\<close>

theorem fetch_object_columns:
  assumes "class_ready (w_reg w) c" and "list_all fetchable (cd_members c)" and "w_objs w p = Some ob"
    and "\<forall>d \<in> set (cd_members c). \<exists>m. ob_mems ob (member_decl_name d) = Some (MO_value m)"
  shows "\<exists>ob'. fetch_object api stmt db c p w = (put_obj p ob' w, Inr ()) \<and>
    ob_seqset ob' = ob_seqset ob \<and> ob_conds ob' = ob_conds ob \<and>
    (\<forall>i m. i < length (cd_members c) \<longrightarrow> ob_mems ob (member_decl_name (cd_members c ! i)) = Some (MO_value m) \<longrightarrow>
       ob_mems ob' (member_decl_name (cd_members c ! i)) =
         Some (MO_value (fetched (column_value api stmt db (decl_ctype (cd_members c ! i)) (int i)) m)))"
proof -
  have "distinct (map member_decl_name (cd_members c))" using assms(1) by (simp add: class_ready_def)
  from fetched_members_at [OF this, of _ "ob_mems ob" _ api stmt db "-1"] show ?thesis
    by (subst fetch_object_run [OF assms]) auto
qed

text \<open>
  A fetched member is flagged but not in the set of assigned members, so the first assignment to
  it is not registered: the object holds the new value, and an update or insert of the object does not
  mention the member.
\<close>

theorem assignment_after_fetch_is_not_registered:
  assumes "at_member w p ob mem t m" and "vm_obj m = p" and "ob_chain ob = []" and "vm_cond m = 0"
    and "t \<noteq> YT_AUTO_INCREMENT"
  shows "\<exists>w1 w2 ob2. member_set_value v p mem w = (w1, Inr ()) \<and> member_assign rvalue v' p mem w1 = (w2, Inr ()) \<and>
    w_objs w2 p = Some ob2 \<and> ob_mems ob2 mem = Some (MO_value (m\<lparr>vm_value := Some v', vm_flag := True\<rparr>)) \<and>
    ob_seqset ob2 = ob_seqset ob"
proof -
  let ?m1 = "m\<lparr>vm_value := Some v, vm_flag := True\<rparr>"
  let ?ob1 = "put_mem mem (MO_value ?m1) ob"
  have "w_objs w p = Some ob" "ob_mems ob mem = Some (MO_value m)" using assms(1) by (auto simp: at_member_def)
  then have s: "member_set_value v p mem w = (put_obj p ?ob1 w, Inr ())"
    by (simp add: member_set_value_def with_obj_run modify_obj_run)
  have at: "at_member (put_obj p ?ob1 w) p ?ob1 mem t ?m1" using assms(1) by (rule at_member_put)
  have "member_assign rvalue v' p mem (put_obj p ?ob1 w) =
      (put_obj p (put_mem mem (MO_value (?m1\<lparr>vm_value := Some v', vm_flag := True\<rparr>))
          (?ob1\<lparr>ob_seqset := ob_seqset ?ob1\<rparr>)) (put_obj p ?ob1 w), Inr ())"
    using member_assign_run [OF at, of rvalue v'] assms(2-5) by simp
  with s show ?thesis by simp
qed

section \<open>Concrete instances\<close>

text \<open>A library whose statements have \<open>n\<close> placeholders and that records the bindings; every row reads
  as the text \<open>cell\<close> and the number 8.\<close>

definition sample_api :: "nat \<Rightarrow> (int \<times> param_value) list sqlite_api" where
  "sample_api n =
     (let bind = (\<lambda>i pv db. if 1 \<le> i \<and> i \<le> int n then (0, db @ [(i, pv)]) else (25, db)) in
      \<lparr>sq_prepare = (\<lambda>s db. ((0, Some 1), db)), sq_exec = (\<lambda>s db. (0, db)),
       sq_bind_text = (\<lambda>st i s db. bind i (PV (V_string s)) db),
       sq_bind_int = (\<lambda>st i x db. bind i (PV (V_int32 x)) db),
       sq_bind_int64 = (\<lambda>st i x db. bind i (PV (V_int64 x)) db),
       sq_step = (\<lambda>st db. (101, db)), sq_reset = (\<lambda>st db. db), sq_clear_bindings = (\<lambda>st db. []),
       sq_finalize = (\<lambda>st db. []),
       sq_column_text = (\<lambda>st i db. Some ''cell''), sq_column_int = (\<lambda>st i db. 8), sq_column_int64 = (\<lambda>st i db. 8),
       sq_errstr = (\<lambda>i. ''error''), sq_errmsg = (\<lambda>db. ''error'')\<rparr>)"

definition sample_bind_ctx :: "(int \<times> param_value) list bind_ctx" where
  "sample_bind_ctx = \<lparr>bc_stmt = Some 1, bc_index = 0, bc_db = []\<rparr>"

lemma sample_bind_ctx_simps [simp]:
  "bc_stmt sample_bind_ctx = Some 1" "bc_index sample_bind_ctx = 0" "bc_db sample_bind_ctx = []"
  by (simp_all add: sample_bind_ctx_def)

lemma sample_bind_value:
  "bind_value (sample_api n) st i (PV (V_string s)) db =
     Some (if 1 \<le> i \<and> i \<le> int n then (0, db @ [(i, PV (V_string (c_str s)))]) else (25, db))"
  "bind_value (sample_api n) st i (PV (V_int32 x)) db =
     Some (if 1 \<le> i \<and> i \<le> int n then (0, db @ [(i, PV (V_int32 x))]) else (25, db))"
  by (simp_all add: bind_value_def sample_api_def)

lemma sample_range_checked: "range_checked (sample_api n) st n"
  unfolding range_checked_def
  by (auto simp: bind_value_def sample_api_def Let_def SQLITE_OK_def
      split: param_value.splits yan_val.splits if_splits)

lemma sample_operands:
  "cond_operands sample_world (sample_read ret) =
     [(''d'', T_val C_int32, PV (V_int32 7)), (''p'', T_val C_int32, PV (V_int32 0))]"
proof -
  have "map (cond_bind_item (map decl_info (cd_members MaintainDB))) sample_conds5 =
      [(''d'', T_val C_int32, PV (V_int32 7)), (''p'', T_val C_int32, PV (V_int32 0))]"
    by (simp add: sample_conds5_def cond_bind_item_def make_param_def MaintainDB_def mi_get_name_def)
  with conds_of_unique [OF sample_conds_of [of ret]] show ?thesis
    by (simp add: cond_operands_def sample_class_members)
qed

lemma sample_conds5_ne: "sample_conds5 \<noteq> []"
  by (simp add: sample_conds5_def)

theorem bind_read_order_witness:
  "bind_read (sample_api 2) sample_world sample_bind_ctx (sample_read Ret_int64) =
     Inr (sample_bind_ctx\<lparr>bc_index := 2, bc_db := [(1, PV (V_int32 7)), (2, PV (V_int32 0))]\<rparr>)"
  using bind_read_order [OF sample_conds_of [of Ret_int64] sample_conds5_ne, of sample_bind_ctx "sample_api 2"]
  by (simp add: sample_operands sample_bind_value bindable_def SQLITE_OK_def bound_def sample_conds5_def)

theorem bind_update_order_witness:
  "bind_update (sample_api 3) (\<lambda>_. 0) sample_world sample_bind_ctx sample_update3 =
     Inr (sample_bind_ctx\<lparr>bc_index := 3,
       bc_db := [(1, PV (V_string ''etcd'')), (2, PV (V_string ''v1'')), (3, PV (V_string ''MySQL''))]\<rparr>)"
proof -
  have c: "cond_operands sample_world (read_cond.truncate sample_update3) =
      [(''n'', T_val C_string, PV (V_string ''MySQL''))]"
  proof -
    have "map (cond_bind_item (map decl_info (cd_members ComponentDB))) sample_conds0 =
        [(''n'', T_val C_string, PV (V_string ''MySQL''))]"
      by (simp add: sample_conds0_def cond_bind_item_def make_param_def ComponentDB_def mi_get_name_def)
    then show ?thesis
      by (simp add: cond_operands_def sample_update3_def read_cond.truncate_def has_cond_def params_of_def
          rc_param_list_def sample_class_members)
  qed
  show ?thesis
    using bind_update_order [OF sample_update3_ok, of sample_bind_ctx "sample_api 3" "\<lambda>_. 0"]
    by (simp add: c sample_rows row_bind_item_def sample_bind_value bindable_def SQLITE_OK_def bound_def Let_def c_str_def)
qed

lemma sample_no_placeholder: "no_placeholder (class_members sample_world MaintainDB)"
  unfolding no_placeholder_def sample_class_members
  by (simp add: MaintainDB_def mi_get_name_def CAN_BE_NULL_def)


theorem ordered_request_cannot_be_bound_witness:
  "\<exists>e. bind_read (sample_api 1) sample_world sample_bind_ctx (sample_read Ret_int64) = Inl e"
proof -
  let ?prm = "make_param ''point'' YT_INT32 (set_mem_cond_type 5 OT_EQUAL) 3 (PV (V_int32 0))"
  have n: "count_list (where_text (class_members sample_world MaintainDB) sample_conds5) (CHR ''?'') = 1"
    unfolding where_placeholders [OF sample_conds_of [of Ret_int64] sample_no_placeholder]
    by (simp add: sample_conds5_def make_param_def field_cond_def)
  have "?prm \<in> set sample_conds5" by (simp add: sample_conds5_def)
  moreover have "order_cond (get_mem_cond_type (param_cond ?prm))" by (simp add: make_param_def order_cond_def)
  moreover have "range_checked (sample_api 1) (bc_stmt sample_bind_ctx)
      (count_list (where_text (class_members sample_world MaintainDB) sample_conds5) (CHR ''?''))"
    unfolding n by (rule sample_range_checked)
  ultimately show ?thesis
    by (rule ordered_request_cannot_be_bound [OF sample_conds_of sample_no_placeholder]) simp
qed

lemma sample_fetchable: "list_all fetchable (cd_members ComponentDB)"
  by (simp add: ComponentDB_def fetchable_def)

lemma sample_members_present:
  "\<forall>d \<in> set (cd_members ComponentDB). \<exists>m. ob_mems (sample_obj 2) (member_decl_name d) = Some (MO_value m)"
proof
  fix d assume "d \<in> set (cd_members ComponentDB)"
  then obtain i where i: "i < length (cd_members (ob_class (sample_obj 2)))" "cd_members ComponentDB ! i = d"
    by (auto simp: in_set_conv_nth)
  from table_ok_member [OF sample_world_simps(4) sample_table_ok(2) i(1)] obtain mem t args m where
    "cd_members (ob_class (sample_obj 2)) ! i = MEMBER mem t args" "at_member sample_world 2 (sample_obj 2) mem t m"
    by metis
  with i(2) have "member_decl_name d = mem" "ob_mems (sample_obj 2) mem = Some (MO_value m)"
    by (simp_all add: at_member_def)
  then show "\<exists>m. ob_mems (sample_obj 2) (member_decl_name d) = Some (MO_value m)" by simp
qed

theorem fetch_object_columns_witness:
  "\<exists>ob' m. fetch_object (sample_api 0) (Some 1) [] ComponentDB 2 sample_world = (put_obj 2 ob' sample_world, Inr ()) \<and>
     ob_seqset ob' = [] \<and> ob_mems ob' ''name'' = Some (MO_value m) \<and> vm_value m = Some (V_string ''cell'')"
proof -
  have cr: "class_ready (w_reg sample_world) ComponentDB" by simp
  obtain ob' where ob': "fetch_object (sample_api 0) (Some 1) [] ComponentDB 2 sample_world = (put_obj 2 ob' sample_world, Inr ())"
    "ob_seqset ob' = ob_seqset (sample_obj 2)"
    and m: "\<forall>i m. i < length (cd_members ComponentDB) \<longrightarrow>
       ob_mems (sample_obj 2) (member_decl_name (cd_members ComponentDB ! i)) = Some (MO_value m) \<longrightarrow>
       ob_mems ob' (member_decl_name (cd_members ComponentDB ! i)) =
         Some (MO_value (fetched (column_value (sample_api 0) (Some 1) [] (decl_ctype (cd_members ComponentDB ! i)) (int i)) m))"
    using fetch_object_columns [OF cr sample_fetchable sample_world_simps(4) sample_members_present,
        of "sample_api 0" "Some 1" "[]"] by blast
  have "2 < length (cd_members ComponentDB)" by (simp add: sample_members)
  moreover obtain m0 where "ob_mems (sample_obj 2) (member_decl_name (cd_members ComponentDB ! 2)) = Some (MO_value m0)"
    using sample_members_present calculation nth_mem by blast
  ultimately have "ob_mems ob' ''name'' =
      Some (MO_value (fetched (column_value (sample_api 0) (Some 1) [] C_string 2) m0))"
    using m [rule_format, of 2 m0] by (simp add: sample_members)
  then show ?thesis using ob'
    by (auto simp: sample_api_def Let_def fetched_def c_str_def)
qed

theorem assignment_after_fetch_is_not_registered_witness:
  "\<exists>m w1 w2 ob2. at_member sample_world 2 (sample_obj 2) ''name'' YT_STRING m \<and>
     member_set_value (V_string ''cell'') 2 ''name'' sample_world = (w1, Inr ()) \<and>
     member_assign False (V_string ''new'') 2 ''name'' w1 = (w2, Inr ()) \<and>
     w_objs w2 2 = Some ob2 \<and> ob_seqset ob2 = []"
proof -
  let ?m = "\<lparr>vm_cond = 0, vm_flag = False, vm_value = Some (V_string ''''), vm_obj = 2\<rparr>"
  have at: "at_member sample_world 2 (sample_obj 2) ''name'' YT_STRING ?m"
    by (simp add: at_member_def sample_decl_type)
      (simp add: sample_obj_def sample_object_with_def sample_decl_type tag_init_val_def init_val_def)
  have ch: "ob_chain (sample_obj 2) = []" by (simp add: sample_obj_def sample_object_with_def fresh_obj_def)
  show ?thesis
    using assignment_after_fetch_is_not_registered [OF at _ ch, of "V_string ''cell''" False "V_string ''new''"] at
    by fastforce
qed

end
