(* ===== verification/Yan_Context.thy ===== *)
theory Yan_Context
  imports Yan_Bind
begin

text \<open>
  \<open>SqliteContext\<close> (\<open>src/sqlite/sqlite_context.h\<close>): one connection with its cache of prepared statements.
  \<open>execute\<close> looks the statement up under the request's hash, prepares it from the request's text when it
  is not there, binds, runs, and drops the statement when anything throws.  The state is the store of
  objects, the library's state and the cache.
\<close>

section \<open>State\<close>

record 'db sq_state =
  ss_world :: world
  ss_db :: 'db
  ss_stmts :: "string \<Rightarrow> stmt option"

type_synonym ('db, 'a) sq = "('db sq_state, 'a) sres"

definition in_world :: "(world, 'a) sres \<Rightarrow> ('db, 'a) sq" where
  "in_world m = (\<lambda>s. case m (ss_world s) of (w, r) \<Rightarrow> (s\<lparr>ss_world := w\<rparr>, r))"

definition errmsg :: "'db sqlite_api \<Rightarrow> 'db \<Rightarrow> string \<Rightarrow> int \<Rightarrow> error" where
  "errmsg api db selfdef ret =
     Runtime_error (selfdef @ '': '' @ sq_errstr api ret @ ''['' @ sq_errmsg api db @ '']'')"

section \<open>Statements\<close>

text \<open>\<open>create_stmt\<close>: make the text, terminate it, prepare it.\<close>

definition create_stmt :: "'db sqlite_api \<Rightarrow> (world, string) sres \<Rightarrow> ('db, stmt) sq" where
  "create_stmt api mk = bindS (in_world mk) (\<lambda>sql s.
     case sq_prepare api (c_str (sql @ '';'')) (ss_db s) of
       ((ret, st), db) \<Rightarrow>
         if ret \<noteq> SQLITE_OK
         then (s\<lparr>ss_db := db\<rparr>, Inl (errmsg api db ''sqlite create prepared statement failed'' ret))
         else (s\<lparr>ss_db := db\<rparr>, Inr st))"

text \<open>The handler of \<open>execute\<close> catches \<open>std::exception\<close> only.\<close>

fun exception_text :: "error \<Rightarrow> string option" where
  "exception_text (Runtime_error s) = Some s"
| "exception_text _ = None"

definition drop_stmt :: "'db sqlite_api \<Rightarrow> string \<Rightarrow> stmt \<Rightarrow> error \<Rightarrow> ('db, 'r) sq" where
  "drop_stmt api hash st e = (\<lambda>s.
     case exception_text e of
       None \<Rightarrow> (s, Inl e)
     | Some what \<Rightarrow>
         (s\<lparr>ss_db := sq_finalize api st (ss_db s), ss_stmts := (ss_stmts s)(hash := None)\<rparr>,
          Inl (Runtime_error (''sqlite bind/exec query sql failed: '' @ what))))"

definition run_stmt ::
  "'db sqlite_api \<Rightarrow> string \<Rightarrow> stmt \<Rightarrow> (world \<Rightarrow> 'db bind_ctx \<Rightarrow> (error \<times> 'db) + 'db bind_ctx) \<Rightarrow>
   (stmt \<Rightarrow> ('db, 'r) sq) \<Rightarrow> ('db, 'r) sq" where
  "run_stmt api hash st bnd exe = (\<lambda>s.
     case bnd (ss_world s) \<lparr>bc_stmt = st, bc_index = 0, bc_db = ss_db s\<rparr> of
       Inl (e, db) \<Rightarrow> drop_stmt api hash st e (s\<lparr>ss_db := db\<rparr>)
     | Inr ctx \<Rightarrow>
         (case exe st (s\<lparr>ss_db := bc_db ctx\<rparr>) of
            (s', Inl e) \<Rightarrow> drop_stmt api hash st e s'
          | (s', Inr r) \<Rightarrow>
              (s'\<lparr>ss_db := sq_clear_bindings api st (sq_reset api st (ss_db s'))\<rparr>, Inr r)))"

text \<open>
  \<open>read_stmts_[hash] = create_stmt(...)\<close>: before C++17 either side may be evaluated first; the flag
  \<open>key_first\<close> is the compiler's choice.  When the key comes first and \<open>create_stmt\<close> throws, a null
  statement stays behind.
\<close>

definition execute ::
  "'db sqlite_api \<Rightarrow> bool \<Rightarrow> string \<Rightarrow> (world, string) sres \<Rightarrow>
   (world \<Rightarrow> 'db bind_ctx \<Rightarrow> (error \<times> 'db) + 'db bind_ctx) \<Rightarrow> (stmt \<Rightarrow> ('db, 'r) sq) \<Rightarrow> ('db, 'r) sq" where
  "execute api key_first hash mk bnd exe = (\<lambda>s.
     case ss_stmts s hash of
       Some st \<Rightarrow> run_stmt api hash st bnd exe s
     | None \<Rightarrow>
         (case create_stmt api mk s of
            (s', Inl e) \<Rightarrow>
              (if key_first then s'\<lparr>ss_stmts := (ss_stmts s')(hash \<mapsto> None)\<rparr> else s', Inl e)
          | (s', Inr st) \<Rightarrow>
              run_stmt api hash st bnd exe (s'\<lparr>ss_stmts := (ss_stmts s')(hash \<mapsto> st)\<rparr>)))"

text \<open>
  The result of \<open>exe\<close>, which the code stores through a reference, is returned; after an exception
  no caller looks at it.
\<close>

section \<open>Running a statement\<close>

definition step_stmt :: "'db sqlite_api \<Rightarrow> stmt \<Rightarrow> ('db, int) sq" where
  "step_stmt api st = (\<lambda>s. case sq_step api st (ss_db s) of (ret, db) \<Rightarrow> (s\<lparr>ss_db := db\<rparr>, Inr ret))"

text \<open>The result object a caller of \<open>read\<close> passes: one object, or a container of them.\<close>

datatype result = R_int "yan_val option" | R_obj class_decl addr | R_ints "yan_val list" | R_objs class_decl "addr list"

definition fetch_value :: "'db sqlite_api \<Rightarrow> stmt \<Rightarrow> result \<Rightarrow> ('db, result) sq" where
  "fetch_value api st ro = (\<lambda>s.
     case ro of
       R_obj c p \<Rightarrow> bindS (in_world (fetch_object api st (ss_db s) c p)) (\<lambda>_. returnS ro) s
     | R_int _ \<Rightarrow> (s, Inr (R_int (Some (fetch_count api st (ss_db s)))))
     | _ \<Rightarrow> (s, Inl Undefined_behaviour))"

text \<open>\<open>exec\<close> for one object: at most one row is read and the final code is ignored.\<close>

definition exec_one :: "'db sqlite_api \<Rightarrow> stmt \<Rightarrow> result \<Rightarrow> ('db, result) sq" where
  "exec_one api st ro = bindS (step_stmt api st) (\<lambda>ret.
     if ret = SQLITE_ROW then fetch_value api st ro else returnS ro)"

text \<open>\<open>exec\<close> for a container: one new element per row; the first argument bounds the number of steps.\<close>

definition exec_row :: "'db sqlite_api \<Rightarrow> stmt \<Rightarrow> result \<Rightarrow> ('db, result) sq" where
  "exec_row api st ro =
     (case ro of
        R_objs c ps \<Rightarrow>
          bindS (in_world (new_object c [])) (\<lambda>p.
          bindS (fetch_value api st (R_obj c p)) (\<lambda>_. returnS (R_objs c (ps @ [p]))))
      | R_ints vs \<Rightarrow> (\<lambda>s. (s, Inr (R_ints (vs @ [fetch_count api st (ss_db s)]))))
      | _ \<Rightarrow> throwS Undefined_behaviour)"

fun exec_rows :: "nat \<Rightarrow> 'db sqlite_api \<Rightarrow> stmt \<Rightarrow> result \<Rightarrow> ('db, result) sq" where
  "exec_rows 0 api st ro = throwS Out_of_fuel"
| "exec_rows (Suc n) api st ro = bindS (step_stmt api st) (\<lambda>ret.
     if ret = SQLITE_ROW then bindS (exec_row api st ro) (exec_rows n api st)
     else if ret \<noteq> SQLITE_DONE
     then (\<lambda>s. (s, Inl (errmsg api (ss_db s) ''sqlite query multi-value failed: '' ret)))
     else returnS ro)"

text \<open>\<open>exec_entity\<close>: count the rows that a delete yields.\<close>

fun exec_entity :: "nat \<Rightarrow> 'db sqlite_api \<Rightarrow> stmt \<Rightarrow> 64 word \<Rightarrow> ('db, 64 word) sq" where
  "exec_entity 0 api st r = throwS Out_of_fuel"
| "exec_entity (Suc n) api st r = bindS (step_stmt api st) (\<lambda>ret.
     if ret = SQLITE_ROW then exec_entity n api st (r + 1)
     else if ret \<noteq> SQLITE_DONE
     then (\<lambda>s. (s, Inl (errmsg api (ss_db s) ''sqlite update/delete value failed'' ret)))
     else returnS r)"

definition exec :: "nat \<Rightarrow> 'db sqlite_api \<Rightarrow> stmt \<Rightarrow> result \<Rightarrow> ('db, result) sq" where
  "exec fuel api st ro =
     (case ro of
        R_objs _ _ \<Rightarrow> exec_rows fuel api st ro
      | R_ints _ \<Rightarrow> exec_rows fuel api st ro
      | _ \<Rightarrow> exec_one api st ro)"

section \<open>The operations of a connection\<close>

definition ctx_write :: "'db sqlite_api \<Rightarrow> string \<Rightarrow> ('db, unit) sq" where
  "ctx_write api sql = (\<lambda>s.
     case sq_exec api (c_str sql) (ss_db s) of
       (ret, db) \<Rightarrow>
         (s\<lparr>ss_db := db\<rparr>, if ret \<noteq> SQLITE_OK then Inl (errmsg api db ''sqlite write sql failed'' ret) else Inr ()))"

definition query_text :: "(query_ctx \<Rightarrow> (world, query_ctx) sres) \<Rightarrow> (world, string) sres" where
  "query_text mk = bindS (mk query_ctx0) (\<lambda>ctx. returnS (qc_sql ctx))"

definition ctx_update :: "'db sqlite_api \<Rightarrow> bool \<Rightarrow> (addr \<Rightarrow> nat) \<Rightarrow> update_cond \<Rightarrow> ('db, unit) sq" where
  "ctx_update api key_first raw_size uc = (\<lambda>s.
     case uc_hash_value (ss_world s) uc of
       Inl e \<Rightarrow> (s, Inl e)
     | Inr h \<Rightarrow>
         execute api key_first (h @ ''U'') (\<lambda>w. (w, update_make raw_size w uc))
           (\<lambda>w ctx. bind_update api raw_size w ctx uc)
           (\<lambda>st. bindS (step_stmt api st) (\<lambda>_. returnS ())) s)"

definition ctx_del :: "nat \<Rightarrow> 'db sqlite_api \<Rightarrow> bool \<Rightarrow> read_cond \<Rightarrow> ('db, 64 word) sq" where
  "ctx_del fuel api key_first rc = (\<lambda>s.
     execute api key_first (rc_hash_value (ss_world s) rc @ ''D'') (\<lambda>w. (w, delete_make w rc))
       (\<lambda>w ctx. bind_read api w ctx rc) (\<lambda>st. exec_entity fuel api st 0) s)"

definition copy_key :: "world \<Rightarrow> join_cond list \<Rightarrow> read_cond list \<Rightarrow> string \<Rightarrow> string" where
  "copy_key w froms conds to =
     ''C'' @ concat (map (jc_hash_value w) froms) @ concat (map (rc_hash_value w) conds) @ to"

definition ctx_copy ::
  "'db sqlite_api \<Rightarrow> bool \<Rightarrow> join_cond list \<Rightarrow> read_cond \<Rightarrow> read_cond list \<Rightarrow> ('db, 64 word) sq" where
  "ctx_copy api key_first froms column conds = (\<lambda>s.
     case rc_get_obj_name (ss_world s) column of
       Inl e \<Rightarrow> (s, Inl e)
     | Inr to \<Rightarrow>
         execute api key_first (copy_key (ss_world s) froms conds to)
           (query_text (copy_make froms column conds))
           (\<lambda>w ctx. bind_reads api w ctx conds)
           (\<lambda>st. bindS (step_stmt api st) (\<lambda>_. returnS 0)) s)"

definition ctx_read :: "nat \<Rightarrow> 'db sqlite_api \<Rightarrow> bool \<Rightarrow> result \<Rightarrow> read_cond \<Rightarrow> ('db, result) sq" where
  "ctx_read fuel api key_first ro rc = (\<lambda>s.
     execute api key_first (rc_hash_value (ss_world s) rc) (query_text (query_make rc))
       (\<lambda>w ctx. bind_read api w ctx rc) (\<lambda>st. exec fuel api st ro) s)"

definition union_key :: "world \<Rightarrow> read_cond list \<Rightarrow> string" where
  "union_key w conds = concat (map (rc_hash_value w) conds)"

definition ctx_read_union :: "nat \<Rightarrow> 'db sqlite_api \<Rightarrow> bool \<Rightarrow> result \<Rightarrow> read_cond list \<Rightarrow> ('db, result) sq" where
  "ctx_read_union fuel api key_first ro conds = (\<lambda>s.
     execute api key_first (union_key (ss_world s) conds) (query_text (union_make conds))
       (\<lambda>w ctx. bind_reads api w ctx conds) (\<lambda>st. exec fuel api st ro) s)"

definition join_key :: "world \<Rightarrow> join_cond list \<Rightarrow> read_cond list \<Rightarrow> string" where
  "join_key w equals conds = concat (map (jc_hash_value w) equals) @ concat (map (rc_hash_value w) conds)"

definition ctx_read_join ::
  "nat \<Rightarrow> 'db sqlite_api \<Rightarrow> bool \<Rightarrow> ret_type \<Rightarrow> result \<Rightarrow> join_cond list \<Rightarrow> read_cond list \<Rightarrow> ('db, result) sq" where
  "ctx_read_join fuel api key_first ret ro equals conds = (\<lambda>s.
     execute api key_first (join_key (ss_world s) equals conds)
       (query_text (join_make (ReadCondImpl ret) equals conds))
       (\<lambda>w ctx. bind_reads api w ctx conds) (\<lambda>st. exec fuel api st ro) s)"

section \<open>The cache\<close>

definition stmts_frame :: "'db sq_state \<Rightarrow> 'db sq_state \<Rightarrow> bool" where
  "stmts_frame s s' \<longleftrightarrow> ss_stmts s' = ss_stmts s"

interpretation stmts: frame_rel stmts_frame
  by unfold_locales (simp_all add: stmts_frame_def)

lemma keeps_in_world: "keeps stmts_frame (in_world m)"
  by (simp add: keeps_def stmts_frame_def in_world_def split: prod.split)

lemma keeps_step_stmt: "keeps stmts_frame (step_stmt api st)"
  by (simp add: keeps_def stmts_frame_def step_stmt_def split: prod.split)

lemma keeps_create_stmt: "keeps stmts_frame (create_stmt api mk)"
  unfolding create_stmt_def
  by (intro stmts.keeps_bindS keeps_in_world)
    (simp add: keeps_def stmts_frame_def split: prod.split)

lemma keeps_fetch_value: "keeps stmts_frame (fetch_value api st ro)"
proof (cases ro)
  case (R_obj c p)
  show ?thesis
    unfolding keeps_def
  proof
    fix s :: "'a sq_state"
    have "stmts_frame s (fst (bindS (in_world (fetch_object api st (ss_db s) c p)) (\<lambda>_. returnS ro) s))"
      by (rule keepsD, intro stmts.keeps_bindS keeps_in_world stmts.keeps_returnS)
    then show "stmts_frame s (fst (fetch_value api st ro s))"
      by (simp add: fetch_value_def R_obj)
  qed
qed (simp_all add: fetch_value_def keeps_def stmts_frame_def)

lemma keeps_exec_one: "keeps stmts_frame (exec_one api st ro)"
  unfolding exec_one_def
  by (auto intro!: stmts.keeps_bindS keeps_step_stmt keeps_fetch_value stmts.keeps_returnS)

lemma keeps_exec_row: "keeps stmts_frame (exec_row api st ro)"
proof (cases ro)
  case (R_objs c ps)
  then show ?thesis
    by (simp add: exec_row_def stmts.keeps_bindS keeps_in_world keeps_fetch_value stmts.keeps_returnS)
qed (simp_all add: exec_row_def keeps_def stmts_frame_def)

lemma keeps_raise: "keeps stmts_frame (\<lambda>s. (s, Inl (f s)))"
  by (simp add: keeps_def stmts_frame_def)

lemma keeps_exec_rows: "keeps stmts_frame (exec_rows n api st ro)"
proof (induction n arbitrary: ro)
  case (Suc n)
  then show ?case
    by (auto intro!: stmts.keeps_bindS keeps_step_stmt keeps_exec_row stmts.keeps_returnS keeps_raise)
qed (simp add: stmts.keeps_throwS)

lemma keeps_exec_entity: "keeps stmts_frame (exec_entity n api st r)"
proof (induction n arbitrary: r)
  case (Suc n)
  then show ?case
    by (auto intro!: stmts.keeps_bindS keeps_step_stmt stmts.keeps_returnS keeps_raise)
qed (simp add: stmts.keeps_throwS)

lemma keeps_exec: "keeps stmts_frame (exec fuel api st ro)"
  by (cases ro) (simp_all add: exec_def keeps_exec_rows keeps_exec_one)

lemma keeps_step_only: "keeps stmts_frame (bindS (step_stmt api st) (\<lambda>_. returnS x))"
  by (intro stmts.keeps_bindS keeps_step_stmt stmts.keeps_returnS)

lemma keeps_stmts: "keeps stmts_frame m \<Longrightarrow> m s = (s', r) \<Longrightarrow> ss_stmts s' = ss_stmts s"
  by (drule keepsD [of _ _ s]) (simp add: stmts_frame_def)

section \<open>The life of a cached statement\<close>

lemma drop_stmt_fails: "drop_stmt api h st e s \<noteq> (s', Inr r)"
  by (simp add: drop_stmt_def split: option.split)

lemma drop_stmt_cache:
  "drop_stmt api h st e s = (s', Inl (Runtime_error x)) \<Longrightarrow> ss_stmts s' = (ss_stmts s)(h := None)"
  by (cases e) (auto simp: drop_stmt_def)

lemma run_stmt_cases:
  obtains (binding) e t where "run_stmt api h st bnd exe s = drop_stmt api h st e t" and "ss_stmts t = ss_stmts s"
  | (running) t t' e where "exe st t = (t', Inl e)" and "ss_stmts t = ss_stmts s"
      and "run_stmt api h st bnd exe s = drop_stmt api h st e t'"
  | (finished) t t' r db where "exe st t = (t', Inr r)" and "ss_stmts t = ss_stmts s"
      and "run_stmt api h st bnd exe s = (t'\<lparr>ss_db := db\<rparr>, Inr r)"
proof (cases "bnd (ss_world s) \<lparr>bc_stmt = st, bc_index = 0, bc_db = ss_db s\<rparr>")
  case (Inl f)
  show ?thesis by (rule binding [of "fst f" "s\<lparr>ss_db := snd f\<rparr>"]) (simp_all add: run_stmt_def Inl split: prod.split)
next
  case (Inr ctx)
  obtain t' r where e: "exe st (s\<lparr>ss_db := bc_db ctx\<rparr>) = (t', r)" by force
  show ?thesis
  proof (cases r)
    case [simp]: (Inl f)
    show ?thesis by (rule running [where t = "s\<lparr>ss_db := bc_db ctx\<rparr>"]) (use e in \<open>simp_all add: run_stmt_def Inr\<close>)
  next
    case [simp]: (Inr x)
    show ?thesis by (rule finished [where t = "s\<lparr>ss_db := bc_db ctx\<rparr>"]) (use e in \<open>simp_all add: run_stmt_def \<open>bnd _ _ = _\<close>\<close>)
  qed
qed

lemma run_stmt_success:
  assumes "run_stmt api h st bnd exe s = (s', Inr r)" and "keeps stmts_frame (exe st)"
  shows "ss_stmts s' = ss_stmts s"
  by (cases rule: run_stmt_cases [of api h st bnd exe s])
    (use assms(1) keeps_stmts [OF assms(2)] in \<open>auto simp: drop_stmt_fails [THEN not_sym]\<close>)

lemma run_stmt_failure:
  assumes "run_stmt api h st bnd exe s = (s', Inl (Runtime_error x))" and "keeps stmts_frame (exe st)"
  shows "ss_stmts s' = (ss_stmts s)(h := None)"
  by (cases rule: run_stmt_cases [of api h st bnd exe s])
    (use assms(1) keeps_stmts [OF assms(2)] in \<open>auto dest!: drop_stmt_cache [OF sym]\<close>)

lemma execute_cached:
  "ss_stmts s h = Some st \<Longrightarrow> execute api key_first h mk bnd exe s = run_stmt api h st bnd exe s"
  by (simp add: execute_def)

lemma execute_success:
  assumes "execute api key_first h mk bnd exe s = (s', Inr r)" and "\<And>st. keeps stmts_frame (exe st)"
  obtains st where "ss_stmts s' = (ss_stmts s)(h \<mapsto> st)" and "\<And>st0. ss_stmts s h = Some st0 \<Longrightarrow> st0 = st"
proof (cases "ss_stmts s h")
  case (Some st)
  with assms(1) have "run_stmt api h st bnd exe s = (s', Inr r)" by (simp add: execute_cached)
  from run_stmt_success [OF this assms(2)] have "ss_stmts s' = (ss_stmts s)(h \<mapsto> st)"
    using Some by (simp add: fun_upd_idem)
  then show ?thesis by (rule that) (use Some in simp)
next
  case None
  with assms(1) obtain s1 st where c: "create_stmt api mk s = (s1, Inr st)"
    and run: "run_stmt api h st bnd exe (s1\<lparr>ss_stmts := (ss_stmts s1)(h \<mapsto> st)\<rparr>) = (s', Inr r)"
    by (auto simp: execute_def split: sum.splits prod.splits if_splits)
  from run_stmt_success [OF run assms(2)] keeps_stmts [OF keeps_create_stmt c]
  have "ss_stmts s' = (ss_stmts s)(h \<mapsto> st)" by simp
  then show ?thesis by (rule that) (use None in simp)
qed

lemma execute_failure:
  assumes "execute api False h mk bnd exe s = (s', Inl (Runtime_error x))"
    and "\<And>st. keeps stmts_frame (exe st)"
  shows "ss_stmts s' = (ss_stmts s)(h := None)"
proof (cases "ss_stmts s h")
  case (Some st)
  with assms(1) have "run_stmt api h st bnd exe s = (s', Inl (Runtime_error x))" by (simp add: execute_cached)
  then show ?thesis using assms(2) by (rule run_stmt_failure)
next
  case None
  obtain s1 r where c: "create_stmt api mk s = (s1, r)" by force
  note k = keeps_stmts [OF keeps_create_stmt c]
  show ?thesis
  proof (cases r)
    case (Inl e)
    with assms(1) None c k show ?thesis by (simp add: execute_def fun_upd_idem)
  next
    case (Inr st)
    with assms(1) None c
    have "run_stmt api h st bnd exe (s1\<lparr>ss_stmts := (ss_stmts s1)(h \<mapsto> st)\<rparr>) = (s', Inl (Runtime_error x))"
      by (simp add: execute_def)
    from run_stmt_failure [OF this assms(2)] k show ?thesis by simp
  qed
qed

text \<open>
  A successful read leaves its statement in the cache under the request's key, next to the entries
  that were there (an entry under the key is kept as it is), and every later read whose request has
  the same key runs exactly that statement, whatever text and result type it was issued for.
\<close>

theorem statement_is_reused:
  assumes "ctx_read fuel api key_first ro rc s = (s', Inr r)"
  shows "\<exists>st. ss_stmts s' = (ss_stmts s)(rc_hash_value (ss_world s) rc \<mapsto> st) \<and>
    (\<forall>st0. ss_stmts s (rc_hash_value (ss_world s) rc) = Some st0 \<longrightarrow> st0 = st) \<and>
    (\<forall>fuel' key_first' ro' rc'. rc_hash_value (ss_world s') rc' = rc_hash_value (ss_world s) rc \<longrightarrow>
       ctx_read fuel' api key_first' ro' rc' s' =
         run_stmt api (rc_hash_value (ss_world s') rc') st (\<lambda>w ctx. bind_read api w ctx rc')
           (\<lambda>st. exec fuel' api st ro') s')"
proof -
  from assms obtain st where "ss_stmts s' = (ss_stmts s)(rc_hash_value (ss_world s) rc \<mapsto> st)"
    and "\<And>st0. ss_stmts s (rc_hash_value (ss_world s) rc) = Some st0 \<Longrightarrow> st0 = st"
    using execute_success [OF assms [unfolded ctx_read_def] keeps_exec] by metis
  then show ?thesis
    by (intro exI [of _ st]) (auto simp: ctx_read_def execute_cached)
qed

text \<open>
  C16: when the left-hand side of the cache assignment is evaluated second, an operation of the
  connection that fails with a \<open>std::exception\<close> removes the entry under its own key and no other:
  a failed request leaves no unusable statement behind.  (Stated for \<open>execute\<close>, through which the
  six cached operations go.)
\<close>

theorem failed_request_drops_its_statement:
  assumes "execute api False h mk bnd exe s = (s', Inl (Runtime_error x))"
    and "\<And>st. keeps stmts_frame (exe st)"
  shows "ss_stmts s' = (ss_stmts s)(h := None)"
  using assms by (rule execute_failure)

text \<open>
  When the left-hand side is evaluated first (allowed before C++17, and the build asks for
  C++11), a request whose statement cannot be prepared leaves a null statement under its key, which
  the next request with that key binds and runs without preparing anything.
\<close>

theorem failed_prepare_leaves_null_statement:
  assumes "ss_stmts s h = None" and "create_stmt api mk s = (s1, Inl e)"
  shows "\<exists>s'. execute api True h mk bnd exe s = (s', Inl e) \<and> ss_stmts s' = (ss_stmts s)(h \<mapsto> None) \<and>
    (\<forall>key_first mk' bnd' exe'. execute api key_first h mk' bnd' exe' s' = run_stmt api h None bnd' exe' s')"
  using assms keeps_stmts [OF keeps_create_stmt assms(2)]
  by (auto simp: execute_def fun_eq_iff)

section \<open>The rows of a result\<close>

text \<open>Stepping yields a row for each listed library state, then the code \<open>code\<close> and the state \<open>d\<close>.\<close>

fun rows_then :: "'db sqlite_api \<Rightarrow> stmt \<Rightarrow> int \<Rightarrow> 'db \<Rightarrow> 'db \<Rightarrow> 'db list \<Rightarrow> bool" where
  "rows_then api st code d db [] \<longleftrightarrow> sq_step api st db = (code, d)"
| "rows_then api st code d db (r # rs) \<longleftrightarrow>
     sq_step api st db = (SQLITE_ROW, r) \<and> rows_then api st code d r rs"

lemma step_stmt_run: "sq_step api st (ss_db s) = (code, d) \<Longrightarrow> step_stmt api st s = (s\<lparr>ss_db := d\<rparr>, Inr code)"
  by (simp add: step_stmt_def)

lemma row_done [simp]: "SQLITE_DONE \<noteq> SQLITE_ROW" "SQLITE_ROW \<noteq> SQLITE_DONE"
  by (simp_all add: SQLITE_DONE_def SQLITE_ROW_def)

lemma exec_entity_run:
  assumes "rows_then api st code d (ss_db s) rs" and "length rs < fuel" and "code \<noteq> SQLITE_ROW"
  shows "exec_entity fuel api st n s =
    (s\<lparr>ss_db := d\<rparr>, if code = SQLITE_DONE then Inr (n + of_nat (length rs))
                 else Inl (errmsg api d ''sqlite update/delete value failed'' code))"
  using assms
proof (induction rs arbitrary: fuel n s)
  case Nil
  then show ?case by (cases fuel) (auto simp: bindS_apply step_stmt_run)
next
  case (Cons r rs)
  from Cons.prems obtain fuel' where f: "fuel = Suc fuel'" "length rs < fuel'" by (cases fuel) simp_all
  from Cons.prems have "step_stmt api st s = (s\<lparr>ss_db := r\<rparr>, Inr SQLITE_ROW)" by (auto intro: step_stmt_run)
  moreover have "rows_then api st code d (ss_db (s\<lparr>ss_db := r\<rparr>)) rs" using Cons.prems by simp
  from Cons.IH [OF this f(2) assms(3)]
  have "exec_entity fuel' api st (n + 1) (s\<lparr>ss_db := r\<rparr>) =
      (s\<lparr>ss_db := d\<rparr>, if code = SQLITE_DONE then Inr (n + 1 + of_nat (length rs))
                 else Inl (errmsg api d ''sqlite update/delete value failed'' code))" by simp
  ultimately show ?case by (simp add: f bindS_apply algebra_simps)
qed

lemma exec_rows_ints_run:
  assumes "rows_then api st code d (ss_db s) rs" and "length rs < fuel" and "code \<noteq> SQLITE_ROW"
  shows "exec_rows fuel api st (R_ints vs) s =
    (s\<lparr>ss_db := d\<rparr>, if code = SQLITE_DONE then Inr (R_ints (vs @ map (fetch_count api st) rs))
                 else Inl (errmsg api d ''sqlite query multi-value failed: '' code))"
  using assms
proof (induction rs arbitrary: fuel vs s)
  case Nil
  then show ?case by (cases fuel) (auto simp: bindS_apply step_stmt_run)
next
  case (Cons r rs)
  from Cons.prems obtain fuel' where f: "fuel = Suc fuel'" "length rs < fuel'" by (cases fuel) simp_all
  from Cons.prems have "step_stmt api st s = (s\<lparr>ss_db := r\<rparr>, Inr SQLITE_ROW)" by (auto intro: step_stmt_run)
  moreover have "rows_then api st code d (ss_db (s\<lparr>ss_db := r\<rparr>)) rs" using Cons.prems by simp
  note Cons.IH [OF this f(2) assms(3), of "vs @ [fetch_count api st r]"]
  ultimately show ?case by (simp add: f bindS_apply exec_row_def)
qed

lemma exec_row_objs:
  "exec_row api st (R_objs c ps) s = (s', r) \<Longrightarrow>
    ss_db s' = ss_db s \<and> (\<forall>ro. r = Inr ro \<longrightarrow> (\<exists>p. ro = R_objs c (ps @ [p])))"
  by (auto simp: exec_row_def bindS_apply in_world_def fetch_value_def split: sum.splits prod.splits)

text \<open>
  The loop over a container's rows ends: with as many steps allowed as there are rows, plus one,
  further steps allowed change nothing; a successful read appends exactly one new object per row to
  the container, in the order of the rows, and leaves the library in the state after the last step.
\<close>

theorem container_read_collects_rows:
  assumes "rows_then api st code d (ss_db s) rs" and "code \<noteq> SQLITE_ROW" and "length rs < fuel"
  shows "exec_rows fuel api st (R_objs c ps) s = exec_rows (Suc (length rs)) api st (R_objs c ps) s \<and>
    (\<forall>s' ro. exec_rows fuel api st (R_objs c ps) s = (s', Inr ro) \<longrightarrow>
       code = SQLITE_DONE \<and> ss_db s' = d \<and> (\<exists>qs. ro = R_objs c (ps @ qs) \<and> length qs = length rs))"
  using assms
proof (induction rs arbitrary: fuel ps s)
  case Nil
  then show ?case by (cases fuel) (auto simp: bindS_apply step_stmt_run)
next
  case (Cons r rs)
  from Cons.prems obtain fuel' where f: "fuel = Suc fuel'" "length rs < fuel'" by (cases fuel) simp_all
  from Cons.prems have st: "step_stmt api st s = (s\<lparr>ss_db := r\<rparr>, Inr SQLITE_ROW)" by (auto intro: step_stmt_run)
  obtain s1 x where row: "exec_row api st (R_objs c ps) (s\<lparr>ss_db := r\<rparr>) = (s1, x)" by force
  note R = exec_row_objs [OF row]
  have run: "exec_rows (Suc n) api st (R_objs c ps) s =
      (case x of Inl e \<Rightarrow> (s1, Inl e) | Inr ro \<Rightarrow> exec_rows n api st ro s1)" for n
    by (simp add: bindS_apply st row split: sum.split)
  show ?case
  proof (cases x)
    case (Inl e)
    then show ?thesis by (simp only: f run list.size add_0_right add_Suc_right) simp
  next
    case (Inr ro)
    with R obtain p where ro: "ro = R_objs c (ps @ [p])" and "ss_db s1 = r" by auto
    with Cons.prems have "rows_then api st code d (ss_db s1) rs" by simp
    note IH = Cons.IH [OF this Cons.prems(2) f(2), of "ps @ [p]"]
    have 1: "exec_rows fuel api st (R_objs c ps) s = exec_rows fuel' api st (R_objs c (ps @ [p])) s1"
      by (simp only: f run Inr ro sum.case)
    have 2: "exec_rows (Suc (length (r # rs))) api st (R_objs c ps) s =
        exec_rows (Suc (length rs)) api st (R_objs c (ps @ [p])) s1"
      by (simp only: list.size add_0_right add_Suc_right run Inr ro sum.case)
    have grow: "\<exists>qs. ro = R_objs c (ps @ qs) \<and> length qs = length (r # rs)"
      if "\<exists>qs. ro = R_objs c ((ps @ [p]) @ qs) \<and> length qs = length rs" for ro
    proof -
      from that obtain qs where "ro = R_objs c ((ps @ [p]) @ qs)" "length qs = length rs" by blast
      then show ?thesis by (intro exI [of _ "p # qs"]) simp
    qed
    show ?thesis
      unfolding 1 2 using IH grow by blast
  qed
qed

text \<open>
  A delete counts the rows it is handed (modulo \<open>2 ^ 64\<close>) and a container of numbers receives the
  first column of every row; both fail with the library's message when the last code is not
  \<open>SQLITE_DONE\<close>, and in both the loop stops after one step more than there are rows.
\<close>

theorem counted_and_collected_rows:
  assumes "rows_then api st code d (ss_db s) rs" and "code \<noteq> SQLITE_ROW" and "length rs < fuel"
  shows "exec_entity fuel api st n s =
      (s\<lparr>ss_db := d\<rparr>, if code = SQLITE_DONE then Inr (n + of_nat (length rs))
                   else Inl (errmsg api d ''sqlite update/delete value failed'' code)) \<and>
    exec_rows fuel api st (R_ints vs) s =
      (s\<lparr>ss_db := d\<rparr>, if code = SQLITE_DONE then Inr (R_ints (vs @ map (fetch_count api st) rs))
                   else Inl (errmsg api d ''sqlite query multi-value failed: '' code))"
  using exec_entity_run [OF assms(1,3,2)] exec_rows_ints_run [OF assms(1,3,2)] by blast

section \<open>Keys and texts\<close>

lemma le16_inject: "le16 a = le16 b \<longleftrightarrow> a = b"
proof
  assume "le16 a = le16 b"
  then have 1: "unat a mod 256 = unat b mod 256" "unat a div 256 mod 256 = unat b div 256 mod 256"
    by (simp_all add: le16_def)
  have "unat x div 256 mod 256 = unat x div 256" for x :: "16 word"
    using unsigned_less [of x, where 'a = nat] by (simp add: less_mult_imp_div_less)
  with 1 show "a = b" by (metis div_mult_mod_eq word_unat_eq_iff)
qed simp

lemma le16_length [simp]: "length (le16 a) = 2"
  by (simp add: le16_def)

lemma hash_entry_inject:
  "hash_entry a = hash_entry b \<longleftrightarrow> param_seq a = param_seq b \<and> param_cond a = param_cond b"
  by (simp add: hash_entry_def append_eq_append_conv le16_inject)

lemma hash_entry_length [simp]: "length (hash_entry a) = 4"
  by (simp add: hash_entry_def)

lemma hash_list_inject:
  "concat (map hash_entry ps) = concat (map hash_entry qs) \<Longrightarrow>
    map (\<lambda>p. (param_seq p, param_cond p)) ps = map (\<lambda>p. (param_seq p, param_cond p)) qs"
proof (induction ps arbitrary: qs)
  case Nil
  then show ?case by (cases qs) (auto dest: arg_cong [where f = length])
next
  case (Cons p ps)
  show ?case
  proof (cases qs)
    case Nil
    with Cons.prems show ?thesis by (auto dest: arg_cong [where f = length])
  next
    case (Cons q qs')
    with \<open>concat _ = _\<close> have "hash_entry p = hash_entry q \<and> concat (map hash_entry ps) = concat (map hash_entry qs')"
      by (simp add: append_eq_append_conv)
    with Cons.IH Cons show ?thesis by (simp add: hash_entry_inject)
  qed
qed

text \<open>What \<open>append\<close> leaves in a request: the hash spells the parameters.\<close>

definition request_hash_ok :: "world \<Rightarrow> read_cond \<Rightarrow> bool" where
  "request_hash_ok w rc \<longleftrightarrow>
     rc_hash rc = (if has_cond rc then concat (map hash_entry (params_of w rc)) else '''')"

lemma conds_text_cong:
  assumes "map (\<lambda>p. (param_seq p, param_cond p)) ps = map (\<lambda>p. (param_seq p, param_cond p)) qs"
  shows "where_text ms ps = where_text ms qs"
proof -
  let ?f = "\<lambda>(i, c). (mi_get_name (ms ! unat i), get_mem_cond_type c, get_mem_ops_type c)"
  have "map (cond_item_of ms) rs = map ?f (map (\<lambda>p. (param_seq p, param_cond p)) rs)" for rs
    by (simp add: cond_item_of_def)
  then have "map (cond_item_of ms) ps = map (cond_item_of ms) qs"
    by (simp only: assms)
  then show ?thesis by (simp only: where_text_def)
qed

text \<open>The world enters a text through the registry and the request's own condition list only.\<close>

lemma same_registry:
  assumes "w_reg w = w_reg w'"
  shows "class_name w = class_name w'" and "class_members w = class_members w'"
    and "from_name w = from_name w'" and "column_of w = column_of w'"
    and "rc_ret rc = rc_ret rc' \<Longrightarrow> rc_cys rc = rc_cys rc' \<Longrightarrow> ret_columns_text w rc = ret_columns_text w' rc'"
    and "rc_ret rc = rc_ret rc' \<Longrightarrow> rc_cys rc = rc_cys rc' \<Longrightarrow> table_of w rc = table_of w' rc'"
proof -
  show 1: "class_name w = class_name w'" "class_members w = class_members w'" "from_name w = from_name w'"
    by (rule ext, simp add: class_name_def class_members_def from_name_def assms cong: option.case_cong)+
  then show 2: "column_of w = column_of w'" by (simp add: fun_eq_iff column_of_def)
  show "rc_ret rc = rc_ret rc' \<Longrightarrow> rc_cys rc = rc_cys rc' \<Longrightarrow> ret_columns_text w rc = ret_columns_text w' rc'"
    "rc_ret rc = rc_ret rc' \<Longrightarrow> rc_cys rc = rc_cys rc' \<Longrightarrow> table_of w rc = table_of w' rc'"
    by (simp_all only: ret_columns_text_def table_of_def 1 2)
qed

definition conds_ok :: "world \<Rightarrow> read_cond \<Rightarrow> bool" where
  "conds_ok w rc \<longleftrightarrow> (has_cond rc \<longrightarrow> (\<exists>c ps. conds_of w rc c ps \<and> first_is_field ps))"

lemma hash_spells_conds:
  assumes "conds_ok w rc" and "request_hash_ok w rc"
  shows "has_cond rc \<longleftrightarrow> rc_hash rc \<noteq> []"
    and "has_cond rc \<Longrightarrow> rc_hash rc = concat (map hash_entry (params_of w rc))"
proof -
  show "has_cond rc \<longleftrightarrow> rc_hash rc \<noteq> []"
  proof (cases "has_cond rc")
    case True
    with assms obtain c ps where "conds_of w rc c ps" "first_is_field ps" by (auto simp: conds_ok_def)
    then have "params_of w rc \<noteq> []" by (auto simp: conds_of_def params_of_def first_is_field_def)
    then have "concat (map hash_entry (params_of w rc)) \<noteq> []"
      by (cases "params_of w rc") (auto dest: arg_cong [where f = length] simp: hash_entry_def le16_def)
    with True assms(2) show ?thesis by (simp add: request_hash_ok_def)
  qed (use assms(2) in \<open>simp add: request_hash_ok_def\<close>)
  show "has_cond rc \<Longrightarrow> rc_hash rc = concat (map hash_entry (params_of w rc))"
    using assms(2) by (simp add: request_hash_ok_def)
qed

lemma equal_hashes_equal_conds:
  assumes "w_reg w = w_reg w'" and "rc_cys rc = Some c" and "rc_cys rc' = Some c"
    and "conds_ok w rc" and "conds_ok w' rc'" and "request_hash_ok w rc" and "request_hash_ok w' rc'"
    and "rc_hash rc = rc_hash rc'"
  shows "where_clause w rc = where_clause w' rc'"
proof -
  note 1 = hash_spells_conds [OF assms(4,6)] and 2 = hash_spells_conds [OF assms(5,7)]
  from 1(1) 2(1) assms(8) have hc: "has_cond rc = has_cond rc'" by metis
  show ?thesis
  proof (cases "has_cond rc")
    case True
    with hc 1(2) 2(2) assms(8) have "concat (map hash_entry (params_of w rc)) = concat (map hash_entry (params_of w' rc'))"
      by metis
    from conds_text_cong [OF hash_list_inject [OF this]] True hc assms(2,3) show ?thesis
      by (simp add: where_clause_def same_registry(2) [OF assms(1)])
  qed (use hc in \<open>simp add: where_clause_def\<close>)
qed

lemma equal_keys_equal_text_run:
  assumes "w_reg w = w_reg w'" and "rc_ret rc = rc_ret rc'" and "rc_cys rc = Some c" and "rc_cys rc' = Some c"
    and "conds_ok w rc" and "conds_ok w' rc'"
    and "request_hash_ok w rc" and "request_hash_ok w' rc'"
    and "rc_hash_value w rc = rc_hash_value w' rc'"
  shows "select_text w rc = select_text w' rc'"
proof -
  from assms(2-4,9) have "rc_hash rc = rc_hash rc'"
    by (auto simp: rc_hash_value_def same_registry(1) [OF assms(1)] split: ret_type.splits)
  from equal_hashes_equal_conds [OF assms(1,3,4,5,6,7,8) this] show ?thesis
    using assms(2-4) by (simp add: select_text_def same_registry(5,6) [OF assms(1)])
qed

text \<open>
  The cache is sound for requests of the same result type on the same table: when two such
  requests, whose hashes spell their conditions, have the same key, they have the same text, so that a
  cached statement is the one the second request would have prepared.  (The keys of one request at two
  moments, or of two requests that differ in their operands only, are of this kind.)
\<close>

theorem equal_keys_equal_text:
  assumes "rc_ret rc = rc_ret rc'" and "rc_cys rc = Some c" and "rc_cys rc' = Some c"
    and "read_request_ok w rc" and "read_request_ok w rc'"
    and "request_hash_ok w rc" and "request_hash_ok w rc'"
    and "rc_hash_value w rc = rc_hash_value w rc'"
  shows "select_text w rc = select_text w rc'"
  using assms by (intro equal_keys_equal_text_run [OF refl]) (auto simp: read_request_ok_def conds_ok_def)

text \<open>A comparison on an object that already holds conditions, through the pointer a request has taken.\<close>

lemma compare_extends_shared_list:
  assumes ok: "table_obj_ok w p" and at: "at_member w p ob mem t m" and "vm_cond m \<noteq> 0"
    and l: "ob_conds ob = Some l"
  obtains w' prm where "member_compare opstype v p mem w = (w', Inr ())" and "w_reg w' = w_reg w"
    and "w_plists w' l = Some (obj_params w ob @ [prm])"
proof -
  have "w_objs w p = Some ob" using at by (simp add: at_member_def)
  with ok have tok: "table_ok w p ob" by (auto simp: table_obj_ok_def)
  have own: "vm_obj m = p" "ob_chain ob = []"
    using at_member_index [OF tok at] tok by (auto simp: value_member_ok_def table_ok_def)
  from tok l obtain ps where ps: "w_plists w l = Some ps" by (auto simp: table_ok_def)
  let ?prm = "make_param mem t (set_mem_cond_type (vm_cond m) opstype) (obj_member_seq ob mem w) v"
  obtain ob' w' where st: "store_param p ?prm ob w = (ob', w')" by force
  with l ps have w': "w' = w\<lparr>w_plists := (w_plists w)(l \<mapsto> ps @ [?prm])\<rparr>" by (simp add: store_param_def)
  have "member_compare opstype v p mem w =
      (put_obj p (put_mem mem (MO_value (m\<lparr>vm_cond := 0\<rparr>)) ob') w', Inr ())"
    by (rule member_compare_run [OF at own assms(3) _ refl st]) (use l ps in simp)
  then show ?thesis by (rule that) (use l ps w' in \<open>simp_all add: obj_params_def put_obj_def\<close>)
qed

text \<open>
  A request takes the object's condition list by reference and its hash by value.  When it is
  built its key spells its conditions; after one more comparison on the object, made while the request
  still waits in the queue, its condition list has one parameter more and its key is the old one.
\<close>

theorem request_shares_conditions:
  assumes "table_obj_ok w p" and "at_member w p ob mem t m" and "vm_cond m \<noteq> 0" and "ob_conds ob \<noteq> None"
    and "rc_append w rc [(ob_class ob, p)] = Inr rc'" and "member_compare opstype v p mem w = (w', r)"
  shows "request_hash_ok w rc' \<and> conds_of w rc' (ob_class ob) (obj_params w ob) \<and>
    rc_hash_value w' rc' = rc_hash_value w rc' \<and>
    (\<exists>prm. params_of w' rc' = params_of w rc' @ [prm]) \<and> \<not> request_hash_ok w' rc'"
proof -
  have ob: "w_objs w p = Some ob" using assms(2) by (simp add: at_member_def)
  with assms(1) have ok: "table_ok w p ob" by (auto simp: table_obj_ok_def)
  from assms(4) obtain l where l: "ob_conds ob = Some l" by blast
  with ok obtain ps where ps: "w_plists w l = Some ps" by (auto simp: table_ok_def)
  from compare_extends_shared_list [OF assms(1-3) l, of opstype v] assms(6) obtain prm where
    w': "w_reg w' = w_reg w" "w_plists w' l = Some (ps @ [prm])"
    using l ps by (auto simp: obj_params_def)
  have rc': "rc' = rc\<lparr>rc_cys := Some (ob_class ob), rc_params := Some l, rc_hash := ob_hashv ob\<rparr>"
    using assms(5) ob l by (simp add: rc_append_def rc_append1_def)
  have par: "params_of w rc' = ps" "params_of w' rc' = ps @ [prm]" and has: "has_cond rc'"
    using rc' ps w' by (simp_all add: params_of_def rc_param_list_def has_cond_def)
  have hash: "rc_hash rc' = concat (map hash_entry ps)"
    using ok rc' l ps by (simp add: table_ok_def obj_params_def)
  have "request_hash_ok w rc'" "\<not> request_hash_ok w' rc'"
    using has par hash by (auto simp: request_hash_ok_def dest: arg_cong [where f = length])
  moreover have "conds_of w rc' (ob_class ob) (obj_params w ob)"
    using ok rc' l ps by (simp add: conds_of_def table_ok_def obj_params_def rc_param_list_def)
  moreover have "class_name w' = class_name w" by (intro ext) (simp add: class_name_def w')
  then have "rc_hash_value w' rc' = rc_hash_value w rc'" unfolding rc_hash_value_def by (rule ssubst) (rule refl)
  ultimately show ?thesis using par by blast
qed

lemma query_text_run:
  "read_request_ok w rc \<Longrightarrow> query_text (query_make rc) w = (w, Inr (select_text w rc))"
  using query_make_run [of w rc query_ctx0] by (auto simp: query_text_def bindS_apply)

lemma read_and_count_run:
  assumes "ret_ok w (ReadCondImpl (Ret_class c))"
    and "find (\<lambda>m. mi_type m \<noteq> YT_AUTO_INCREMENT) (class_members w c) = Some m"
  shows "rc_hash_value w (ReadCondImpl (Ret_class c)) = rc_hash_value w (rc_append_table c (ReadCondImpl Ret_int64)) \<and>
    query_text (query_make (ReadCondImpl (Ret_class c))) w = (w, Inr (''SELECT * FROM '' @ class_name w c)) \<and>
    query_text (query_make (rc_append_table c (ReadCondImpl Ret_int64))) w =
      (w, Inr (''SELECT COUNT('' @ mi_get_name m @ '') FROM '' @ class_name w c))"
proof -
  let ?r = "ReadCondImpl (Ret_class c)" and ?n = "rc_append_table c (ReadCondImpl Ret_int64)"
  have ne: "class_members w c \<noteq> []" using assms(2) by auto
  have "read_request_ok w ?r" "read_request_ok w ?n"
    using assms(1) ne by (simp_all add: read_request_ok_def has_cond_def ret_ok_def ReadCondImpl_def rc_append_table_def)
  note t = this [THEN query_text_run]
  show ?thesis
    unfolding t using assms(2)
    by (simp add: rc_hash_value_def select_text_def ret_columns_text_def table_of_def where_clause_def has_cond_def
        ReadCondImpl_def rc_append_table_def)
qed

text \<open>
  Reading a whole table and counting its rows have the same key, the table's name, but different
  texts, \<open>SELECT *\<close> and \<open>SELECT COUNT\<close>: on one connection the second of the two runs the statement
  of the first.
\<close>

theorem read_and_count_share_a_key:
  assumes "ret_ok w (ReadCondImpl (Ret_class c))"
    and "find (\<lambda>m. mi_type m \<noteq> YT_AUTO_INCREMENT) (class_members w c) = Some m"
  shows "rc_hash_value w (ReadCondImpl (Ret_class c)) = rc_hash_value w (rc_append_table c (ReadCondImpl Ret_int64)) \<and>
    query_text (query_make (ReadCondImpl (Ret_class c))) w = (w, Inr (''SELECT * FROM '' @ class_name w c)) \<and>
    query_text (query_make (rc_append_table c (ReadCondImpl Ret_int64))) w =
      (w, Inr (''SELECT COUNT('' @ mi_get_name m @ '') FROM '' @ class_name w c))"
  using assms by (rule read_and_count_run)

text \<open>The key of an update spells its sequence numbers without separators.\<close>

lemma update_keys_collide:
  assumes "seqs_of w (uc_lco uc) = Inr [1, 2]" and "seqs_of w (uc_lco uc') = Inr [12]"
    and "rc_hash_value w (read_cond.truncate uc) = rc_hash_value w (read_cond.truncate uc')"
  shows "uc_hash_value w uc = uc_hash_value w uc'"
  using assms
  by (simp add: uc_hash_value_def string_of_nat.simps [of 12] string_of_nat.simps [of "Suc 0"] string_of_nat.simps [of 2])

section \<open>Concrete instances\<close>

text \<open>
  A connection whose library prepares every text, has one row with the number 8 to give, and then is
  done; a request for the number of rows of one table.
\<close>

definition one_row_api :: "nat sqlite_api" where
  "one_row_api =
     \<lparr>sq_prepare = (\<lambda>s db. if s = ''bad;'' then ((1, None), db) else ((0, Some 1), db)), sq_exec = (\<lambda>s db. (0, db)),
      sq_bind_text = (\<lambda>st i s db. (0, db)), sq_bind_int = (\<lambda>st i x db. (0, db)),
      sq_bind_int64 = (\<lambda>st i x db. (0, db)),
      sq_step = (\<lambda>st db. if db = 0 then (100, 1) else (101, 0)), sq_reset = (\<lambda>st db. 0),
      sq_clear_bindings = (\<lambda>st db. db), sq_finalize = (\<lambda>st db. 0),
      sq_column_text = (\<lambda>st i db. Some ''cell''), sq_column_int = (\<lambda>st i db. 8), sq_column_int64 = (\<lambda>st i db. 8),
      sq_errstr = (\<lambda>i. ''error''), sq_errmsg = (\<lambda>db. ''error'')\<rparr>"

definition sample_state :: "nat sq_state" where
  "sample_state = \<lparr>ss_world = sample_world, ss_db = 0, ss_stmts = (\<lambda>_. None)\<rparr>"

definition sample_count :: read_cond where
  "sample_count = rc_append_table ComponentDB (ReadCondImpl Ret_int64)"

lemma sample_ret_ok: "ret_ok sample_world (ReadCondImpl (Ret_class ComponentDB))"
proof -
  have "from_name sample_world m \<noteq> COUNT_FIELD" if "m \<in> set (class_members sample_world ComponentDB)" for m
    using that unfolding sample_class_members COUNT_FIELD_def
    by (auto simp: ComponentDB_def from_name_def base_member_info_def CAN_BE_NULL_def)
  then show ?thesis by (simp add: ret_ok_def ReadCondImpl_def)
qed

lemma sample_count_member:
  "find (\<lambda>m. mi_type m \<noteq> YT_AUTO_INCREMENT) (class_members sample_world ComponentDB) =
     Some (decl_info (MEMBER ''component'' YT_STRING (Args1 ''c'')))"
  unfolding sample_class_members by (simp add: ComponentDB_def)

theorem read_and_count_share_a_key_witness:
  "rc_hash_value sample_world (ReadCondImpl (Ret_class ComponentDB)) = rc_hash_value sample_world sample_count \<and>
   query_text (query_make (ReadCondImpl (Ret_class ComponentDB))) sample_world = (sample_world, Inr ''SELECT * FROM tc'') \<and>
   query_text (query_make sample_count) sample_world = (sample_world, Inr ''SELECT COUNT(c) FROM tc'')"
  using read_and_count_share_a_key [OF sample_ret_ok sample_count_member]
  by (simp add: sample_count_def mi_get_name_def)

lemma one_row_simps [simp]:
  "sq_prepare one_row_api s db = (if s = ''bad;'' then ((1, None), db) else ((0, Some 1), db))"
  "sq_step one_row_api st db = (if db = 0 then (100, 1) else (101, 0))"
  "sq_column_int64 one_row_api st i db = 8"
  "sq_reset one_row_api st db = 0" "sq_clear_bindings one_row_api st db = db" "sq_finalize one_row_api st db = 0"
  "sq_errmsg one_row_api db = ''error''" "sq_errstr one_row_api i = ''error''"
  by (simp_all add: one_row_api_def)

lemma sample_rows_then: "rows_then one_row_api st SQLITE_DONE 0 0 [1]"
  by (simp add: SQLITE_ROW_def SQLITE_DONE_def)

definition sample_after :: "nat sq_state" where
  "sample_after = sample_state\<lparr>ss_stmts := [''tc'' \<mapsto> Some 1]\<rparr>"

lemma sample_key: "rc_hash_value (ss_world sample_state) sample_count = ''tc''"
  by (simp add: sample_state_def sample_count_def rc_hash_value_def rc_append_table_def ReadCondImpl_def)

lemma sample_count_run:
  "ctx_read 1 one_row_api kf (R_int None) sample_count sample_state =
     (sample_after, Inr (R_int (Some (V_int64 8))))"
proof -
  have t: "query_text (query_make sample_count) sample_world = (sample_world, Inr ''SELECT COUNT(c) FROM tc'')"
    using read_and_count_run [OF sample_ret_ok sample_count_member] by (simp add: sample_count_def mi_get_name_def)
  have nb: "\<not> has_cond sample_count"
    by (simp add: sample_count_def rc_append_table_def ReadCondImpl_def has_cond_def)
  have c: "create_stmt one_row_api (query_text (query_make sample_count)) sample_state = (sample_state, Inr (Some 1))"
    by (simp add: create_stmt_def bindS_apply in_world_def sample_state_def t c_str_def SQLITE_OK_def)
  show ?thesis
    unfolding ctx_read_def sample_key execute_def c
    by (simp add: sample_state_def sample_after_def run_stmt_def bind_read_def nb exec_def exec_one_def
        bindS_apply step_stmt_def SQLITE_ROW_def fetch_value_def fetch_count_def returnS_def)
qed

theorem statement_is_reused_witness:
  "ss_stmts sample_state ''tc'' = None \<and> ss_stmts sample_after ''tc'' = Some (Some 1) \<and>
   ctx_read 5 one_row_api True (R_int None) (ReadCondImpl (Ret_class ComponentDB)) sample_after =
     run_stmt one_row_api ''tc'' (Some 1) (\<lambda>w ctx. bind_read one_row_api w ctx (ReadCondImpl (Ret_class ComponentDB)))
       (\<lambda>st. exec 5 one_row_api st (R_int None)) sample_after"
proof -
  let ?rc = "ReadCondImpl (Ret_class ComponentDB)"
  have w: "ss_world sample_after = sample_world" by (simp add: sample_after_def sample_state_def)
  have k: "rc_hash_value (ss_world sample_after) ?rc = ''tc''"
    unfolding w by (simp add: rc_hash_value_def ReadCondImpl_def)
  from statement_is_reused [OF sample_count_run [of False], unfolded sample_key] obtain st where
    st: "ss_stmts sample_after = (ss_stmts sample_state)(''tc'' \<mapsto> st)" and
    all: "\<And>rc'. rc_hash_value (ss_world sample_after) rc' = ''tc'' \<Longrightarrow>
       ctx_read 5 one_row_api True (R_int None) rc' sample_after =
         run_stmt one_row_api (rc_hash_value (ss_world sample_after) rc') st (\<lambda>w ctx. bind_read one_row_api w ctx rc')
           (\<lambda>st. exec 5 one_row_api st (R_int None)) sample_after"
    by blast
  have "st = Some 1" using fun_cong [OF st, of "''tc''"] by (simp add: sample_after_def)
  with all [OF k] show ?thesis by (simp add: k) (simp add: sample_after_def sample_state_def)
qed

theorem failed_request_drops_its_statement_witness:
  "ss_stmts (fst (execute one_row_api False ''k'' (returnS ''bad'') (\<lambda>w ctx. Inr ctx) (step_stmt one_row_api)
     (sample_state\<lparr>ss_stmts := [''tc'' \<mapsto> Some 1]\<rparr>))) = [''tc'' \<mapsto> Some 1]"
proof -
  let ?s = "sample_state\<lparr>ss_stmts := [''tc'' \<mapsto> Some 1]\<rparr>"
  have r: "execute one_row_api False ''k'' (returnS ''bad'') (\<lambda>w ctx. Inr ctx) (step_stmt one_row_api) ?s =
      (?s, Inl (Runtime_error (''sqlite create prepared statement failed: error[error]'')))"
    by (simp add: execute_def create_stmt_def bindS_apply in_world_def returnS_def c_str_def SQLITE_OK_def errmsg_def
        sample_state_def)
  from failed_request_drops_its_statement [OF r keeps_step_stmt] show ?thesis
    unfolding r by simp
qed

theorem failed_prepare_leaves_null_statement_witness:
  "\<exists>s' e. execute one_row_api True ''k'' (returnS ''bad'') (\<lambda>w ctx. Inr ctx) (step_stmt one_row_api) sample_state = (s', Inl e) \<and>
     ss_stmts s' ''k'' = Some None"
proof -
  have n: "ss_stmts sample_state ''k'' = None" by (simp add: sample_state_def)
  have c: "create_stmt one_row_api (returnS ''bad'') sample_state =
      (sample_state, Inl (Runtime_error (''sqlite create prepared statement failed: error[error]'')))"
    by (simp add: create_stmt_def bindS_apply in_world_def returnS_def c_str_def SQLITE_OK_def errmsg_def
        sample_state_def)
  show ?thesis
    using failed_prepare_leaves_null_statement
        [OF n c, of "\<lambda>w ctx. Inr ctx" "step_stmt one_row_api"] by fastforce
qed

theorem counted_and_collected_rows_witness:
  "exec_entity 2 one_row_api (Some 1) 0 sample_state = (sample_state, Inr 1) \<and>
   exec_rows 2 one_row_api (Some 1) (R_ints []) sample_state = (sample_state, Inr (R_ints [V_int64 8]))"
proof -
  have r: "rows_then one_row_api (Some 1) SQLITE_DONE 0 (ss_db sample_state) [1]"
    using sample_rows_then by (simp add: sample_state_def)
  from counted_and_collected_rows [OF r, of 2 0 "[]"] show ?thesis
    by (simp add: fetch_count_def) (simp add: sample_state_def)
qed

theorem container_read_collects_rows_witness:
  "exec_rows 7 one_row_api (Some 1) (R_objs ComponentDB []) sample_state =
     exec_rows 2 one_row_api (Some 1) (R_objs ComponentDB []) sample_state"
proof -
  have r: "rows_then one_row_api (Some 1) SQLITE_DONE 0 (ss_db sample_state) [1]"
    using sample_rows_then by (simp add: sample_state_def)
  have "length [1 :: nat] < 7" by simp
  from container_read_collects_rows [OF r _ this, of ComponentDB "[]"] show ?thesis
    by (simp add: numeral_2_eq_2 del: exec_rows.simps)
qed

text \<open>The same conditions with another operand, in a list of its own.\<close>

definition other_conds :: "param list" where
  "other_conds = map (\<lambda>prm. prm\<lparr>param_val := PV (V_int32 9)\<rparr>) sample_conds5"

definition two_lists_world :: world where
  "two_lists_world = sample_world\<lparr>w_plists := (w_plists sample_world)(8 \<mapsto> other_conds)\<rparr>"

definition other_read :: read_cond where
  "other_read = (sample_read (Ret_class MaintainDB))\<lparr>rc_params := Some 8\<rparr>"

lemma other_request:
  assumes "rc \<in> {sample_read (Ret_class MaintainDB), other_read}"
  shows "read_request_ok two_lists_world rc \<and> request_hash_ok two_lists_world rc \<and>
    rc_ret rc = Ret_class MaintainDB \<and> rc_cys rc = Some MaintainDB \<and>
    rc_hash_value two_lists_world rc = rc_hash_value two_lists_world (sample_read (Ret_class MaintainDB))"
proof -
  have hash: "concat (map hash_entry other_conds) = concat (map hash_entry sample_conds5)"
    by (simp add: other_conds_def sample_conds5_def hash_entry_def)
  have other: "param_of_class MaintainDB prm" if "prm \<in> set other_conds" for prm
  proof -
    from that obtain q where "q \<in> set sample_conds5" "prm = q\<lparr>param_val := PV (V_int32 9)\<rparr>"
      by (auto simp: other_conds_def)
    then show ?thesis using sample_param_of_class(2) [of q]
      by (auto simp: param_of_class_def sample_conds5_def make_param_def)
  qed
  have "conds_of two_lists_world rc MaintainDB (if rc = other_read then other_conds else sample_conds5)"
    using assms other
    by (auto simp: conds_of_def two_lists_world_def other_read_def sample_read_def rc_param_list_def)
  note c = this conds_of_unique [OF this]
  have "ret_ok sample_world (sample_read (Ret_class MaintainDB))"
    using sample_request_ok [of "Ret_class MaintainDB"] by (simp add: read_request_ok_def)
  moreover have "class_members two_lists_world = class_members sample_world" "from_name two_lists_world = from_name sample_world"
    by (simp_all add: fun_eq_iff class_members_def from_name_def two_lists_world_def cong: option.case_cong)
  ultimately have "ret_ok two_lists_world rc"
    using assms by (auto simp: ret_ok_def sample_read_def other_read_def)
  moreover have "first_is_field other_conds" "first_is_field sample_conds5"
    by (simp_all add: first_is_field_def other_conds_def sample_conds5_def make_param_def field_cond_def)
  ultimately have "read_request_ok two_lists_world rc"
    using c by (auto simp: read_request_ok_def split: if_splits)
  moreover have "request_hash_ok two_lists_world rc"
    using c assms hash by (auto simp: request_hash_ok_def other_read_def sample_read_def split: if_splits)
  ultimately show ?thesis
    using assms by (auto simp: other_read_def sample_read_def rc_hash_value_def)
qed

theorem equal_keys_equal_text_witness:
  "select_text two_lists_world other_read = select_text two_lists_world (sample_read (Ret_class MaintainDB)) \<and>
   params_of two_lists_world other_read \<noteq> params_of two_lists_world (sample_read (Ret_class MaintainDB))"
proof -
  have d: "params_of two_lists_world other_read \<noteq> params_of two_lists_world (sample_read (Ret_class MaintainDB))"
    by (simp add: params_of_def rc_param_list_def other_read_def sample_read_def two_lists_world_def other_conds_def
        sample_conds5_def make_param_def)
  show ?thesis
    by (intro conjI d equal_keys_equal_text [where c = MaintainDB])
      (use other_request [of other_read] other_request [of "sample_read (Ret_class MaintainDB)"] in simp_all)
qed

theorem request_shares_conditions_witness:
  "\<exists>w w' rc'. rc_append w (ReadCondImpl (Ret_class ComponentDB)) [(ComponentDB, 0)] = Inr rc' \<and>
     request_hash_ok w rc' \<and> \<not> request_hash_ok w' rc' \<and> rc_hash_value w' rc' = rc_hash_value w rc'"
proof -
  have "2 < length (cd_members (ob_class (sample_obj 0)))" by (simp add: ComponentDB_def)
  from table_ok_member [OF sample_world_simps(3) sample_table_ok(1) this] obtain mem t args m where
    "cd_members (ob_class (sample_obj 0)) ! 2 = MEMBER mem t args" and "at_member sample_world 0 (sample_obj 0) mem t m"
    by metis
  then have at: "at_member sample_world 0 (sample_obj 0) ''name'' YT_STRING m" by (simp add: sample_members)
  let ?w = "put_obj 0 (put_mem ''name'' (MO_value (m\<lparr>vm_cond := 1\<rparr>)) (sample_obj 0)) sample_world"
  let ?ob = "put_mem ''name'' (MO_value (m\<lparr>vm_cond := 1\<rparr>)) (sample_obj 0)"
  have "run_member_op (Op_cond CT_AND) 0 ''name'' sample_world = (?w, Inr ())"
    using update_value_member_run [OF at] by (simp add: member_set_cond_def)
  with run_member_op_ok [of sample_world 0 "''name''" "Op_cond CT_AND"] have ok: "table_obj_ok ?w 0"
    by (auto simp: table_obj_ok_def)
  let ?rc = "ReadCondImpl (Ret_class ComponentDB)"
  obtain rc' where r: "rc_append ?w ?rc [(ob_class ?ob, 0)] = Inr rc'"
    by (auto simp: rc_append_def rc_append1_def put_obj_def put_mem_def)
  obtain w' x where c: "member_compare OT_EQUAL (PV (V_string ''a'')) 0 ''name'' ?w = (w', x)" by force
  have "ob_conds ?ob \<noteq> None" by (simp add: put_mem_def)
  from request_shares_conditions [OF ok at_member_put [OF at] _ this r c] r show ?thesis
    by (auto simp: put_mem_def)
qed

end
