(* ===== verification/Yan_Pool.thy ===== *)
theory Yan_Pool
  imports Yan_Context
begin

text \<open>
  \<open>ConnectionPool\<close> (\<open>src/com/conn_pool.h\<close>) and the constructor of \<open>SqliteContext\<close> that it calls.  Twice:
  as the sequence of operations one worker performs, with the interface the events rely on (a locale,
  interpreted on the pool), and as a step relation of threads that contend for the spin lock.
\<close>

section \<open>Opening a connection\<close>

text \<open>
  The library: \<open>sqlite3_open_v2\<close> with the handle it stores, and the operations on a handle.  A handle
  is a number.
\<close>

record 'db sqlite_lib =
  lib_open :: "string \<Rightarrow> 'db \<Rightarrow> (int \<times> nat) \<times> 'db"
  lib_conn :: "nat \<Rightarrow> 'db sqlite_api"

text \<open>The static map of \<open>set_sqlite_pragma\<close>, in its key order.\<close>

definition sqlite_pragmas :: "(string \<times> string) list" where
  "sqlite_pragmas =
     [(''auto_vacuum'', ''FULL''), (''busy_timeout'', ''1000''), (''journal_mode'', ''WAL''), (''synchronous'', ''FULL'')]"

fun set_pragmas :: "'db sqlite_api \<Rightarrow> (string \<times> string) list \<Rightarrow> ('db, unit) sres" where
  "set_pragmas api [] db = (db, Inr ())"
| "set_pragmas api ((k, v) # kvs) db =
     (case sq_exec api (c_str (''PRAGMA '' @ k @ '' = '' @ v @ '';'')) db of
        (ret, db') \<Rightarrow>
          if ret \<noteq> SQLITE_OK then
            (db', Inl (Runtime_error (''sqlite set pragma failed [key:'' @ k @ '', value:'' @ v @
                                      ''], reason: '' @ sq_errstr api ret)))
          else set_pragmas api kvs db')"

definition SqliteContext :: "'db sqlite_lib \<Rightarrow> string \<Rightarrow> ('db, nat) sres" where
  "SqliteContext lib path = (\<lambda>db.
     case lib_open lib (c_str path) db of
       ((ret, h), db') \<Rightarrow>
         if ret \<noteq> SQLITE_OK then
           (db', Inl (Runtime_error (''create sqlite connection failed with path: '' @ path)))
         else bindS (set_pragmas (lib_conn lib h) sqlite_pragmas) (\<lambda>_. returnS h) db')"

section \<open>The pool of one thread\<close>

record 'c pool =
  pl_url :: string
  pl_conns :: "'c list"
  pl_used_conns :: "32 word"

definition ConnectionPool :: "string \<Rightarrow> 'c pool" where
  "ConnectionPool url = \<lparr>pl_url = url, pl_conns = [], pl_used_conns = 0\<rparr>"

text \<open>
  \<open>get\<close>: the front of the deque, or a new connection (made by \<open>mk\<close>, which works on the state \<open>'s\<close>).
  The spin lock is free whenever one thread alone calls the pool.
\<close>

definition pool_get :: "(string \<Rightarrow> ('s, 'c) sres) \<Rightarrow> ('c pool \<times> 's, 'c) sres" where
  "pool_get mk = (\<lambda>(p, s).
     case pl_conns p of
       c # cs \<Rightarrow> ((p\<lparr>pl_conns := cs\<rparr>, s), Inr c)
     | [] \<Rightarrow>
         (case mk (pl_url p) s of
            (s', Inr c) \<Rightarrow> ((p\<lparr>pl_used_conns := pl_used_conns p + 1\<rparr>, s'), Inr c)
          | (s', Inl e) \<Rightarrow> ((p, s'), Inl e)))"

text \<open>\<open>release\<close> for a connection (a null pointer is ignored, and no caller passes one).\<close>

definition pool_release :: "'c \<Rightarrow> 'c pool \<times> 's \<Rightarrow> 'c pool \<times> 's" where
  "pool_release c = (\<lambda>(p, s). (p\<lparr>pl_conns := pl_conns p @ [c]\<rparr>, s))"

text \<open>The shape of every handler: get a connection, work, release it on both paths.\<close>

definition with_connection ::
  "('p, 'c) sres \<Rightarrow> ('c \<Rightarrow> 'p \<Rightarrow> 'p) \<Rightarrow> ('c \<Rightarrow> ('p, 'a) sres) \<Rightarrow> ('p, 'a) sres" where
  "with_connection get release body = (\<lambda>p.
     case get p of
       (p', Inl e) \<Rightarrow> (p', Inl e)
     | (p', Inr c) \<Rightarrow> (case body c p' of (p'', r) \<Rightarrow> (release c p'', r)))"

text \<open>What a handler may rely on, and what follows for it.\<close>

locale connection_pool =
  fixes get :: "('p, 'c) sres" and release :: "'c \<Rightarrow> 'p \<Rightarrow> 'p" and idle :: "'p \<Rightarrow> 'c list"
  assumes get_some: "get p = (p', Inr c) \<Longrightarrow> idle p = c # idle p' \<or> idle p = [] \<and> idle p' = []"
    and get_none: "get p = (p', Inl e) \<Longrightarrow> idle p = [] \<and> idle p' = []"
    and release_idle: "idle (release c p) = idle p @ [c]"
begin

lemma with_connection_idle:
  assumes body: "\<And>c p. idle (fst (body c p)) = idle p"
    and run: "with_connection get release body p = (p', r)"
  shows "if idle p = [] then length (idle p') \<le> 1 \<and> (\<forall>x. r = Inr x \<longrightarrow> idle p' \<noteq> []) else idle p' = rotate1 (idle p)"
proof -
  obtain p1 g where g: "get p = (p1, g)" by force
  show ?thesis
  proof (cases g)
    case (Inl e)
    with g run get_none [of p p1 e] show ?thesis by (auto simp: with_connection_def)
  next
    case (Inr c)
    obtain p2 r2 where b: "body c p1 = (p2, r2)" by force
    with g Inr run have p': "p' = release c p2" "r = r2" by (auto simp: with_connection_def)
    have "idle p2 = idle p1" using body [of c p1] b by simp
    with get_some [of p p1 c] g Inr p' show ?thesis by (auto simp: release_idle)
  qed
qed

end

definition pool_idle :: "'c pool \<times> 's \<Rightarrow> 'c list" where
  "pool_idle ps = pl_conns (fst ps)"

interpretation conn_pool: connection_pool "pool_get mk" pool_release pool_idle for mk :: "string \<Rightarrow> ('s, 'c) sres"
  by unfold_locales
    (auto simp: pool_get_def pool_release_def pool_idle_def split: prod.splits list.splits sum.splits)

section \<open>Threads that share a pool\<close>

text \<open>
  Where a thread is: outside, in \<open>get\<close> (spinning, in the critical section, about to clear the lock on
  the error path, about to clear it and return), holding a connection, in \<open>release\<close> (spinning, in the
  critical section, about to clear the lock).  Every transition is one atomic operation or one piece of
  the critical section.  Connections are numbered in the order of their creation; a thread uses one at a
  time, as the handlers do.
\<close>

datatype thread_pc =
    Outside
  | Get_spin | Get_critical | Get_failed | Get_done nat
  | Holding nat
  | Release_spin nat | Release_critical nat | Release_done

record shared_pool =
  sp_locked :: bool
  sp_conns :: "nat list"
  sp_created :: nat
  sp_pc :: "nat \<Rightarrow> thread_pc"

definition initial_pool :: shared_pool where
  "initial_pool = \<lparr>sp_locked = False, sp_conns = [], sp_created = 0, sp_pc = (\<lambda>_. Outside)\<rparr>"

abbreviation goto :: "nat \<Rightarrow> thread_pc \<Rightarrow> shared_pool \<Rightarrow> shared_pool" where
  "goto t pc s \<equiv> s\<lparr>sp_pc := (sp_pc s)(t := pc)\<rparr>"

inductive pool_step :: "shared_pool \<Rightarrow> nat \<Rightarrow> shared_pool \<Rightarrow> bool" where
  get_call: "sp_pc s t = Outside \<Longrightarrow> pool_step s t (goto t Get_spin s)"
| get_busy: "sp_pc s t = Get_spin \<Longrightarrow> sp_locked s \<Longrightarrow> pool_step s t s"
| get_acquire: "sp_pc s t = Get_spin \<Longrightarrow> \<not> sp_locked s \<Longrightarrow>
    pool_step s t (goto t Get_critical (s\<lparr>sp_locked := True\<rparr>))"
| get_reuse: "sp_pc s t = Get_critical \<Longrightarrow> sp_conns s = c # cs \<Longrightarrow>
    pool_step s t (goto t (Get_done c) (s\<lparr>sp_conns := cs\<rparr>))"
| get_create: "sp_pc s t = Get_critical \<Longrightarrow> sp_conns s = [] \<Longrightarrow>
    pool_step s t (goto t (Get_done (sp_created s)) (s\<lparr>sp_created := sp_created s + 1\<rparr>))"
| get_fail: "sp_pc s t = Get_critical \<Longrightarrow> sp_conns s = [] \<Longrightarrow> pool_step s t (goto t Get_failed s)"
| get_throw: "sp_pc s t = Get_failed \<Longrightarrow> pool_step s t (goto t Outside (s\<lparr>sp_locked := False\<rparr>))"
| get_return: "sp_pc s t = Get_done c \<Longrightarrow> pool_step s t (goto t (Holding c) (s\<lparr>sp_locked := False\<rparr>))"
| release_call: "sp_pc s t = Holding c \<Longrightarrow> pool_step s t (goto t (Release_spin c) s)"
| release_busy: "sp_pc s t = Release_spin c \<Longrightarrow> sp_locked s \<Longrightarrow> pool_step s t s"
| release_acquire: "sp_pc s t = Release_spin c \<Longrightarrow> \<not> sp_locked s \<Longrightarrow>
    pool_step s t (goto t (Release_critical c) (s\<lparr>sp_locked := True\<rparr>))"
| release_push: "sp_pc s t = Release_critical c \<Longrightarrow>
    pool_step s t (goto t Release_done (s\<lparr>sp_conns := sp_conns s @ [c]\<rparr>))"
| release_return: "sp_pc s t = Release_done \<Longrightarrow> pool_step s t (goto t Outside (s\<lparr>sp_locked := False\<rparr>))"

inductive_cases pool_step_cases: "pool_step s t s'"

text \<open>What the threads in \<open>ts\<close> can reach.\<close>

inductive pool_reachable :: "nat set \<Rightarrow> shared_pool \<Rightarrow> bool" for ts where
  start: "pool_reachable ts initial_pool"
| step: "pool_reachable ts s \<Longrightarrow> t \<in> ts \<Longrightarrow> pool_step s t s' \<Longrightarrow> pool_reachable ts s'"

fun critical :: "thread_pc \<Rightarrow> bool" where
  "critical Get_critical \<longleftrightarrow> True"
| "critical Get_failed \<longleftrightarrow> True"
| "critical (Get_done c) \<longleftrightarrow> True"
| "critical (Release_critical c) \<longleftrightarrow> True"
| "critical Release_done \<longleftrightarrow> True"
| "critical _ \<longleftrightarrow> False"

fun owned :: "thread_pc \<Rightarrow> nat option" where
  "owned (Get_done c) = Some c"
| "owned (Holding c) = Some c"
| "owned (Release_spin c) = Some c"
| "owned (Release_critical c) = Some c"
| "owned _ = None"

definition mutex :: "shared_pool \<Rightarrow> bool" where
  "mutex s \<longleftrightarrow>
     (sp_locked s \<longleftrightarrow> (\<exists>t. critical (sp_pc s t))) \<and>
     (\<forall>t u. critical (sp_pc s t) \<and> critical (sp_pc s u) \<longrightarrow> t = u)"

text \<open>A thread moves inside or outside the critical section, enters it, or leaves it.\<close>

definition lock_move :: "shared_pool \<Rightarrow> nat \<Rightarrow> shared_pool \<Rightarrow> bool" where
  "lock_move s t s' \<longleftrightarrow>
     (\<forall>u. u \<noteq> t \<longrightarrow> sp_pc s' u = sp_pc s u) \<and>
     (sp_locked s' = sp_locked s \<and> critical (sp_pc s' t) = critical (sp_pc s t) \<or>
      \<not> sp_locked s \<and> sp_locked s' \<and> critical (sp_pc s' t) \<or>
      critical (sp_pc s t) \<and> \<not> sp_locked s' \<and> \<not> critical (sp_pc s' t))"

lemma pool_step_moves: "pool_step s t s' \<Longrightarrow> lock_move s t s'"
  by (induction rule: pool_step.induct) (simp_all add: lock_move_def)

lemma mutex_move:
  assumes "lock_move s t s'" and "mutex s"
  shows "mutex s'"
  using assms unfolding lock_move_def mutex_def by metis

lemma mutex_reachable: "pool_reachable ts s \<Longrightarrow> mutex s"
proof (induction rule: pool_reachable.induct)
  case start
  then show ?case by (simp add: mutex_def initial_pool_def)
next
  case (step s t s')
  then show ?case by (blast intro: mutex_move pool_step_moves)
qed

text \<open>Every connection that was created is in the deque or with exactly one thread.\<close>

definition accounted :: "shared_pool \<Rightarrow> bool" where
  "accounted s \<longleftrightarrow>
     distinct (sp_conns s) \<and>
     (\<forall>t c. owned (sp_pc s t) = Some c \<longrightarrow> c \<notin> set (sp_conns s)) \<and>
     (\<forall>t u c. owned (sp_pc s t) = Some c \<and> owned (sp_pc s u) = Some c \<longrightarrow> t = u) \<and>
     set (sp_conns s) \<union> {c. \<exists>t. owned (sp_pc s t) = Some c} = {..<sp_created s}"

definition same_others :: "shared_pool \<Rightarrow> nat \<Rightarrow> shared_pool \<Rightarrow> bool" where
  "same_others s t s' \<longleftrightarrow> (\<forall>u. u \<noteq> t \<longrightarrow> sp_pc s' u = sp_pc s u)"

inductive own_move :: "shared_pool \<Rightarrow> nat \<Rightarrow> shared_pool \<Rightarrow> bool" where
  keep: "same_others s t s' \<Longrightarrow> sp_conns s' = sp_conns s \<Longrightarrow> sp_created s' = sp_created s \<Longrightarrow>
    owned (sp_pc s' t) = owned (sp_pc s t) \<Longrightarrow> own_move s t s'"
| take: "same_others s t s' \<Longrightarrow> sp_conns s = c # sp_conns s' \<Longrightarrow> sp_created s' = sp_created s \<Longrightarrow>
    owned (sp_pc s t) = None \<Longrightarrow> owned (sp_pc s' t) = Some c \<Longrightarrow> own_move s t s'"
| create: "same_others s t s' \<Longrightarrow> sp_conns s = [] \<Longrightarrow> sp_conns s' = [] \<Longrightarrow> sp_created s' = sp_created s + 1 \<Longrightarrow>
    owned (sp_pc s t) = None \<Longrightarrow> owned (sp_pc s' t) = Some (sp_created s) \<Longrightarrow> own_move s t s'"
| give: "same_others s t s' \<Longrightarrow> sp_conns s' = sp_conns s @ [c] \<Longrightarrow> sp_created s' = sp_created s \<Longrightarrow>
    owned (sp_pc s t) = Some c \<Longrightarrow> owned (sp_pc s' t) = None \<Longrightarrow> own_move s t s'"

lemma pool_step_own: "pool_step s t s' \<Longrightarrow> own_move s t s'"
proof (induction rule: pool_step.induct)
  case (get_reuse s t c cs)
  then show ?case by (intro own_move.take) (simp_all add: same_others_def)
next
  case (get_create s t)
  then show ?case by (intro own_move.create) (simp_all add: same_others_def)
next
  case (release_push s t c)
  then show ?case by (intro own_move.give) (simp_all add: same_others_def)
qed (simp_all add: own_move.keep same_others_def)

lemma owner_added:
  "f t = None \<Longrightarrow> (\<exists>u. (if u = t then Some c else f u) = Some x) \<longleftrightarrow> x = c \<or> (\<exists>u. f u = Some x)"
  by (metis option.distinct(1) option.inject)

lemma accounted_move: "own_move s t s' \<Longrightarrow> accounted s \<Longrightarrow> accounted s'"
proof (induction rule: own_move.induct)
  case (keep s t s')
  then have "owned (sp_pc s' u) = owned (sp_pc s u)" for u
    unfolding same_others_def by metis
  with keep show ?case by (simp add: accounted_def)
next
  case (take s t s' c)
  then have o: "owned (sp_pc s' u) = (if u = t then Some c else owned (sp_pc s u))" for u
    unfolding same_others_def by metis
  have e: "(\<exists>u. owned (sp_pc s' u) = Some x) \<longleftrightarrow> x = c \<or> (\<exists>u. owned (sp_pc s u) = Some x)" for x
    unfolding o by (rule owner_added) (rule take(4))
  have "c \<notin> set (sp_conns s')" "\<And>u. owned (sp_pc s u) \<noteq> Some c"
    using take unfolding accounted_def by auto
  moreover have "insert c (set (sp_conns s')) \<union> {x. \<exists>u. owned (sp_pc s u) = Some x} = {..<sp_created s}"
    using take unfolding accounted_def by simp
  ultimately show ?case
    using take(2,3,6) unfolding accounted_def e unfolding o by (auto split: if_splits)
next
  case (create s t s')
  then have o: "owned (sp_pc s' u) = (if u = t then Some (sp_created s) else owned (sp_pc s u))" for u
    unfolding same_others_def by metis
  have e: "(\<exists>u. owned (sp_pc s' u) = Some x) \<longleftrightarrow> x = sp_created s \<or> (\<exists>u. owned (sp_pc s u) = Some x)" for x
    unfolding o by (rule owner_added) (rule create(5))
  have own: "{x. \<exists>u. owned (sp_pc s u) = Some x} = {..<sp_created s}"
    using create unfolding accounted_def by simp
  then have new: "owned (sp_pc s u) \<noteq> Some (sp_created s)" for u by blast
  have "{x. x = sp_created s \<or> (\<exists>u. owned (sp_pc s u) = Some x)} = insert (sp_created s) {..<sp_created s}"
    unfolding own [symmetric] by blast
  then have all: "{x. \<exists>u. owned (sp_pc s' u) = Some x} = {..<sp_created s'}"
    unfolding e by (simp add: create(4) lessThan_Suc)
  have "u = v" if "owned (sp_pc s' u) = Some x" "owned (sp_pc s' v) = Some x" for u v x
  proof (cases "x = sp_created s")
    case True
    with that new show ?thesis unfolding o by metis
  next
    case False
    with that have "owned (sp_pc s u) = Some x" "owned (sp_pc s v) = Some x"
      unfolding o by (metis option.inject)+
    with create(7) show ?thesis unfolding accounted_def by blast
  qed
  with all create(3) show ?case unfolding accounted_def by simp
next
  case (give s t s' c)
  then have o: "owned (sp_pc s' u) = (if u = t then None else owned (sp_pc s u))" for u
    unfolding same_others_def by metis
  have u: "owned (sp_pc s u) = Some c \<longleftrightarrow> u = t" for u
    using give(4,6) unfolding accounted_def by metis
  have e: "(\<exists>u. owned (sp_pc s' u) = Some x) \<longleftrightarrow> x \<noteq> c \<and> (\<exists>u. owned (sp_pc s u) = Some x)" for x
    using u unfolding o by (metis option.distinct(1) option.inject)
  have "c \<notin> set (sp_conns s)" "c \<in> {x. \<exists>u. owned (sp_pc s u) = Some x}"
    using give(4,6) unfolding accounted_def by auto
  moreover have "set (sp_conns s) \<union> {x. \<exists>u. owned (sp_pc s u) = Some x} = {..<sp_created s}"
    using give(6) unfolding accounted_def by simp
  ultimately have "set (sp_conns s') \<union> {x. x \<noteq> c \<and> (\<exists>u. owned (sp_pc s u) = Some x)} = {..<sp_created s'}"
    using give(2,3) by auto
  then show ?case
    using give(2,6) u unfolding accounted_def e unfolding o by (auto split: if_splits)
qed

lemma accounted_reachable: "pool_reachable ts s \<Longrightarrow> accounted s"
proof (induction rule: pool_reachable.induct)
  case start
  then show ?case by (simp add: accounted_def initial_pool_def)
next
  case (step s t s')
  then show ?case by (blast intro: accounted_move pool_step_own)
qed

lemma outside_reachable: "pool_reachable ts s \<Longrightarrow> t \<notin> ts \<Longrightarrow> sp_pc s t = Outside"
proof (induction rule: pool_reachable.induct)
  case start
  then show ?case by (simp add: initial_pool_def)
next
  case (step s u s')
  from pool_step_moves [OF step(3)] have "sp_pc s' t = sp_pc s t"
    using step(2,5) unfolding lock_move_def by metis
  with step show ?case by simp
qed

text \<open>
  C8: for threads that share a pool, in every reachable state: the spin lock is set exactly while one
  thread is in the critical section, and never two are; no connection is with two threads, or with a
  thread and in the deque; and no connection is lost, each one that was created is idle or with a thread.
\<close>

theorem connections_are_exclusive:
  assumes "pool_reachable ts s"
  shows "(sp_locked s \<longleftrightarrow> (\<exists>t. critical (sp_pc s t))) \<and>
    (\<forall>t u. critical (sp_pc s t) \<and> critical (sp_pc s u) \<longrightarrow> t = u) \<and>
    distinct (sp_conns s) \<and>
    (\<forall>t c. owned (sp_pc s t) = Some c \<longrightarrow> c \<notin> set (sp_conns s)) \<and>
    (\<forall>t u c. owned (sp_pc s t) = Some c \<and> owned (sp_pc s u) = Some c \<longrightarrow> t = u) \<and>
    set (sp_conns s) \<union> {c. \<exists>t. owned (sp_pc s t) = Some c} = {..<sp_created s}"
  using mutex_reachable [OF assms] accounted_reachable [OF assms]
  unfolding mutex_def accounted_def by blast

lemma created_step:
  assumes "own_move s t s'" and "accounted s'" and "\<And>u. u \<notin> ts \<Longrightarrow> sp_pc s' u = Outside"
    and "finite ts" and "sp_created s \<le> card ts"
  shows "sp_created s' \<le> card ts"
  using assms(1)
proof cases
  case create
  then have "{..<sp_created s'} = {c. \<exists>u. owned (sp_pc s' u) = Some c}"
    using assms(2) unfolding accounted_def by simp
  also have "\<dots> \<subseteq> (\<lambda>u. the (owned (sp_pc s' u))) ` ts"
  proof
    fix c assume "c \<in> {c. \<exists>u. owned (sp_pc s' u) = Some c}"
    then obtain u where u: "owned (sp_pc s' u) = Some c" by blast
    with assms(3) have "u \<in> ts" by fastforce
    with u show "c \<in> (\<lambda>u. the (owned (sp_pc s' u))) ` ts" by force
  qed
  finally have "{..<sp_created s'} \<subseteq> (\<lambda>u. the (owned (sp_pc s' u))) ` ts" .
  then have "card {..<sp_created s'} \<le> card ((\<lambda>u. the (owned (sp_pc s' u))) ` ts)"
    using assms(4) by (intro card_mono) simp_all
  also have "\<dots> \<le> card ts" using assms(4) by (rule card_image_le)
  finally show ?thesis by simp
qed (use assms(5) in simp_all)

text \<open>C26: a pool that finitely many threads share never opens more connections than there are threads.\<close>

theorem connections_bounded_by_threads:
  assumes "pool_reachable ts s" and "finite ts"
  shows "sp_created s \<le> card ts"
  using assms(1)
proof (induction rule: pool_reachable.induct)
  case start
  then show ?case by (simp add: initial_pool_def)
next
  case (step s t s')
  note r = pool_reachable.step [OF step(1-3)]
  show ?case
    by (rule created_step [OF pool_step_own [OF step(3)] accounted_reachable [OF r] outside_reachable [OF r] assms(2) step(4)])
qed

text \<open>
  The pool is not lock-free: as long as a thread is inside the critical section, a thread that
  spins makes no progress, whichever step it takes.  But the thread inside always has a step to take
  that changes the state.
\<close>

theorem lock_holder_blocks_the_others:
  assumes "pool_reachable ts s" and "critical (sp_pc s t)"
  shows "(\<forall>u s'. (sp_pc s u = Get_spin \<or> (\<exists>c. sp_pc s u = Release_spin c)) \<and> pool_step s u s' \<longrightarrow> s' = s) \<and>
    (\<exists>s'. pool_step s t s' \<and> sp_pc s' t \<noteq> sp_pc s t)"
proof -
  have locked: "sp_locked s"
    using mutex_reachable [OF assms(1)] assms(2) unfolding mutex_def by blast
  have "s' = s" if "sp_pc s u = Get_spin \<or> (\<exists>c. sp_pc s u = Release_spin c)" and st: "pool_step s u s'" for u s'
    using st by (rule pool_step_cases) (use that locked in auto)
  moreover have "\<exists>s'. pool_step s t s' \<and> sp_pc s' t \<noteq> sp_pc s t"
  proof (cases "sp_pc s t")
    case Get_critical
    then show ?thesis using pool_step.get_reuse pool_step.get_create
      by (cases "sp_conns s") fastforce+
  qed (use assms(2) pool_step.get_throw pool_step.get_return pool_step.release_push pool_step.release_return in fastforce)+
  ultimately show ?thesis by blast
qed

subsection \<open>A run of two threads\<close>

definition two_threads :: "bool \<Rightarrow> nat \<Rightarrow> thread_pc \<Rightarrow> thread_pc \<Rightarrow> shared_pool" where
  "two_threads locked n pc7 pc8 =
     \<lparr>sp_locked = locked, sp_conns = [], sp_created = n, sp_pc = (\<lambda>_. Outside)(7 := pc7, 8 := pc8)\<rparr>"

lemma two_threads_simps [simp]:
  "sp_locked (two_threads l n a b) = l" "sp_conns (two_threads l n a b) = []" "sp_created (two_threads l n a b) = n"
  "sp_pc (two_threads l n a b) 7 = a" "sp_pc (two_threads l n a b) 8 = b"
  by (simp_all add: two_threads_def)

lemma pool_reachable_to:
  "pool_reachable ts s \<Longrightarrow> t \<in> ts \<Longrightarrow> pool_step s t s1 \<Longrightarrow> s1 = s' \<Longrightarrow> pool_reachable ts s'"
  using pool_reachable.step by blast

lemma sample_pool_reachable: "pool_reachable {7, 8} (two_threads True 1 (Holding 0) Get_critical)"
proof -
  have "pool_reachable {7, 8} initial_pool" by (rule pool_reachable.start)
  moreover have "initial_pool = two_threads False 0 Outside Outside"
    by (simp add: initial_pool_def two_threads_def fun_eq_iff)
  ultimately have "pool_reachable {7, 8} (two_threads False 0 Outside Outside)" by simp
  then have "pool_reachable {7, 8} (two_threads False 0 Get_spin Outside)"
    by (rule pool_reachable_to [of _ _ 7, OF _ _ get_call]) (simp_all add: two_threads_def fun_eq_iff)
  then have "pool_reachable {7, 8} (two_threads True 0 Get_critical Outside)"
    by (rule pool_reachable_to [of _ _ 7, OF _ _ get_acquire]) (simp_all add: two_threads_def fun_eq_iff)
  then have "pool_reachable {7, 8} (two_threads True 1 (Get_done 0) Outside)"
    by (rule pool_reachable_to [of _ _ 7, OF _ _ get_create]) (simp_all add: two_threads_def fun_eq_iff)
  then have "pool_reachable {7, 8} (two_threads False 1 (Holding 0) Outside)"
    by (rule pool_reachable_to [of _ _ 7, OF _ _ get_return]) (simp_all add: two_threads_def fun_eq_iff)
  then have "pool_reachable {7, 8} (two_threads False 1 (Holding 0) Get_spin)"
    by (rule pool_reachable_to [of _ _ 8, OF _ _ get_call]) (simp_all add: two_threads_def fun_eq_iff)
  then show ?thesis
    by (rule pool_reachable_to [of _ _ 8, OF _ _ get_acquire]) (simp_all add: two_threads_def fun_eq_iff)
qed

theorem connections_are_exclusive_witness:
  "\<exists>s. pool_reachable {7, 8} s \<and> owned (sp_pc s 7) = Some 0 \<and> critical (sp_pc s 8) \<and> sp_locked s \<and> \<not> critical (sp_pc s 7)"
  using connections_are_exclusive [OF sample_pool_reachable] sample_pool_reachable
  by (intro exI [of _ "two_threads True 1 (Holding 0) Get_critical"]) simp

theorem connections_bounded_by_threads_witness:
  "pool_reachable {7, 8} (two_threads True 1 (Holding 0) Get_critical) \<and> (1 :: nat) \<le> card {7, 8 :: nat}"
  using connections_bounded_by_threads [OF sample_pool_reachable] sample_pool_reachable by simp

theorem lock_holder_blocks_the_others_witness:
  "\<exists>s'. pool_step (two_threads True 1 (Holding 0) Get_critical) 8 s' \<and> sp_pc s' 8 \<noteq> Get_critical"
  using lock_holder_blocks_the_others [OF sample_pool_reachable, of 8] by simp

end
