(* ===== verification/Yan_Events.thy ===== *)
theory Yan_Events
  imports Yan_Pool
begin

text \<open>
  The requests of \<open>src/sqlite/sqlite_event.h\<close>, \<open>sqlite_union.h\<close>, \<open>sqlite_join.h\<close> and
  \<open>sqlite_copy.h\<close>: what the user's thread prepares, and what the worker does when the request's turn comes.
  Every worker side has the shape \<open>with_connection\<close>; its result goes into the request's promise.
\<close>

section \<open>State and outcomes\<close>

text \<open>
  The objects, the library and the statement cache of every connection.  The pool stands beside it.
\<close>

record 'db engine =
  en_world :: world
  en_db :: 'db
  en_caches :: "nat \<Rightarrow> string \<Rightarrow> stmt option"

type_synonym 'db yan = "nat pool \<times> 'db engine"

text \<open>A promise gets a value or an exception; an error may also leave the handler (and end the worker).\<close>

datatype 'a outcome = Set_value 'a | Set_exception error | Escaped error

definition failed :: "error \<Rightarrow> 'a outcome" where
  "failed e = (if exception_text e = None then Escaped e else Set_exception e)"

definition new_connection :: "'db sqlite_lib \<Rightarrow> string \<Rightarrow> ('db engine, nat) sres" where
  "new_connection lib url = (\<lambda>s.
     case SqliteContext lib url (en_db s) of
       (db, Inl e) \<Rightarrow> (s\<lparr>en_db := db\<rparr>, Inl e)
     | (db, Inr h) \<Rightarrow> (s\<lparr>en_db := db, en_caches := (en_caches s)(h := (\<lambda>_. None))\<rparr>, Inr h))"

text \<open>An operation of the \<open>SqliteContext\<close> with handle \<open>h\<close>.\<close>

definition on_connection :: "('db, 'a) sq \<Rightarrow> nat \<Rightarrow> ('db yan, 'a) sres" where
  "on_connection m h = (\<lambda>(p, s).
     case m \<lparr>ss_world = en_world s, ss_db = en_db s, ss_stmts = en_caches s h\<rparr> of
       (t, r) \<Rightarrow>
         ((p, s\<lparr>en_world := ss_world t, en_db := ss_db t, en_caches := (en_caches s)(h := ss_stmts t)\<rparr>), r))"

definition use_connection :: "'db sqlite_lib \<Rightarrow> ('db sqlite_api \<Rightarrow> ('db, 'a) sq) \<Rightarrow> ('db yan, 'a) sres" where
  "use_connection lib m =
     with_connection (pool_get (new_connection lib)) pool_release (\<lambda>h. on_connection (m (lib_conn lib h)) h)"

definition handle :: "'db sqlite_lib \<Rightarrow> ('db sqlite_api \<Rightarrow> ('db, 'a) sq) \<Rightarrow> 'db yan \<Rightarrow> 'db yan \<times> 'a outcome" where
  "handle lib m = (\<lambda>st.
     case use_connection lib m st of
       (st', Inr x) \<Rightarrow> (st', Set_value x)
     | (st', Inl e) \<Rightarrow> (st', failed e))"

section \<open>WriteEvent\<close>

record write_event =
  we_sqls :: "string list"
  we_entity :: "32 word"

definition WriteEvent :: write_event where
  "WriteEvent = \<lparr>we_sqls = [], we_entity = 0\<rparr>"

datatype write_arg = W_obj class_decl addr | W_objs class_decl "addr list"

definition write_sql :: "(addr \<Rightarrow> nat) \<Rightarrow> world \<Rightarrow> write_arg \<Rightarrow> string res" where
  "write_sql raw_size w arg =
     bindE
       (case arg of
          W_obj c p \<Rightarrow> insert_make raw_size w c p insert_ctx0
        | W_objs c ps \<Rightarrow> insert_make_rows raw_size w c ps insert_ctx0)
       (\<lambda>(sql, _). Inr (sql @ '';''))"

fun write_rows :: "write_arg \<Rightarrow> nat" where
  "write_rows (W_obj c p) = 1"
| "write_rows (W_objs c ps) = length ps"

fun write_prehandle :: "(addr \<Rightarrow> nat) \<Rightarrow> world \<Rightarrow> write_event \<Rightarrow> write_arg list \<Rightarrow> write_event res" where
  "write_prehandle raw_size w ev [] = Inr ev"
| "write_prehandle raw_size w ev (arg # args) =
     bindE (write_sql raw_size w arg) (\<lambda>sql.
       write_prehandle raw_size w
         (ev\<lparr>we_sqls := we_sqls ev @ [sql], we_entity := we_entity ev + of_nat (write_rows arg)\<rparr>) args)"

text \<open>The loop over the statements, which \<open>CreateTable\<close> shares.\<close>

fun write_all :: "'db sqlite_api \<Rightarrow> string list \<Rightarrow> ('db, unit) sq" where
  "write_all api [] = returnS ()"
| "write_all api (sql # sqls) = bindS (ctx_write api sql) (\<lambda>_. write_all api sqls)"

definition write_handle :: "'db sqlite_lib \<Rightarrow> write_event \<Rightarrow> 'db yan \<Rightarrow> 'db yan \<times> 64 word outcome" where
  "write_handle lib ev =
     handle lib (\<lambda>api. bindS (write_all api (we_sqls ev)) (\<lambda>_. returnS (scast (we_entity ev))))"

section \<open>UpdateEvent, ReadEvent, DeleteEvent\<close>

text \<open>\<open>prehandle\<close> snapshots the object's values (\<open>copy_refobj\<close>); its class is the template argument.\<close>

definition update_prehandle :: "class_decl \<Rightarrow> addr \<Rightarrow> (world, update_cond) sres" where
  "update_prehandle c p = bindS (UpdateCondImpl c) (copy_refobj c p)"

definition update_handle ::
  "'db sqlite_lib \<Rightarrow> bool \<Rightarrow> (addr \<Rightarrow> nat) \<Rightarrow> update_cond \<Rightarrow> 'db yan \<Rightarrow> 'db yan \<times> 64 word outcome" where
  "update_handle lib key_first raw_size uc =
     handle lib (\<lambda>api. bindS (ctx_update api key_first raw_size uc) (\<lambda>_. returnS 1))"

text \<open>The template argument \<open>Ret\<close>: one value or a sequence container; \<open>Ret ret\<close> is constructed first,
  outside the \<open>try\<close> block.\<close>

datatype ret_kind = One ret_type | Many ret_type

fun element_type :: "ret_kind \<Rightarrow> ret_type" where
  "element_type (One t) = t"
| "element_type (Many t) = t"

fun ret_object :: "ret_kind \<Rightarrow> (world, result) sres" where
  "ret_object (One Ret_int64) = returnS (R_int None)"
| "ret_object (One (Ret_class c)) = bindS (new_object c []) (\<lambda>p. returnS (R_obj c p))"
| "ret_object (Many Ret_int64) = returnS (R_ints [])"
| "ret_object (Many (Ret_class c)) = returnS (R_objs c [])"

definition ret_in_yan :: "ret_kind \<Rightarrow> ('db yan, result) sres" where
  "ret_in_yan k = (\<lambda>(p, s). case ret_object k (en_world s) of (w, r) \<Rightarrow> ((p, s\<lparr>en_world := w\<rparr>), r))"

definition read_prehandle :: "world \<Rightarrow> ret_kind \<Rightarrow> (class_decl \<times> addr) list \<Rightarrow> read_cond res" where
  "read_prehandle w k args = rc_append w (ReadCondImpl (element_type k)) args"

definition read_handle ::
  "nat \<Rightarrow> 'db sqlite_lib \<Rightarrow> bool \<Rightarrow> ret_kind \<Rightarrow> read_cond \<Rightarrow> 'db yan \<Rightarrow> 'db yan \<times> result outcome" where
  "read_handle fuel lib key_first k rc = (\<lambda>st.
     case ret_in_yan k st of
       (st', Inl e) \<Rightarrow> (st', Escaped e)
     | (st', Inr ro) \<Rightarrow> handle lib (\<lambda>api. ctx_read fuel api key_first ro rc) st')"

definition delete_prehandle :: "world \<Rightarrow> (class_decl \<times> addr) list \<Rightarrow> read_cond res" where
  "delete_prehandle w args = rc_append w (ReadCondImpl Ret_int64) args"

definition delete_handle ::
  "nat \<Rightarrow> 'db sqlite_lib \<Rightarrow> bool \<Rightarrow> read_cond \<Rightarrow> 'db yan \<Rightarrow> 'db yan \<times> 64 word outcome" where
  "delete_handle fuel lib key_first rc = handle lib (\<lambda>api. ctx_del fuel api key_first rc)"

section \<open>CreateTable\<close>

definition make_create_sql :: "class_decl \<Rightarrow> (world, string) sres" where
  "make_create_sql c =
     bindS (new_object c []) (\<lambda>_ w. (w, bindE (table_make w c) (\<lambda>sql. Inr (sql @ '';''))))"

text \<open>\<open>prehandle\<close>: one statement per class; \<open>entity_\<close> is their number.\<close>

definition create_prehandle :: "class_decl list \<Rightarrow> (world, write_event) sres" where
  "create_prehandle cs =
     bindS (mapS make_create_sql cs) (\<lambda>sqls. returnS \<lparr>we_sqls = sqls, we_entity = of_nat (length cs)\<rparr>)"

definition create_handle :: "'db sqlite_lib \<Rightarrow> write_event \<Rightarrow> 'db yan \<Rightarrow> 'db yan \<times> 64 word outcome" where
  "create_handle lib ev = (\<lambda>st.
     if we_sqls ev = [] then
       (st, Escaped (Runtime_error ''please specify at least one table when creating tables''))
     else handle lib (\<lambda>api. bindS (write_all api (we_sqls ev)) (\<lambda>_. returnS (scast (we_entity ev)))) st)"

section \<open>SqliteUnion, SqliteJoin, SqliteCopy\<close>

text \<open>
  These collect conditions and then submit a task whose exceptions, those of \<open>Ret ret\<close> included, go
  into the future.  \<open>union_all\<close> is \<open>union_read\<close>.
\<close>

definition union_read :: "world \<Rightarrow> ret_kind \<Rightarrow> (class_decl \<times> addr) list \<Rightarrow> read_cond list \<Rightarrow> read_cond list res" where
  "union_read w k args condlist =
     bindE (rc_append w (ReadCondImpl (element_type k)) args) (\<lambda>rc. Inr (condlist @ [rc]))"

definition ret_task :: "'db sqlite_lib \<Rightarrow> ret_kind \<Rightarrow> (result \<Rightarrow> 'db sqlite_api \<Rightarrow> ('db, result) sq) \<Rightarrow>
   'db yan \<Rightarrow> 'db yan \<times> result outcome" where
  "ret_task lib k m = (\<lambda>st.
     case ret_in_yan k st of
       (st', Inl e) \<Rightarrow> (st', failed e)
     | (st', Inr ro) \<Rightarrow> handle lib (m ro) st')"

definition union_task ::
  "nat \<Rightarrow> 'db sqlite_lib \<Rightarrow> bool \<Rightarrow> ret_kind \<Rightarrow> read_cond list \<Rightarrow> 'db yan \<Rightarrow> 'db yan \<times> result outcome" where
  "union_task fuel lib key_first k condlist =
     ret_task lib k (\<lambda>ro api. ctx_read_union fuel api key_first ro condlist)"

text \<open>The lists of \<open>SqliteJoinBase\<close>; \<open>join\<close> and \<open>left_join\<close> are one operation.\<close>

record join_builder =
  jb_joins :: "join_cond list"
  jb_conds :: "read_cond list"

definition join_builder0 :: join_builder where
  "join_builder0 = \<lparr>jb_joins = [], jb_conds = []\<rparr>"

definition join_table :: "class_decl \<Rightarrow> string list \<Rightarrow> join_builder \<Rightarrow> join_builder" where
  "join_table c equals jb = jb\<lparr>jb_joins := jb_joins jb @ [jc_append c equals]\<rparr>"

definition set_cond :: "world \<Rightarrow> join_builder \<Rightarrow> class_decl \<times> addr \<Rightarrow> join_builder res" where
  "set_cond w jb ca =
     bindE (rc_append w (ReadCondImpl (Ret_class (fst ca))) [ca]) (\<lambda>rc. Inr (jb\<lparr>jb_conds := jb_conds jb @ [rc]\<rparr>))"

text \<open>\<open>commit(conds...)\<close>: the conditions, then the check of the number of tables.\<close>

definition join_commit :: "world \<Rightarrow> (class_decl \<times> addr) list \<Rightarrow> join_builder \<Rightarrow> join_builder res" where
  "join_commit w args jb =
     bindE (foldE (set_cond w) jb args) (\<lambda>jb.
       if length (jb_joins jb) < 2
       then Inl (Runtime_error ''sqlite join read requires at least two tables'') else Inr jb)"

definition join_task ::
  "nat \<Rightarrow> 'db sqlite_lib \<Rightarrow> bool \<Rightarrow> ret_kind \<Rightarrow> join_builder \<Rightarrow> 'db yan \<Rightarrow> 'db yan \<times> result outcome" where
  "join_task fuel lib key_first k jb =
     ret_task lib k (\<lambda>ro api. ctx_read_join fuel api key_first (element_type k) ro (jb_joins jb) (jb_conds jb))"

definition copy_commit :: "world \<Rightarrow> (class_decl \<times> addr) list \<Rightarrow> join_builder \<Rightarrow> join_builder res" where
  "copy_commit w args jb =
     bindE (foldE (set_cond w) jb args) (\<lambda>jb.
       if length (jb_joins jb) < 1
       then Inl (Runtime_error ''sqlite copy operation requires the from and to tables'') else Inr jb)"

definition copy_task ::
  "'db sqlite_lib \<Rightarrow> bool \<Rightarrow> class_decl \<Rightarrow> join_builder \<Rightarrow> 'db yan \<Rightarrow> 'db yan \<times> 64 word outcome" where
  "copy_task lib key_first c jb =
     handle lib (\<lambda>api. ctx_copy api key_first (jb_joins jb) (ReadCondImpl (Ret_class c)) (jb_conds jb))"

section \<open>The connection of a handler\<close>

lemma on_connection_idle: "pool_idle (fst (on_connection m h st)) = pool_idle st"
  by (cases st) (simp add: on_connection_def pool_idle_def split: prod.split)

lemma handle_run:
  assumes "handle lib m st = (st', oc)"
  obtains r where "use_connection lib m st = (st', r)"
    and "oc = (case r of Inr x \<Rightarrow> Set_value x | Inl e \<Rightarrow> failed e)"
  using assms unfolding handle_def by (cases "use_connection lib m st"; cases "snd (use_connection lib m st)") auto

lemma failed_not_value [simp]: "failed e \<noteq> Set_value x"
  by (simp add: failed_def)

lemma handle_idle:
  assumes "handle lib m st = (st', oc)"
  shows "if pool_idle st = [] then length (pool_idle st') \<le> 1 \<and> (\<forall>x. oc = Set_value x \<longrightarrow> pool_idle st' \<noteq> [])
    else pool_idle st' = rotate1 (pool_idle st)"
proof -
  from assms obtain r where run: "use_connection lib m st = (st', r)"
    and oc: "oc = (case r of Inr x \<Rightarrow> Set_value x | Inl e \<Rightarrow> failed e)" by (rule handle_run)
  have "if pool_idle st = [] then length (pool_idle st') \<le> 1 \<and> (\<forall>x. r = Inr x \<longrightarrow> pool_idle st' \<noteq> [])
      else pool_idle st' = rotate1 (pool_idle st)"
    by (rule conn_pool.with_connection_idle [OF _ run [unfolded use_connection_def]]) (rule on_connection_idle)
  with oc show ?thesis by (auto split: if_splits sum.splits)
qed

text \<open>
  Every request gives its connection back, whether it succeeds or throws: with idle connections it
  takes the one at the front and puts it at the back; with none it opens one, keeps it for the next
  request when it succeeds, and leaves at most that one.
\<close>

theorem handler_returns_its_connection:
  assumes "handle lib m st = (st', oc)"
  shows "if pool_idle st = [] then length (pool_idle st') \<le> 1 \<and> (\<forall>x. oc = Set_value x \<longrightarrow> pool_idle st' \<noteq> [])
    else pool_idle st' = rotate1 (pool_idle st)"
  using assms by (rule handle_idle)

section \<open>What a write does to the database\<close>

text \<open>The library's state after the first \<open>k\<close> statements, and the code of statement \<open>k\<close> there.\<close>

definition db_after :: "'db sqlite_api \<Rightarrow> string list \<Rightarrow> nat \<Rightarrow> 'db \<Rightarrow> 'db" where
  "db_after api sqls k db = fold (\<lambda>sql db. snd (sq_exec api (c_str sql) db)) (take k sqls) db"

definition code_at :: "'db sqlite_api \<Rightarrow> string list \<Rightarrow> 'db \<Rightarrow> nat \<Rightarrow> int" where
  "code_at api sqls db k = fst (sq_exec api (c_str (sqls ! k)) (db_after api sqls k db))"

lemma db_after_simps [simp]:
  "db_after api sqls 0 db = db" "db_after api (sql # sqls) (Suc k) db = db_after api sqls k (snd (sq_exec api (c_str sql) db))"
  by (simp_all add: db_after_def)

lemma code_at_simps [simp]:
  "code_at api (sql # sqls) db 0 = fst (sq_exec api (c_str sql) db)"
  "code_at api (sql # sqls) db (Suc k) = code_at api sqls (snd (sq_exec api (c_str sql) db)) k"
  by (simp_all add: code_at_def)

lemma write_all_run:
  assumes "write_all api sqls s = (s', r)"
  shows "\<exists>k \<le> length sqls. s' = s\<lparr>ss_db := db_after api sqls k (ss_db s)\<rparr> \<and>
    (\<forall>i. Suc i < k \<longrightarrow> code_at api sqls (ss_db s) i = SQLITE_OK) \<and>
    (case r of
       Inr _ \<Rightarrow> k = length sqls \<and> (\<forall>i < k. code_at api sqls (ss_db s) i = SQLITE_OK)
     | Inl e \<Rightarrow> 0 < k \<and> code_at api sqls (ss_db s) (k - 1) \<noteq> SQLITE_OK \<and> exception_text e \<noteq> None)"
  using assms
proof (induction sqls arbitrary: s)
  case (Cons sql sqls)
  obtain ret db where e: "sq_exec api (c_str sql) (ss_db s) = (ret, db)" by force
  show ?case
  proof (cases "ret = SQLITE_OK")
    case False
    with Cons.prems e show ?thesis
      by (intro exI [of _ "Suc 0"]) (auto simp: ctx_write_def bindS_apply errmsg_def)
  next
    case True
    with Cons.prems e have "write_all api sqls (s\<lparr>ss_db := db\<rparr>) = (s', r)" by (simp add: ctx_write_def bindS_apply)
    from Cons.IH [OF this] obtain k where k: "k \<le> length sqls" "s' = s\<lparr>ss_db := db_after api sqls k db\<rparr>"
      "\<forall>i. Suc i < k \<longrightarrow> code_at api sqls db i = SQLITE_OK"
      "case r of Inr _ \<Rightarrow> k = length sqls \<and> (\<forall>i < k. code_at api sqls db i = SQLITE_OK)
       | Inl e \<Rightarrow> 0 < k \<and> code_at api sqls db (k - 1) \<noteq> SQLITE_OK \<and> exception_text e \<noteq> None" by (cases r) auto
    have "code_at api (sql # sqls) (ss_db s) i = SQLITE_OK" if "Suc i < Suc k" for i
      using that k(3) e True by (cases i) auto
    moreover have "code_at api (sql # sqls) (ss_db s) i = SQLITE_OK" if "i < Suc k" "\<And>i. i < k \<Longrightarrow> code_at api sqls db i = SQLITE_OK" for i
      using that e True by (cases i) auto
    moreover have "0 < k \<Longrightarrow> code_at api (sql # sqls) (ss_db s) k = code_at api sqls db (k - 1)"
      using e by (cases k) auto
    ultimately show ?thesis
      using k e by (intro exI [of _ "Suc k"]) (auto split: sum.splits)
  qed
qed (auto simp: db_after_def)

lemma on_connection_run:
  "on_connection m h (p, s) =
    (case m \<lparr>ss_world = en_world s, ss_db = en_db s, ss_stmts = en_caches s h\<rparr> of
       (t, r) \<Rightarrow>
         ((p, s\<lparr>en_world := ss_world t, en_db := ss_db t, en_caches := (en_caches s)(h := ss_stmts t)\<rparr>), r))"
  by (simp add: on_connection_def)

lemma handle_idle_run:
  assumes "pl_conns p = h # cs"
    and "m (lib_conn lib h) \<lparr>ss_world = en_world s, ss_db = en_db s, ss_stmts = en_caches s h\<rparr> = (t, r)"
  shows "handle lib m (p, s) =
    ((p\<lparr>pl_conns := cs @ [h]\<rparr>, s\<lparr>en_world := ss_world t, en_db := ss_db t, en_caches := (en_caches s)(h := ss_stmts t)\<rparr>),
     case r of Inr x \<Rightarrow> Set_value x | Inl e \<Rightarrow> failed e)"
  using assms
  by (cases r) (simp_all add: handle_def use_connection_def with_connection_def pool_get_def pool_release_def on_connection_run)

lemma write_handle_run:
  assumes "pl_conns p = h # cs" and "write_handle lib ev (p, s) = ((p', s'), oc)"
  shows "\<exists>k \<le> length (we_sqls ev). s' = s\<lparr>en_db := db_after (lib_conn lib h) (we_sqls ev) k (en_db s)\<rparr> \<and>
    (\<forall>i. Suc i < k \<longrightarrow> code_at (lib_conn lib h) (we_sqls ev) (en_db s) i = SQLITE_OK) \<and>
    (case oc of
       Set_value n \<Rightarrow> n = scast (we_entity ev) \<and> k = length (we_sqls ev) \<and>
         (\<forall>i < k. code_at (lib_conn lib h) (we_sqls ev) (en_db s) i = SQLITE_OK)
     | Set_exception e \<Rightarrow> 0 < k \<and> code_at (lib_conn lib h) (we_sqls ev) (en_db s) (k - 1) \<noteq> SQLITE_OK
     | Escaped e \<Rightarrow> False)"
proof -
  let ?api = "lib_conn lib h" and ?s = "\<lparr>ss_world = en_world s, ss_db = en_db s, ss_stmts = en_caches s h\<rparr>"
  obtain t r where run: "write_all ?api (we_sqls ev) ?s = (t, r)" by force
  from write_all_run [OF run] obtain k where k: "k \<le> length (we_sqls ev)"
    "t = ?s\<lparr>ss_db := db_after ?api (we_sqls ev) k (en_db s)\<rparr>"
    "\<forall>i. Suc i < k \<longrightarrow> code_at ?api (we_sqls ev) (en_db s) i = SQLITE_OK"
    "case r of Inr _ \<Rightarrow> k = length (we_sqls ev) \<and> (\<forall>i < k. code_at ?api (we_sqls ev) (en_db s) i = SQLITE_OK)
     | Inl e \<Rightarrow> 0 < k \<and> code_at ?api (we_sqls ev) (en_db s) (k - 1) \<noteq> SQLITE_OK \<and> exception_text e \<noteq> None"
    by (cases r) auto
  have "bindS (write_all ?api (we_sqls ev)) (\<lambda>_. returnS (scast (we_entity ev) :: 64 word)) ?s =
      (t, case r of Inl e \<Rightarrow> Inl e | Inr _ \<Rightarrow> Inr (scast (we_entity ev)))"
    using run by (cases r) (simp_all add: bindS_apply)
  from handle_idle_run [where m = "\<lambda>api. bindS (write_all api (we_sqls ev)) (\<lambda>_. returnS (scast (we_entity ev)))",
      OF assms(1) this] assms(2)
  have s': "s' = s\<lparr>en_world := ss_world t, en_db := ss_db t, en_caches := (en_caches s)(h := ss_stmts t)\<rparr>"
    and oc: "oc = (case r of Inl e \<Rightarrow> failed e | Inr _ \<Rightarrow> Set_value (scast (we_entity ev)))"
    unfolding write_handle_def by (cases r; simp)+
  show ?thesis
    using k s' oc by (intro exI [of _ k]) (cases r, auto simp: failed_def)
qed

text \<open>
  C22: a write runs its statements in the order in which they were prepared, each in the state the one
  before left, up to the first that the library refuses; there is no transaction: what ran before a
  refused statement stays.  It reports the number of rows only when every statement was accepted, and
  an exception otherwise; the objects and the cached statements are untouched.
\<close>

theorem write_stops_at_the_refused_statement:
  assumes "pl_conns p = h # cs" and "write_handle lib ev (p, s) = ((p', s'), oc)"
  shows "\<exists>k \<le> length (we_sqls ev). s' = s\<lparr>en_db := db_after (lib_conn lib h) (we_sqls ev) k (en_db s)\<rparr> \<and>
    (\<forall>i. Suc i < k \<longrightarrow> code_at (lib_conn lib h) (we_sqls ev) (en_db s) i = SQLITE_OK) \<and>
    (case oc of
       Set_value n \<Rightarrow> n = scast (we_entity ev) \<and> k = length (we_sqls ev) \<and>
         (\<forall>i < k. code_at (lib_conn lib h) (we_sqls ev) (en_db s) i = SQLITE_OK)
     | Set_exception e \<Rightarrow> 0 < k \<and> code_at (lib_conn lib h) (we_sqls ev) (en_db s) (k - 1) \<noteq> SQLITE_OK
     | Escaped e \<Rightarrow> False)"
  using assms by (rule write_handle_run)

section \<open>The texts of a write\<close>

definition written :: "world \<Rightarrow> class_decl \<Rightarrow> addr \<Rightarrow> bool" where
  "written w c p \<longleftrightarrow> (\<exists>ob. w_objs w p = Some ob \<and> table_ok w p ob \<and> ob_class ob = c)"

fun write_arg_ok :: "world \<Rightarrow> write_arg \<Rightarrow> bool" where
  "write_arg_ok w (W_obj c p) \<longleftrightarrow> written w c p \<and> row_of w p \<noteq> []"
| "write_arg_ok w (W_objs c ps) \<longleftrightarrow> ps \<noteq> [] \<and> (\<forall>p \<in> set ps. written w c p) \<and> row_of w (hd ps) \<noteq> []"

fun write_arg_text :: "world \<Rightarrow> write_arg \<Rightarrow> string" where
  "write_arg_text w (W_obj c p) = insert_text (class_name w c) (row_of w p) @ '';''"
| "write_arg_text w (W_objs c ps) =
     insert_text (class_name w c) (row_of w (hd ps)) @ concat (map (\<lambda>q. values_text (row_of w q)) (tl ps)) @ '';''"

lemma write_sql_run: "write_arg_ok w arg \<Longrightarrow> write_sql raw_size w arg = Inr (write_arg_text w arg)"
proof (cases arg)
  case (W_obj c p)
  assume "write_arg_ok w arg"
  with W_obj obtain ob where ob: "w_objs w p = Some ob" "table_ok w p ob" "ob_class ob = c" and ne: "ob_seqset ob \<noteq> []"
    by (auto simp: written_def row_of_def)
  from insert_make_run [OF ob(1,2) ne, of raw_size] show ?thesis
    by (auto simp: W_obj write_sql_def ob(3))
next
  case (W_objs c ps)
  assume ok: "write_arg_ok w arg"
  then obtain p qs where ps: "ps = p # qs" by (cases ps) (auto simp: W_objs)
  with ok obtain ob where ob: "w_objs w p = Some ob" "table_ok w p ob" "ob_class ob = c" and ne: "ob_seqset ob \<noteq> []"
    by (auto simp: W_objs written_def row_of_def)
  have "\<forall>q \<in> set qs. \<exists>ob'. w_objs w q = Some ob' \<and> table_ok w q ob' \<and> ob_class ob' = ob_class ob"
    using ok by (auto simp: W_objs ps written_def ob(3))
  from insert_make_rows_text_run [OF ob(1,2) ne this, of raw_size] show ?thesis
    by (auto simp: W_objs ps write_sql_def ob(3))
qed

lemma write_prehandle_run:
  "list_all (write_arg_ok w) args \<Longrightarrow>
    write_prehandle raw_size w ev args =
      Inr (ev\<lparr>we_sqls := we_sqls ev @ map (write_arg_text w) args,
              we_entity := we_entity ev + of_nat (sum_list (map write_rows args))\<rparr>)"
  by (induction args arbitrary: ev) (simp_all add: write_sql_run algebra_simps)

text \<open>
  A write of consistent objects prepares one \<open>INSERT\<close> per argument, in the order of the arguments,
  from the values the objects have then; a run without an exception has executed exactly these texts,
  and the number it reports is the number of objects as a 32-bit \<open>int\<close>, sign extended: it is that number
  as long as there are fewer than \<open>2 ^ 31\<close> of them.
\<close>

theorem write_inserts_its_objects:
  assumes "list_all (write_arg_ok w) args" and "pl_conns p = h # cs"
  shows "\<exists>ev. write_prehandle raw_size w WriteEvent args = Inr ev \<and> we_sqls ev = map (write_arg_text w) args \<and>
    (\<forall>s st' n. write_handle lib ev (p, s) = (st', Set_value n) \<longrightarrow>
       en_db (snd st') = db_after (lib_conn lib h) (map (write_arg_text w) args) (length args) (en_db s) \<and>
       n = scast (of_nat (sum_list (map write_rows args)) :: 32 word) \<and>
       (sum_list (map write_rows args) < 2 ^ 31 \<longrightarrow> sint n = int (sum_list (map write_rows args))))"
proof -
  let ?n = "sum_list (map write_rows args)"
  let ?ev = "\<lparr>we_sqls = map (write_arg_text w) args, we_entity = of_nat ?n\<rparr>"
  have pre: "write_prehandle raw_size w WriteEvent args = Inr ?ev"
    using write_prehandle_run [OF assms(1), of raw_size WriteEvent] by (simp add: WriteEvent_def)
  have small: "sint (scast (of_nat ?n :: 32 word) :: 64 word) = int ?n" if "?n < 2 ^ 31"
  proof -
    have "sint (of_nat ?n :: 32 word) = int ?n"
      using that by (simp add: signed_of_nat signed_take_bit_int_eq_self)
    moreover have "sint (scast (of_nat ?n :: 32 word) :: 64 word) = sint (of_nat ?n :: 32 word)"
      by (rule sint_up_scast) (simp add: is_up)
    ultimately show ?thesis by simp
  qed
  have run: "en_db s' = db_after (lib_conn lib h) (map (write_arg_text w) args) (length args) (en_db s) \<and>
      n = scast (of_nat ?n :: 32 word)" if "write_handle lib ?ev (p, s) = ((p', s'), Set_value n)" for s p' s' n
    using write_handle_run [OF assms(2) that] by auto
  show ?thesis
    by (intro exI [of _ ?ev] conjI allI impI pre) (use run small in \<open>auto dest: run\<close>)
qed

section \<open>The snapshot of an update\<close>

text \<open>
  Addresses handed out so far are below \<open>w_next\<close>.  User code that works on the table object at \<open>p\<close>
  changes no other object, no registration, and only extends the condition list \<open>l\<close>.
\<close>

definition addrs_ok :: "world \<Rightarrow> bool" where
  "addrs_ok w \<longleftrightarrow> (\<forall>p. w_objs w p \<noteq> None \<longrightarrow> p < w_next w) \<and> (\<forall>l. w_plists w l \<noteq> None \<longrightarrow> l < w_next w)"

definition user_frame :: "addr \<Rightarrow> world \<Rightarrow> world \<Rightarrow> bool" where
  "user_frame p w w' \<longleftrightarrow>
     w_reg w' = w_reg w \<and> (\<forall>q. q \<noteq> p \<longrightarrow> w_objs w' q = w_objs w q) \<and> w_next w \<le> w_next w' \<and>
     (\<forall>l ps. l < w_next w \<longrightarrow> w_plists w l = Some ps \<longrightarrow> (\<exists>qs. w_plists w' l = Some (ps @ qs)))"

lemma user_frame_refl [simp]: "user_frame p w w"
  by (simp add: user_frame_def)

lemma user_frame_trans:
  assumes "user_frame p w w'" and "user_frame p w' w''"
  shows "user_frame p w w''"
proof -
  have "\<exists>qs. w_plists w'' l = Some (ps @ qs)" if l: "l < w_next w" "w_plists w l = Some ps" for l ps
  proof -
    from assms(1) l obtain qs where "w_plists w' l = Some (ps @ qs)" "l < w_next w'"
      unfolding user_frame_def by (meson order_less_le_trans)
    with assms(2) show ?thesis unfolding user_frame_def by fastforce
  qed
  with assms show ?thesis unfolding user_frame_def by auto
qed

lemma user_frame_put [simp]: "user_frame p w (put_obj p ob w') \<longleftrightarrow> user_frame p w w'"
  by (simp add: user_frame_def put_obj_def)

lemma user_frame_store:
  assumes "store_param p prm ob w = (ob', w')" and "\<And>l. ob_conds ob = Some l \<Longrightarrow> w_plists w l \<noteq> None"
  shows "user_frame p w w'"
  using assms by (auto simp: store_param_def user_frame_def split: option.splits)

lemma run_member_op_frame:
  assumes "table_obj_ok w p"
    and typed: "\<And>ob t. w_objs w p = Some ob \<Longrightarrow> decl_type (ob_class ob) mem = Some t \<Longrightarrow> op_typed t opr"
  shows "user_frame p w (fst (run_member_op opr p mem w))"
proof -
  from assms(1) obtain ob where ob: "w_objs w p = Some ob" and ok: "table_ok w p ob"
    by (auto simp: table_obj_ok_def)
  show ?thesis
  proof (cases "\<exists>t m. at_member w p ob mem t m")
    case False
    then have "with_value_member p mem f w = (w, Inl Undefined_behaviour)"
      for f :: "yan_obj \<Rightarrow> yan_type \<Rightarrow> value_member \<Rightarrow> (world, unit) sres"
      by (auto simp: at_member_def with_value_member_def with_obj_run [OF ob] ob
          split: option.splits member_obj.splits)
    then show ?thesis
      by (cases opr) (simp_all add: member_assign_def member_set_cond_def update_value_member_def
          member_operator_def member_compare_def member_order_def)
  next
    case True
    then obtain t m where at: "at_member w p ob mem t m" by blast
    then have ty: "op_typed t opr" using typed ob by (simp add: at_member_def)
    from ok at obtain i args where m: "value_member_ok p t (of_nat i \<in> set (ob_seqset ob)) m"
      by (rule at_member_index)
    have own: "vm_obj m = p" "ob_chain ob = []"
      using m ok by (auto simp: value_member_ok_def table_ok_def)
    have l: "\<And>l. ob_conds ob = Some l \<Longrightarrow> w_plists w l \<noteq> None"
      using ok by (auto simp: table_ok_def)
    show ?thesis
    proof (cases opr)
      case (Op_assign rvalue v)
      show ?thesis
        using member_assign_run [OF at own, of rvalue v] member_assign_throws [OF at, of rvalue v]
        by (cases "vm_cond m = 0 \<and> t \<noteq> YT_AUTO_INCREMENT") (auto simp: Op_assign)
    next
      case (Op_cond ct)
      then show ?thesis by (simp add: member_set_cond_def update_value_member_run [OF at])
    next
      case (Op_compare c)
      show ?thesis
      proof (cases "vm_cond m = 0")
        case True
        with Op_compare show ?thesis by (simp add: member_operator_def member_compare_def with_value_member_run [OF at])
      next
        case False
        obtain ob' w' where st: "store_param p (make_param mem t (set_mem_cond_type (vm_cond m) (cmp_ops c))
            (obj_member_seq ob mem w) (cmp_operand c)) ob w = (ob', w')" by fastforce
        show ?thesis
          using Op_compare member_compare_run [OF at own False l refl st] user_frame_store [OF st l]
          by (simp add: member_operator_def)
      qed
    next
      case (Op_order ct)
      then have ct: "cond_type_code ct \<noteq> 0" using ty by auto
      from m obtain u where u: "YanType2Type t = Some u" by (auto simp: value_member_ok_def)
      obtain ob' w' where st: "store_param p (make_param mem t (set_mem_cond_type (cond_type_code ct) OT_EQUAL)
          (obj_member_seq ob mem w) (PV (default_val u))) ob w = (ob', w')" by fastforce
      show ?thesis
        using Op_order member_order_run [OF at own ct u l refl st] user_frame_store [OF st l] by simp
    qed
  qed
qed

definition ops_typed :: "class_decl \<Rightarrow> (string \<times> member_op) list \<Rightarrow> bool" where
  "ops_typed c ops \<longleftrightarrow> (\<forall>(mem, opr) \<in> set ops. \<forall>t. decl_type c mem = Some t \<longrightarrow> op_typed t opr)"

lemma run_member_ops_same: "same_classes w (run_member_ops p ops w)"
proof (induction ops arbitrary: w)
  case (Cons x ops)
  obtain mem opr where x: "x = (mem, opr)" by force
  show ?case
    using class_frame.trans [OF keepsD [OF keeps_run_member_op] Cons.IH] by (simp add: x)
qed (simp add: class_frame.refl)

lemma run_member_ops_frame:
  "written w c p \<Longrightarrow> ops_typed c ops \<Longrightarrow>
    user_frame p w (run_member_ops p ops w) \<and> written (run_member_ops p ops w) c p"
proof (induction ops arbitrary: w)
  case (Cons x ops)
  obtain mem opr where x: "x = (mem, opr)" by force
  let ?w = "fst (run_member_op opr p mem w)"
  from Cons.prems(1) obtain ob where ob: "w_objs w p = Some ob" "table_ok w p ob" "ob_class ob = c"
    by (auto simp: written_def)
  have ok: "table_obj_ok w p" using ob by (auto simp: table_obj_ok_def)
  have ty: "op_typed t opr" if "w_objs w p = Some ob'" "decl_type (ob_class ob') mem = Some t" for ob' t
    using Cons.prems(2) that ob by (auto simp: ops_typed_def x)
  have "table_obj_ok ?w p" using ok ty by (rule run_member_op_ok)
  moreover obtain ob' where "w_objs ?w p = Some ob'" "ob_class ob' = c"
    using run_member_op_class [OF ob(1), of opr mem] ob(3) by blast
  ultimately have "written ?w c p" by (auto simp: written_def table_obj_ok_def)
  then have "user_frame p ?w (run_member_ops p ops ?w) \<and> written (run_member_ops p ops ?w) c p"
    by (rule Cons.IH) (use Cons.prems(2) in \<open>simp add: ops_typed_def\<close>)
  with user_frame_trans [OF run_member_op_frame [OF ok ty]] show ?case by (simp add: x)
qed simp

lemma user_frame_table_ok:
  assumes "user_frame p w w'" and "table_ok w q ob" and "ob_conds ob = None"
  shows "table_ok w' q ob"
  using assms by (simp add: table_ok_def user_frame_def obj_params_def)

lemma user_frame_row:
  assumes "user_frame p w w'" and "q \<noteq> p"
  shows "row_of w' q = row_of w q"
  using assms by (simp add: user_frame_def row_of_def row_item_def [abs_def] get_value_def class_members_def cong: option.case_cong)

lemma registered_if_assigned:
  assumes "table_ok w p ob" and "ob_seqset ob \<noteq> []"
  shows "w_reg w (cd_name (ob_class ob)) \<noteq> None"
proof -
  from assms have "cd_members (ob_class ob) \<noteq> []"
    unfolding table_ok_def by (metis last_in_set length_0_conv less_nat_zero_code)
  moreover have "class_ready (w_reg w) (ob_class ob)" using assms(1) by (simp add: table_ok_def)
  ultimately show ?thesis
    by (cases "w_reg w (cd_name (ob_class ob))") (simp_all add: class_ready_def get_yan_struct_def get_class_state_def fresh_class_state_def)
qed

text \<open>The conditions with which an update of an object is made: those of the object.\<close>

definition obj_cond :: "yan_obj \<Rightarrow> read_cond" where
  "obj_cond ob = \<lparr>rc_ret = Ret_class (ob_class ob), rc_cys = Some (ob_class ob), rc_params = ob_conds ob, rc_hash = ob_hashv ob\<rparr>"

lemma update_prehandle_run:
  assumes "addrs_ok w" and "registry_ok (w_reg w)" and "table_class (ob_class ob)"
    and p: "w_objs w p = Some ob" "table_ok w p ob" and "ob_seqset ob \<noteq> []"
  shows "\<exists>w1 uc lob. update_prehandle (ob_class ob) p w = (w1, Inr uc) \<and> uc_laddr uc = Some (w_next w) \<and>
    w_next w \<noteq> p \<and> w_objs w1 (w_next w) = Some lob \<and> table_ok w1 (w_next w) lob \<and> ob_class lob = ob_class ob \<and>
    ob_conds lob = None \<and>
    ob_seqset lob = ob_seqset ob \<and> row_of w1 (w_next w) = row_of w p \<and> w_objs w1 p = Some ob \<and> table_ok w1 p ob \<and>
    w_reg w1 = w_reg w \<and> w_plists w1 = w_plists w \<and> w_next w1 = w_next w + 1 \<and>
    rc_cys uc = Some (ob_class ob) \<and> rc_params uc = ob_conds ob \<and> uc_lco uc = w_next w \<and>
    read_cond.truncate uc = obj_cond ob"
proof -
  let ?c = "ob_class ob" and ?lp = "w_next w"
  have neq: "?lp \<noteq> p" using assms(1) p(1) by (auto simp: addrs_ok_def)
  have ready: "class_ready (w_reg w) ?c" using p(2) by (simp add: table_ok_def)
  note reg = registered_if_assigned [OF p(2) assms(6)]
  from new_table_object_run [OF assms(2,3) disjI2, OF ready] obtain w0 lob0 where
    new: "new_object ?c [] w = (w0, Inr ?lp)" and l0: "w_objs w0 ?lp = Some lob0" "table_ok w0 ?lp lob0"
      "ob_class lob0 = ?c" "ob_seqset lob0 = []" "ob_conds lob0 = None"
    and w0: "w_objs w0 = (w_objs w)(?lp \<mapsto> lob0)" "w_plists w0 = w_plists w" "w_next w0 = w_next w + 1"
      "w_reg w0 = w_reg w"
    using reg by auto
  have rp: "w_objs w0 p = Some ob" using w0(1) neq p(1) by simp
  have tok: "table_ok w0 p ob" using p(2) table_ok_cong [OF w0(4,2)] by simp
  have row: "row_of w0 p = row_of w p"
    using rp p(1) w0(4) by (simp add: row_of_def row_item_def [abs_def] get_value_def class_members_def)
  let ?uc = "\<lparr>rc_ret = Ret_class ?c, rc_cys = None, rc_params = None, rc_hash = '''', uc_laddr = None, uc_lco = ?lp\<rparr>"
  have "empty_object w0 (uc_lco ?uc) ?c lob0" using l0 by (simp add: empty_object_def)
  from copy_refobj_snapshot_run [OF rp tok _ this] neq obtain w1 uc lob where
    "copy_refobj ?c p ?uc w0 = (w1, Inr uc)" "w1 = put_obj ?lp lob w0" "ob_conds lob = None"
    "w_objs w1 ?lp = Some lob" "table_ok w1 ?lp lob" "ob_class lob = ?c" "ob_seqset lob = ob_seqset ob"
    "row_of w1 ?lp = row_of w0 p" "w_objs w1 p = Some ob" "rc_cys uc = Some ?c" "uc_laddr uc = Some ?lp"
    "rc_params uc = ob_conds ob" "uc_lco uc = ?lp" "rc_ret uc = Ret_class ?c" "rc_hash uc = ob_hashv ob" by auto
  moreover from this have "w_reg w1 = w_reg w" "w_plists w1 = w_plists w" "w_next w1 = w_next w + 1" "table_ok w1 p ob"
    using w0 tok by (simp_all add: table_ok_other)
  moreover have "update_prehandle ?c p w = copy_refobj ?c p ?uc w0"
    by (simp add: update_prehandle_def UpdateCondImpl_def bindS_apply new)
  ultimately show ?thesis using row neq by (intro exI [of _ w1] exI [of _ uc] exI [of _ lob]) (simp add: obj_cond_def read_cond.truncate_def)
qed


section \<open>The tables of a create request\<close>

definition table_text :: "world \<Rightarrow> class_decl \<Rightarrow> string" where
  "table_text w c = ''CREATE TABLE IF NOT EXISTS '' @ class_name w c @ '' ('' @
     join_with '', '' (map (\<lambda>m. the (column_def m)) (columns_of c)) @ '') ;''"

text \<open>
  C36: a create request for a table class whose members the back end knows registers the class when no
  object of it existed before, whatever else is registered, and then prepares the one statement that
  describes all its columns; it leaves the objects of the user alone.
\<close>

theorem create_registers_and_describes:
  assumes "registry_ok (w_reg w)" and "table_class c" and "w_reg w (cd_name c) = None \<or> class_ready (w_reg w) c"
    and "columns_of c \<noteq> []" and "\<forall>m \<in> set (columns_of c). column_def m \<noteq> None"
  shows "\<exists>w' ev. create_prehandle [c] w = (w', Inr ev) \<and> class_ready (w_reg w') c \<and> registry_ok (w_reg w') \<and>
    we_sqls ev = [table_text w' c] \<and> we_entity ev = 1 \<and> (\<forall>p. p \<noteq> w_next w \<longrightarrow> w_objs w' p = w_objs w p)"
proof -
  from new_table_object_run [OF assms(1-3)] obtain w' ob where
    new: "new_object c [] w = (w', Inr (w_next w))" and ok: "table_ok w' (w_next w) ob" "ob_class ob = c" "registry_ok (w_reg w')"
    and objs: "w_objs w' = (w_objs w)(w_next w \<mapsto> ob)" by blast
  from ok have ready: "class_ready (w_reg w') c" by (auto simp: table_ok_def)
  from table_make_text_run [OF ready] assms(4,5) have
    "table_make w' c = Inr (''CREATE TABLE IF NOT EXISTS '' @ class_name w' c @ '' ('' @
       join_with '', '' (map (\<lambda>m. the (column_def m)) (columns_of c)) @ '') '')" by blast
  then have "make_create_sql c w = (w', Inr (''CREATE TABLE IF NOT EXISTS '' @ class_name w' c @ '' ('' @
       join_with '', '' (map (\<lambda>m. the (column_def m)) (columns_of c)) @ '') ;''))"
    by (simp add: make_create_sql_def bindS_apply new)
  then show ?thesis
    using ok(3) ready objs by (auto simp: create_prehandle_def bindS_apply table_text_def)
qed

section \<open>Concrete requests\<close>

text \<open>
  A library that refuses exactly the text \<open>x;\<close> and logs the rest; every statement has one row of
  equal cells.
\<close>

definition picky_lib :: "string list sqlite_lib" where
  "picky_lib =
     \<lparr>lib_open = (\<lambda>path db. ((0, 0), db)),
      lib_conn = (\<lambda>h.
        \<lparr>sq_prepare = (\<lambda>s db. ((0, Some 1), db)), sq_exec = (\<lambda>s db. if s = ''x;'' then (1, db) else (0, db @ [s])),
         sq_bind_text = (\<lambda>st i s db. (0, db)), sq_bind_int = (\<lambda>st i x db. (0, db)),
         sq_bind_int64 = (\<lambda>st i x db. (0, db)),
         sq_step = (\<lambda>st db. if db \<noteq> [] \<and> last db = ''row'' then (101, butlast db) else (100, db @ [''row''])),
         sq_reset = (\<lambda>st db. db), sq_clear_bindings = (\<lambda>st db. db), sq_finalize = (\<lambda>st db. db),
         sq_column_text = (\<lambda>st i db. Some ''cell''), sq_column_int = (\<lambda>st i db. 0), sq_column_int64 = (\<lambda>st i db. 0),
         sq_errstr = (\<lambda>i. ''error''), sq_errmsg = (\<lambda>db. ''error'')\<rparr>)\<rparr>"

definition picky_engine :: "string list engine" where
  "picky_engine = \<lparr>en_world = sample_world, en_db = [], en_caches = (\<lambda>_ _. None)\<rparr>"

definition idle_pool :: "nat list \<Rightarrow> nat pool" where
  "idle_pool cs = (ConnectionPool ''db'')\<lparr>pl_conns := cs\<rparr>"

lemma idle_pool_simps [simp]: "pl_conns (idle_pool cs) = cs" "pool_idle (idle_pool cs, s) = cs"
  by (simp_all add: idle_pool_def pool_idle_def)

theorem handler_returns_its_connection_witness:
  "pool_idle (fst (create_handle picky_lib \<lparr>we_sqls = [''x;''], we_entity = 1\<rparr> (idle_pool [4, 7], picky_engine))) = [7, 4]"
proof -
  let ?m = "\<lambda>api. bindS (write_all api [''x;'']) (\<lambda>_. returnS (scast (1 :: 32 word) :: 64 word))"
  let ?st = "(idle_pool [4, 7], picky_engine)"
  have "handle picky_lib ?m ?st = (fst (handle picky_lib ?m ?st), snd (handle picky_lib ?m ?st))" by simp
  from handler_returns_its_connection [OF this] show ?thesis by (simp add: create_handle_def)
qed

lemma picky_refuses:
  "write_handle picky_lib \<lparr>we_sqls = [''a;'', ''x;'', ''b;''], we_entity = 3\<rparr> (idle_pool [4], picky_engine) =
     ((idle_pool [4], picky_engine\<lparr>en_db := [''a;'']\<rparr>),
      Set_exception (Runtime_error ''sqlite write sql failed: error[error]''))"
  by (simp add: write_handle_def handle_def use_connection_def with_connection_def pool_get_def pool_release_def
      on_connection_run idle_pool_def ConnectionPool_def bindS_apply ctx_write_def picky_lib_def picky_engine_def
      c_str_def SQLITE_OK_def errmsg_def failed_def fun_eq_iff)

text \<open>The second of three statements is refused: the first stays, the third is never tried.\<close>

theorem write_stops_at_the_refused_statement_witness:
  "\<exists>k \<le> 3. [''a;''] = db_after (lib_conn picky_lib 4) [''a;'', ''x;'', ''b;''] k [] \<and>
     0 < k \<and> code_at (lib_conn picky_lib 4) [''a;'', ''x;'', ''b;''] [] (k - 1) \<noteq> SQLITE_OK"
proof -
  have "pl_conns (idle_pool [4]) = 4 # []" by simp
  from write_stops_at_the_refused_statement [OF this picky_refuses] obtain k where
    k: "k \<le> Suc (Suc (Suc 0))" and "[''a;''] = db_after (lib_conn picky_lib 4) [''a;'', ''x;'', ''b;''] k []"
    "0 < k" "code_at (lib_conn picky_lib 4) [''a;'', ''x;'', ''b;''] [] (k - Suc 0) \<noteq> SQLITE_OK"
    by (auto simp: picky_engine_def)
  moreover from k have "k \<le> 3" by simp
  ultimately show ?thesis unfolding One_nat_def by blast
qed

lemma sample_written: "write_arg_ok sample_world (W_objs ComponentDB [3, 4])" "write_arg_ok sample_world (W_obj ComponentDB 0)"
  by (simp_all add: written_def sample_rows)

theorem write_inserts_its_objects_witness:
  "\<exists>ev. write_prehandle (\<lambda>_. 0) sample_world WriteEvent [W_objs ComponentDB [3, 4], W_obj ComponentDB 0] = Inr ev \<and>
     we_sqls ev = map (write_arg_text sample_world) [W_objs ComponentDB [3, 4], W_obj ComponentDB 0] \<and>
     (\<forall>s st' n. write_handle picky_lib ev (idle_pool [4], s) = (st', Set_value n) \<longrightarrow> sint n = 3)"
  using write_inserts_its_objects [of sample_world "[W_objs ComponentDB [3, 4], W_obj ComponentDB 0]" "idle_pool [4]" 4 "[]"
      "\<lambda>_. 0" picky_lib] sample_written
  by auto

lemma sample_state_ok:
  assumes "table_class c"
  shows "class_state_ok (Yan_Object_Inv.sample_state c)"
proof -
  let ?ns = "map member_decl_name (cd_members c)" and ?n = "length (cd_members c)"
  have d: "distinct ?ns" and v: "list_all value_decl (cd_members c)" using assms by (simp_all add: table_class_def)
  have name: "mi_name (decl_info m) = member_decl_name m" if "m \<in> set (cd_members c)" for m
    using v that by (cases m) (auto simp: list_all_iff)
  have "map_of (zip ?ns [0..<?n]) k = Some i \<longleftrightarrow> i < ?n \<and> member_decl_name (cd_members c ! i) = k" for k i
    using d by (auto simp: map_of_eq_Some_iff set_zip intro!: exI [of _ i])
  moreover have "map_of (zip ?ns (map of_nat [0..<?n])) k = Some s \<longleftrightarrow>
      (\<exists>i < ?n. member_decl_name (cd_members c ! i) = k \<and> s = of_nat i)" for k and s :: "16 word"
    using d by (simp add: map_of_eq_Some_iff set_zip) (metis (mono_tags) diff_zero length_upt nth_map nth_upt plus_nat.add_0)
  ultimately show ?thesis
    using name by (auto simp: class_state_ok_def struct_ok_def Yan_Object_Inv.sample_state_def image_iff)
qed

lemma sample_registry_ok: "registry_ok sample_reg"
  by (auto simp: registry_ok_def sample_reg_def sample_state_ok split: if_splits)


theorem create_registers_and_describes_witness:
  "\<exists>w' ev. create_prehandle [ComponentDB] empty_world = (w', Inr ev) \<and> class_ready (w_reg w') ComponentDB \<and>
     we_sqls ev = [table_text w' ComponentDB]"
proof -
  have "columns_of ComponentDB = map decl_info (cd_members ComponentDB)"
    by (simp add: columns_of_def ComponentDB_def)
  then have "columns_of ComponentDB \<noteq> []" "\<forall>m \<in> set (columns_of ComponentDB). column_def m \<noteq> None"
    using sample_members(4)
    by (auto simp: ComponentDB_def column_def_def base_member_info_def LEAST_TABLE_FIELD_CHAR_LENGTH_def)
  from create_registers_and_describes [OF _ _ _ this, of empty_world] show ?thesis by auto
qed

end
