(* ===== verification/Yan_ThreadPool.thy ===== *)
theory Yan_ThreadPool
  imports Yan_Prelude "HOL-Library.Word" "HOL-Library.Signed_Division"
begin

text \<open>
  \<open>ThreadPool\<close> (\<open>src/com/thread_pool.h\<close>, \<open>thread_pool.cpp\<close>; \<open>Execuator\<close> and \<open>EventOps\<close> add nothing to it):
  one queue per worker, tasks distributed by a counter, a key or a number, and the loop of a worker.
  The queues are \<open>moodycamel::BlockingConcurrentQueue\<close>: a queue is the list of its tasks, and whether
  \<open>try_enqueue\<close> accepts a task is the parameter \<open>accepts\<close>.
\<close>

section \<open>Distribution of the tasks\<close>

record 'e thread_pool =
  tp_queues :: "'e list list"
  tp_stop :: bool
  tp_seq :: "32 word"

definition ThreadPool :: "nat \<Rightarrow> 'e thread_pool" where
  "ThreadPool workers = \<lparr>tp_queues = replicate workers [], tp_stop = False, tp_seq = 0\<rparr>"

definition get_consumer_num :: "'e thread_pool \<Rightarrow> int" where
  "get_consumer_num tp = sint (of_nat (length (tp_queues tp)) :: 32 word)"

definition stopped_error :: error where
  "stopped_error = Runtime_error ''this thread pool is stopped''"

text \<open>\<open>consumers_[i].queue_->try_enqueue(elem)\<close>; an index outside the vector is undefined behaviour.\<close>

definition try_enqueue ::
  "('e list \<Rightarrow> bool) \<Rightarrow> int \<Rightarrow> 'e \<Rightarrow> 'e thread_pool \<Rightarrow> 'e thread_pool \<times> (error + bool)" where
  "try_enqueue accepts i elem tp =
     (if i < 0 \<or> int (length (tp_queues tp)) \<le> i then (tp, Inl Undefined_behaviour)
      else
        (let q = tp_queues tp ! nat i in
         if accepts q then (tp\<lparr>tp_queues := (tp_queues tp)[nat i := q @ [elem]]\<rparr>, Inr True)
         else (tp, Inr False)))"

text \<open>
  \<open>++seq_ % get_consumer_num()\<close>: an atomic 32-bit counter that wraps, and the remainder of C++, which
  takes the sign of the dividend.
\<close>

definition next_index :: "'e thread_pool \<Rightarrow> 'e thread_pool \<times> (error + int)" where
  "next_index tp =
     (let seq = tp_seq tp + 1; tp' = tp\<lparr>tp_seq := seq\<rparr> in
      (tp', if get_consumer_num tp = 0 then Inl Undefined_behaviour else Inr (sint seq smod get_consumer_num tp)))"

definition tp_insert :: "('e list \<Rightarrow> bool) \<Rightarrow> 'e \<Rightarrow> ('e thread_pool, bool) sres" where
  "tp_insert accepts elem = (\<lambda>tp.
     if tp_stop tp then (tp, Inl stopped_error)
     else bindS next_index (\<lambda>i. try_enqueue accepts i elem) tp)"

text \<open>\<open>hasher(key) % get_consumer_num()\<close> is computed in \<open>size_t\<close>; \<open>hash\<close> is the hash of the key.\<close>

definition key_index :: "64 word \<Rightarrow> 'e thread_pool \<Rightarrow> error + int" where
  "key_index hash tp =
     (let n = word_of_int (get_consumer_num tp) :: 64 word in
      if n = 0 then Inl Undefined_behaviour else Inr (uint (hash mod n)))"

definition tp_insert_key :: "('e list \<Rightarrow> bool) \<Rightarrow> 64 word \<Rightarrow> 'e \<Rightarrow> ('e thread_pool, bool) sres" where
  "tp_insert_key accepts hash elem = (\<lambda>tp.
     if tp_stop tp then (tp, Inl stopped_error)
     else
       (case key_index hash tp of
          Inl e \<Rightarrow> (tp, Inl e)
        | Inr i \<Rightarrow> try_enqueue accepts i elem tp))"

definition invalid_consumer_error :: error where
  "invalid_consumer_error = Runtime_error ''invalid consumer number''"

definition tp_insert_num :: "('e list \<Rightarrow> bool) \<Rightarrow> 32 word \<Rightarrow> 'e \<Rightarrow> ('e thread_pool, bool) sres" where
  "tp_insert_num accepts num elem = (\<lambda>tp.
     if tp_stop tp then (tp, Inl stopped_error)
     else if length (tp_queues tp) < unat num then (tp, Inl invalid_consumer_error)
     else try_enqueue accepts (uint num) elem tp)"

text \<open>
  The \<open>submit\<close> overloads wrap the task and hand out its future.  With a key or a number a refused task is
  an error; without, the answer of \<open>try_enqueue\<close> is dropped.
\<close>

definition refused_error :: error where
  "refused_error = Runtime_error ''enqueue failed''"

definition or_refused :: "('e thread_pool, bool) sres \<Rightarrow> ('e thread_pool, unit) sres" where
  "or_refused m = bindS m (\<lambda>ok. if ok then returnS () else throwS refused_error)"

definition submit :: "('e list \<Rightarrow> bool) \<Rightarrow> 'e \<Rightarrow> ('e thread_pool, unit) sres" where
  "submit accepts elem = bindS (tp_insert accepts elem) (\<lambda>_. returnS ())"

definition submit_key :: "('e list \<Rightarrow> bool) \<Rightarrow> 64 word \<Rightarrow> 'e \<Rightarrow> ('e thread_pool, unit) sres" where
  "submit_key accepts hash elem = or_refused (tp_insert_key accepts hash elem)"

definition submit_num :: "('e list \<Rightarrow> bool) \<Rightarrow> 32 word \<Rightarrow> 'e \<Rightarrow> ('e thread_pool, unit) sres" where
  "submit_num accepts num elem = or_refused (tp_insert_num accepts num elem)"

lemma consumer_num [simp]:
  "length (tp_queues tp) < 2 ^ 31 \<Longrightarrow> get_consumer_num tp = int (length (tp_queues tp))"
  by (simp add: get_consumer_num_def signed_of_nat signed_take_bit_int_eq_self)

lemma try_enqueue_in_range:
  "0 \<le> i \<Longrightarrow> i < int (length (tp_queues tp)) \<Longrightarrow> \<exists>ok. snd (try_enqueue accepts i e tp) = Inr ok"
  by (auto simp: try_enqueue_def Let_def)

lemma sint_small: "m < 2 ^ 31 \<Longrightarrow> sint (of_nat m :: 32 word) = int m"
  by (simp add: signed_of_nat signed_take_bit_int_eq_self)

text \<open>
  As long as fewer than \<open>2 ^ 31\<close> tasks were inserted, the tasks go round the workers: insertion
  number \<open>k + 1\<close> goes to queue \<open>(k + 1) mod n\<close>, at its end, when that queue accepts it.
\<close>

theorem insert_goes_round:
  assumes "tp_seq tp = of_nat k" and "k + 1 < 2 ^ 31" and "\<not> tp_stop tp"
    and "tp_queues tp \<noteq> []" and "length (tp_queues tp) < 2 ^ 31"
  shows "tp_insert accepts elem tp =
    (let i = (k + 1) mod length (tp_queues tp); q = tp_queues tp ! i in
     if accepts q
     then (tp\<lparr>tp_seq := of_nat (k + 1), tp_queues := (tp_queues tp)[i := q @ [elem]]\<rparr>, Inr True)
     else (tp\<lparr>tp_seq := of_nat (k + 1)\<rparr>, Inr False))"
proof -
  let ?n = "length (tp_queues tp)"
  have n: "?n > 0" using assms(4) by simp
  have s: "sint (of_nat (k + 1) :: 32 word) = int (k + 1)"
    using assms(2) by (rule sint_small)
  have "int (k + 1) smod int ?n = int ((k + 1) mod ?n)"
    by (simp add: signed_modulo_int_def sgn_if zmod_int)
  moreover have "\<not> ?n \<le> (k + 1) mod ?n" using n by (simp add: not_le)
  moreover have "tp_seq tp + 1 = of_nat (k + 1)" using assms(1) by simp
  ultimately show ?thesis
    using assms(3-5) n s
    by (simp add: tp_insert_def bindS_apply next_index_def try_enqueue_def Let_def del: of_nat_add of_nat_Suc)
qed

text \<open>
  Insertion number \<open>2 ^ 31\<close> wraps the counter to a negative number, and indexes the vector of the
  workers out of its range exactly when their number does not divide \<open>2 ^ 31\<close>; with one worker every
  index is 0, whatever the counter.
\<close>

theorem counter_wrap:
  assumes "\<not> tp_stop tp" and "tp_queues tp \<noteq> []" and "length (tp_queues tp) < 2 ^ 31"
  shows "(tp_seq tp = of_nat (2 ^ 31 - 1) \<longrightarrow>
      (snd (tp_insert accepts elem tp) = Inl Undefined_behaviour \<longleftrightarrow> \<not> length (tp_queues tp) dvd 2 ^ 31)) \<and>
    (length (tp_queues tp) = 1 \<longrightarrow> snd (next_index tp) = Inr 0)"
proof (intro conjI impI)
  let ?n = "length (tp_queues tp)"
  assume s: "tp_seq tp = of_nat (2 ^ 31 - 1)"
  have "sint (tp_seq tp + 1) = - (2 ^ 31)" by (simp add: s)
  moreover have "- (2 ^ 31) smod int ?n = - (2 ^ 31 mod int ?n)"
    by (simp add: signed_modulo_int_def)
  ultimately have i: "snd (next_index tp) = Inr (- (2 ^ 31 mod int ?n))"
    using assms by (simp add: next_index_def Let_def)
  have nn: "0 < ?n" using assms(2) by simp
  have "2 ^ 31 mod int ?n = 0 \<longleftrightarrow> ?n dvd 2 ^ 31"
    by (metis dvd_eq_mod_eq_0 int_dvd_int_iff of_nat_numeral of_nat_power)
  moreover obtain r where r: "2 ^ 31 mod int ?n = r" "0 \<le> r" using nn by simp
  moreover obtain tp' where ni: "next_index tp = (tp', Inr (- r))" "tp_queues tp' = tp_queues tp"
    using i r(1) by (auto simp: next_index_def Let_def split: if_splits)
  moreover have "0 < int ?n" using nn by simp
  ultimately show "snd (tp_insert accepts elem tp) = Inl Undefined_behaviour \<longleftrightarrow> \<not> ?n dvd 2 ^ 31"
    using assms(1) by (auto simp: tp_insert_def bindS_apply try_enqueue_def Let_def)
next
  assume "length (tp_queues tp) = 1"
  then show "snd (next_index tp) = Inr 0"
    by (simp add: next_index_def Let_def signed_modulo_int_def)
qed

text \<open>
  The check of a worker's number is off by one: numbers below the number of workers select their
  queue, larger numbers than it are refused with an exception, but the number itself passes the check
  and indexes the vector out of its range.  A key always selects a queue.
\<close>

theorem number_check_off_by_one:
  assumes "\<not> tp_stop tp"
  shows "(unat num < length (tp_queues tp) \<longrightarrow>
      tp_insert_num accepts num elem tp = try_enqueue accepts (uint num) elem tp \<and>
      (\<exists>ok. snd (tp_insert_num accepts num elem tp) = Inr ok)) \<and>
    (length (tp_queues tp) < unat num \<longrightarrow> tp_insert_num accepts num elem tp = (tp, Inl invalid_consumer_error)) \<and>
    (unat num = length (tp_queues tp) \<longrightarrow> tp_insert_num accepts num elem tp = (tp, Inl Undefined_behaviour)) \<and>
    (tp_queues tp \<noteq> [] \<and> length (tp_queues tp) < 2 ^ 31 \<longrightarrow> (\<exists>ok. snd (tp_insert_key accepts hash elem tp) = Inr ok))"
proof (intro conjI impI)
  assume n: "tp_queues tp \<noteq> [] \<and> length (tp_queues tp) < 2 ^ 31"
  let ?n = "of_nat (length (tp_queues tp)) :: 64 word"
  have u: "unat ?n = length (tp_queues tp)"
    using n by (simp add: unat_of_nat)
  then have "?n \<noteq> 0" using n by (metis length_0_conv unat_0)
  then have "key_index hash tp = Inr (uint (hash mod ?n))"
    using n by (simp add: key_index_def Let_def)
  moreover have "unat (hash mod ?n) = unat hash mod length (tp_queues tp)"
    by (simp only: unat_mod_distrib u)
  then have "\<not> int (length (tp_queues tp)) \<le> uint (hash mod ?n)"
    using n by (simp only: uint_nat of_nat_le_iff) (simp add: not_le)
  ultimately show "\<exists>ok. snd (tp_insert_key accepts hash elem tp) = Inr ok"
    using assms by (simp add: tp_insert_key_def try_enqueue_def Let_def) blast
next
  assume "unat num < length (tp_queues tp)"
  with assms show "tp_insert_num accepts num elem tp = try_enqueue accepts (uint num) elem tp"
    by (simp add: tp_insert_num_def)
  moreover have "uint num < int (length (tp_queues tp))"
    using \<open>unat num < _\<close> by (simp only: uint_nat of_nat_less_iff)
  then have "\<exists>ok. snd (try_enqueue accepts (uint num) elem tp) = Inr ok"
    by (intro try_enqueue_in_range) simp_all
  ultimately show "\<exists>ok. snd (tp_insert_num accepts num elem tp) = Inr ok" by metis
next
  assume n: "unat num = length (tp_queues tp)"
  then have "int (length (tp_queues tp)) \<le> uint num" by (simp only: uint_nat)
  with assms n show "tp_insert_num accepts num elem tp = (tp, Inl Undefined_behaviour)"
    by (simp add: tp_insert_num_def try_enqueue_def)
qed (use assms in \<open>simp add: tp_insert_num_def\<close>)

section \<open>The workers\<close>

text \<open>
  The pool with, for every worker, the tasks it has run, and the workers whose loop has returned;
  \<open>pr_accepted\<close> records the tasks that were accepted for each queue.  A worker that finds its queue
  empty and the pool running waits and changes nothing.
\<close>

record 'e pool_run =
  pr_pool :: "'e thread_pool"
  pr_accepted :: "nat \<Rightarrow> 'e list"
  pr_log :: "nat \<Rightarrow> 'e list"
  pr_exited :: "nat set"

definition run_start :: "nat \<Rightarrow> 'e pool_run" where
  "run_start n = \<lparr>pr_pool = ThreadPool n, pr_accepted = (\<lambda>_. []), pr_log = (\<lambda>_. []), pr_exited = {}\<rparr>"

inductive worker_step :: "('e list \<Rightarrow> bool) \<Rightarrow> 'e pool_run \<Rightarrow> 'e pool_run \<Rightarrow> bool" for accepts where
  accept: "tp_insert accepts e (pr_pool r) = (tp', Inr True) \<Longrightarrow> snd (next_index (pr_pool r)) = Inr i \<Longrightarrow>
    worker_step accepts r
      (r\<lparr>pr_pool := tp', pr_accepted := (pr_accepted r)(nat i := pr_accepted r (nat i) @ [e])\<rparr>)"
| refuse: "tp_insert accepts e (pr_pool r) = (tp', Inr False) \<Longrightarrow> worker_step accepts r (r\<lparr>pr_pool := tp'\<rparr>)"
| stop: "\<not> tp_stop (pr_pool r) \<Longrightarrow> worker_step accepts r (r\<lparr>pr_pool := (pr_pool r)\<lparr>tp_stop := True\<rparr>\<rparr>)"
| run: "i < length (tp_queues (pr_pool r)) \<Longrightarrow> i \<notin> pr_exited r \<Longrightarrow> tp_queues (pr_pool r) ! i = e # q \<Longrightarrow>
    worker_step accepts r
      (r\<lparr>pr_pool := (pr_pool r)\<lparr>tp_queues := (tp_queues (pr_pool r))[i := q]\<rparr>,
         pr_log := (pr_log r)(i := pr_log r i @ [e])\<rparr>)"
| exit: "i < length (tp_queues (pr_pool r)) \<Longrightarrow> i \<notin> pr_exited r \<Longrightarrow> tp_stop (pr_pool r) \<Longrightarrow>
    tp_queues (pr_pool r) ! i = [] \<Longrightarrow> worker_step accepts r (r\<lparr>pr_exited := insert i (pr_exited r)\<rparr>)"

inductive_cases worker_stepE: "worker_step accepts r r'"

inductive run_reachable :: "('e list \<Rightarrow> bool) \<Rightarrow> nat \<Rightarrow> 'e pool_run \<Rightarrow> bool" for accepts n where
  start: "run_reachable accepts n (run_start n)"
| step: "run_reachable accepts n r \<Longrightarrow> worker_step accepts r r' \<Longrightarrow> run_reachable accepts n r'"

definition run_ok :: "nat \<Rightarrow> 'e pool_run \<Rightarrow> bool" where
  "run_ok n r \<longleftrightarrow>
     length (tp_queues (pr_pool r)) = n \<and> pr_exited r \<subseteq> {..<n} \<and>
     (\<forall>i < n. pr_accepted r i = pr_log r i @ tp_queues (pr_pool r) ! i) \<and>
     (\<forall>i \<in> pr_exited r. tp_stop (pr_pool r) \<and> tp_queues (pr_pool r) ! i = [])"

lemma tp_insert_cases:
  assumes "tp_insert accepts e tp = (tp', Inr ok)"
  obtains i where "\<not> tp_stop tp" and "snd (next_index tp) = Inr i" and "0 \<le> i" and "nat i < length (tp_queues tp)"
    and "tp_stop tp' = tp_stop tp"
    and "tp_queues tp' = (if ok then (tp_queues tp)[nat i := tp_queues tp ! nat i @ [e]] else tp_queues tp)"
proof -
  obtain tp1 x where ni: "next_index tp = (tp1, x)" by force
  then have q: "tp_queues tp1 = tp_queues tp" "tp_stop tp1 = tp_stop tp" by (auto simp: next_index_def Let_def)
  from assms have ns: "\<not> tp_stop tp" by (auto simp: tp_insert_def split: if_splits)
  with assms ni obtain i where x: "x = Inr i" and t: "try_enqueue accepts i e tp1 = (tp', Inr ok)"
    by (cases x) (auto simp: tp_insert_def bindS_apply)
  show ?thesis
    by (rule that [of i]) (use ns ni x t q in \<open>auto simp: try_enqueue_def Let_def split: if_splits\<close>)
qed

lemma worker_step_ok: "worker_step accepts r r' \<Longrightarrow> run_ok n r \<Longrightarrow> run_ok n r'"
proof (induction rule: worker_step.induct)
  case (accept e r tp' i)
  then show ?case
    by (elim tp_insert_cases) (auto simp: run_ok_def nth_list_update)
next
  case (refuse e r tp')
  then show ?case by (elim tp_insert_cases) (auto simp: run_ok_def)
next
  case (stop r)
  then show ?case by (auto simp: run_ok_def)
next
  case (run i r e q)
  then show ?case by (auto simp: run_ok_def nth_list_update)
next
  case (exit i r)
  then show ?case by (auto simp: run_ok_def)
qed

lemma run_reachable_ok: "run_reachable accepts n r \<Longrightarrow> run_ok n r"
proof (induction rule: run_reachable.induct)
  case start
  then show ?case by (simp add: run_ok_def run_start_def ThreadPool_def)
next
  case (step r r')
  then show ?case by (blast intro: worker_step_ok)
qed


text \<open>The work that is left once the pool is stopped.\<close>

definition work_left :: "'e pool_run \<Rightarrow> nat" where
  "work_left r =
     sum_list (map length (tp_queues (pr_pool r))) + (length (tp_queues (pr_pool r)) - card (pr_exited r))"

lemma sum_list_update_smaller:
  "i < length qs \<Longrightarrow> qs ! i = e # q \<Longrightarrow> sum_list (map length (qs[i := q])) + 1 = sum_list (map length qs)"
  by (induction qs arbitrary: i) (auto simp: nth_Cons split: nat.splits)

lemma stopped_step:
  assumes "worker_step accepts r r'" and ok: "run_ok n r" and st: "tp_stop (pr_pool r)"
  shows "tp_stop (pr_pool r') \<and> work_left r' < work_left r \<and> pr_accepted r' = pr_accepted r"
  using assms(1)
proof (cases rule: worker_step.cases)
  case (exit i)
  have sub: "insert i (pr_exited r) \<subseteq> {..<n}" using ok exit(2) by (auto simp: run_ok_def)
  then have "finite (pr_exited r)" by (meson finite_lessThan finite_subset insert_subset)
  moreover from sub have "card (insert i (pr_exited r)) \<le> card {..<n}" by (intro card_mono) simp_all
  moreover note exit(3)
  ultimately have c: "card (insert i (pr_exited r)) = Suc (card (pr_exited r))" "card (pr_exited r) < n" by simp_all
  have "length (tp_queues (pr_pool r)) = n" using ok by (simp add: run_ok_def)
  with c exit(1) st show ?thesis by (simp add: work_left_def)
next
  case (run i e q)
  from sum_list_update_smaller [OF run(2,4)] run(1) st show ?thesis by (simp add: work_left_def)
qed (use st in \<open>auto elim: tp_insert_cases\<close>)


section \<open>Concrete instances\<close>

text \<open>A pool of three workers whose queues take everything; one task is inserted and the pool stopped.\<close>

lemma three_workers [simp]:
  "tp_queues (ThreadPool 3) = [[], [], []]" "\<not> tp_stop (ThreadPool n)" "tp_seq (ThreadPool n) = 0"
  by (simp_all add: ThreadPool_def numeral_3_eq_3)

theorem insert_goes_round_witness:
  "snd (tp_insert (\<lambda>_. True) ''task'' (ThreadPool 3)) = Inr True \<and>
   tp_queues (fst (tp_insert (\<lambda>_. True) ''task'' (ThreadPool 3))) = [[], [''task''], []]"
  using insert_goes_round [of "ThreadPool 3" 0 "\<lambda>_. True" "''task''"] by simp

theorem counter_wrap_witness:
  "snd (tp_insert (\<lambda>_. True) ''task'' (ThreadPool 3\<lparr>tp_seq := of_nat (2 ^ 31 - 1)\<rparr>)) = Inl Undefined_behaviour"
  using counter_wrap [of "ThreadPool 3\<lparr>tp_seq := of_nat (2 ^ 31 - 1)\<rparr>" "\<lambda>_. True" "''task''"]
  by (simp add: dvd_eq_mod_eq_0)

theorem number_check_off_by_one_witness:
  "tp_insert_num (\<lambda>_. True) 3 ''task'' (ThreadPool 3) = (ThreadPool 3, Inl Undefined_behaviour)"
  using number_check_off_by_one [of "ThreadPool 3" 3 "\<lambda>_. True" "''task''" 0] by simp

definition sample_run :: "string pool_run" where
  "sample_run = \<lparr>pr_pool = \<lparr>tp_queues = [[], [''task''], []], tp_stop = True, tp_seq = 1\<rparr>,
     pr_accepted = (\<lambda>_. [])(1 := [''task'']), pr_log = (\<lambda>_. []), pr_exited = {}\<rparr>"

lemma sample_run_reachable: "run_reachable (\<lambda>_. True) 3 sample_run"
proof -
  let ?r0 = "run_start 3 :: string pool_run"
  let ?r1 = "?r0\<lparr>pr_pool := \<lparr>tp_queues = [[], [''task''], []], tp_stop = False, tp_seq = 1\<rparr>,
      pr_accepted := (pr_accepted ?r0)(nat 1 := pr_accepted ?r0 (nat 1) @ [''task''])\<rparr>"
  have "tp_insert (\<lambda>_. True) ''task'' (pr_pool ?r0) =
      (\<lparr>tp_queues = [[], [''task''], []], tp_stop = False, tp_seq = 1\<rparr>, Inr True)"
    "snd (next_index (pr_pool ?r0)) = Inr 1"
    by (simp_all add: run_start_def ThreadPool_def tp_insert_def bindS_apply next_index_def try_enqueue_def Let_def
        numeral_3_eq_3 signed_modulo_int_def)
  then have "worker_step (\<lambda>_. True) ?r0 ?r1" by (rule worker_step.accept)
  with run_reachable.start have "run_reachable (\<lambda>_. True) 3 ?r1" by (rule run_reachable.step)
  moreover have "worker_step (\<lambda>_. True) ?r1 (?r1\<lparr>pr_pool := (pr_pool ?r1)\<lparr>tp_stop := True\<rparr>\<rparr>)"
    by (rule worker_step.stop) simp
  ultimately have "run_reachable (\<lambda>_. True) 3 (?r1\<lparr>pr_pool := (pr_pool ?r1)\<lparr>tp_stop := True\<rparr>\<rparr>)"
    by (rule run_reachable.step)
  then show ?thesis by (simp add: sample_run_def run_start_def fun_upd_def)
qed



end
