(* ===== verification/Yan_EventOps.thy ===== *)
theory Yan_EventOps
  imports Yan_Events Yan_ThreadPool
begin

text \<open>
  What the facades of the back ends share: events (\<open>src/base/event.h\<close>), which carry a request to the worker
  of \<open>EventOps\<close> (\<open>src/base/event_ops.h\<close>) and its answer to a future, and the functions \<open>create_event\<close>
  and \<open>commit\<close>, which are the same text in each facade.  \<open>'s\<close> is the state the requests work on, \<open>'j\<close> the
  prepared requests.  The worker runs a request as one step; the user's code runs between the steps.
\<close>

section \<open>Answers\<close>

datatype reply = Re_int "64 word" | Re_result result

definition answered :: "('a \<Rightarrow> reply) \<Rightarrow> 's \<times> 'a outcome \<Rightarrow> 's \<times> reply outcome" where
  "answered f = map_prod (\<lambda>st. st) (map_outcome f)"

lemma answered_fst [simp]: "fst (answered f x) = fst x"
  by (cases x) (simp add: answered_def)

section \<open>A facade\<close>

datatype promise = Unset | Value_set reply | Exception_set error

text \<open>
  The futures handed out are numbered.  \<open>terminated\<close>: an error has left the worker's function, which
  ends the process.
\<close>

record ('s, 'j) front =
  ft_state :: 's
  ft_operators :: "(nat \<times> 'j) thread_pool"
  ft_next :: nat
  ft_promises :: "nat \<Rightarrow> promise"
  ft_terminated :: bool

definition front_start :: "'s \<Rightarrow> ('s, 'j) front" where
  "front_start st =
     \<lparr>ft_state = st, ft_operators = ThreadPool 1, ft_next = 0, ft_promises = (\<lambda>_. Unset), ft_terminated = False\<rparr>"

definition on_state :: "('s, 'a) sres \<Rightarrow> (('s, 'j) front, 'a) sres" where
  "on_state m = (\<lambda>s. case m (ft_state s) of (st, r) \<Rightarrow> (s\<lparr>ft_state := st\<rparr>, r))"

definition new_future :: "promise \<Rightarrow> (('s, 'j) front, nat) sres" where
  "new_future pr = (\<lambda>s.
     (s\<lparr>ft_next := ft_next s + 1, ft_promises := (ft_promises s)(ft_next s := pr)\<rparr>, Inr (ft_next s)))"

text \<open>\<open>make_yan_exception_future(std::runtime_error(e.what()))\<close> for a \<open>std::exception\<close>.\<close>

definition exception_future :: "error \<Rightarrow> (('s, 'j) front, nat) sres" where
  "exception_future e =
     (case exception_text e of
        None \<Rightarrow> throwS e
      | Some what \<Rightarrow> new_future (Exception_set (Runtime_error what)))"

text \<open>
  \<open>operators_->insert(event)\<close> and \<open>operators_->submit(...)\<close>: neither caller looks at the answer of
  \<open>try_enqueue\<close>.
\<close>

definition hand_over :: "((nat \<times> 'j) list \<Rightarrow> bool) \<Rightarrow> 'j \<Rightarrow> (('s, 'j) front, unit) sres" where
  "hand_over accepts job = (\<lambda>s.
     case submit accepts (ft_next s, job) (ft_operators s) of (tp, r) \<Rightarrow> (s\<lparr>ft_operators := tp\<rparr>, r))"

text \<open>
  \<open>create_event\<close>: \<open>mk\<close> makes the event, \<open>prehandle\<close> is what its preparation does inside the \<open>try\<close> block.
  A task is handed over outside of any.
\<close>

definition create_event ::
  "((nat \<times> 'j) list \<Rightarrow> bool) \<Rightarrow> ('s, ('s, 'j) sres) sres \<Rightarrow> (('s, 'j) front, nat) sres" where
  "create_event accepts mk = bindS (on_state mk) (\<lambda>prehandle s.
     case bindS (on_state prehandle) (hand_over accepts) s of
       (s', Inl e) \<Rightarrow> exception_future e s'
     | (s', Inr _) \<Rightarrow> new_future Unset s')"

definition commit_task ::
  "((nat \<times> 'j) list \<Rightarrow> bool) \<Rightarrow> ('s, ('s, 'j) sres) sres \<Rightarrow> (('s, 'j) front, nat) sres" where
  "commit_task accepts mk = bindS (on_state mk) (\<lambda>conds s.
     case on_state conds s of
       (s', Inl e) \<Rightarrow> exception_future e s'
     | (s', Inr job) \<Rightarrow> bindS (hand_over accepts job) (\<lambda>_. new_future Unset) s')"

section \<open>The worker\<close>

definition waiting :: "('s, 'j) front \<Rightarrow> (nat \<times> 'j) list" where
  "waiting s = concat (tp_queues (ft_operators s))"

fun fulfil :: "nat \<Rightarrow> reply outcome \<Rightarrow> ('s, 'j) front \<Rightarrow> ('s, 'j) front" where
  "fulfil f (Set_value r) s = s\<lparr>ft_promises := (ft_promises s)(f := Value_set r)\<rparr>"
| "fulfil f (Set_exception e) s = s\<lparr>ft_promises := (ft_promises s)(f := Exception_set e)\<rparr>"
| "fulfil f (Escaped e) s = s\<lparr>ft_terminated := True\<rparr>"

text \<open>One turn of the loop: take the task at the front of the queue, run it, set its promise.\<close>

definition worker_turn :: "('j \<Rightarrow> 's \<Rightarrow> 's \<times> reply outcome) \<Rightarrow> ('s, 'j) front \<Rightarrow> ('s, 'j) front" where
  "worker_turn run s =
     (case waiting s of
        [] \<Rightarrow> s
      | (f, job) # rest \<Rightarrow>
          (case run job (ft_state s) of
             (st, oc) \<Rightarrow>
               fulfil f oc (s\<lparr>ft_state := st, ft_operators := (ft_operators s)\<lparr>tp_queues := [rest]\<rparr>\<rparr>)))"

text \<open>
  The interleaving of a user, whose own code does what \<open>touch\<close> allows and who makes requests with \<open>send\<close>, and
  the worker.  The library's queue may refuse a task at any time.
\<close>

inductive front_step ::
  "('j \<Rightarrow> 's \<Rightarrow> 's \<times> reply outcome) \<Rightarrow> ('s \<Rightarrow> 's \<Rightarrow> bool) \<Rightarrow>
   (((nat \<times> 'j) list \<Rightarrow> bool) \<Rightarrow> 'r \<Rightarrow> (('s, 'j) front, nat) sres) \<Rightarrow> ('s, 'j) front \<Rightarrow> ('s, 'j) front \<Rightarrow> bool"
  for run touch send where
  user: "\<not> ft_terminated s \<Longrightarrow> touch (ft_state s) st \<Longrightarrow> front_step run touch send s (s\<lparr>ft_state := st\<rparr>)"
| request: "\<not> ft_terminated s \<Longrightarrow> front_step run touch send s (fst (send accepts req s))"
| worker: "\<not> ft_terminated s \<Longrightarrow> waiting s \<noteq> [] \<Longrightarrow> front_step run touch send s (worker_turn run s)"
| stop: "\<not> ft_terminated s \<Longrightarrow>
    front_step run touch send s (s\<lparr>ft_operators := (ft_operators s)\<lparr>tp_stop := True\<rparr>\<rparr>)"

section \<open>What a request changes\<close>

lemma submit_one_worker:
  assumes "tp_queues tp = [q]"
  shows "submit accepts e tp =
    (if tp_stop tp then (tp, Inl stopped_error)
     else (tp\<lparr>tp_seq := tp_seq tp + 1, tp_queues := [if accepts q then q @ [e] else q]\<rparr>, Inr ()))"
proof -
  have n: "next_index tp = (tp\<lparr>tp_seq := tp_seq tp + 1\<rparr>, Inr 0)"
    using assms by (simp add: next_index_def Let_def signed_modulo_int_def)
  have same: "tp\<lparr>tp_seq := x\<rparr> = tp\<lparr>tp_seq := x, tp_queues := [q]\<rparr>" for x
    using assms by (cases tp) simp
  show ?thesis
    using assms same by (simp add: submit_def tp_insert_def bindS_apply n try_enqueue_def Let_def)
qed

text \<open>A request leaves one queue, the stop flag and the process as they are, and queues at most one task.\<close>

definition one_queue :: "('s, 'j) front \<Rightarrow> bool" where
  "one_queue s \<longleftrightarrow> length (tp_queues (ft_operators s)) = 1"

definition quiet :: "('s, 'j) front \<Rightarrow> ('s, 'j) front \<Rightarrow> bool" where
  "quiet s s' \<longleftrightarrow> one_queue s' \<and> ft_terminated s' = ft_terminated s \<and>
     tp_stop (ft_operators s') = tp_stop (ft_operators s)"

inductive sent :: "('s, 'j) front \<Rightarrow> ('s, 'j) front \<Rightarrow> error + nat \<Rightarrow> bool" where
  thrown: "ft_next s' = ft_next s \<Longrightarrow> ft_promises s' = ft_promises s \<Longrightarrow> waiting s' = waiting s \<Longrightarrow> sent s s' (Inl e)"
| failed_at_once: "ft_next s' = ft_next s + 1 \<Longrightarrow>
    ft_promises s' = (ft_promises s)(ft_next s := Exception_set (Runtime_error what)) \<Longrightarrow> waiting s' = waiting s \<Longrightarrow>
    sent s s' (Inr (ft_next s))"
| refused: "ft_next s' = ft_next s + 1 \<Longrightarrow> ft_promises s' = (ft_promises s)(ft_next s := Unset) \<Longrightarrow>
    waiting s' = waiting s \<Longrightarrow> sent s s' (Inr (ft_next s))"
| queued: "ft_next s' = ft_next s + 1 \<Longrightarrow> ft_promises s' = (ft_promises s)(ft_next s := Unset) \<Longrightarrow>
    waiting s' = waiting s @ [(ft_next s, job)] \<Longrightarrow> sent s s' (Inr (ft_next s))"

lemma front_start_simps [simp]:
  "ft_state (front_start st) = st" "ft_next (front_start st) = 0" "ft_promises (front_start st) = (\<lambda>_. Unset)"
  "waiting (front_start st) = []" "\<not> ft_terminated (front_start st)" "\<not> tp_stop (ft_operators (front_start st))"
  "tp_queues (ft_operators (front_start st)) = [[]]" "one_queue (front_start st)"
  by (simp_all add: front_start_def waiting_def ThreadPool_def one_queue_def)

lemma on_state_fields [simp]:
  "ft_next (fst (on_state m s)) = ft_next s" "ft_promises (fst (on_state m s)) = ft_promises s"
  "ft_operators (fst (on_state m s)) = ft_operators s" "ft_terminated (fst (on_state m s)) = ft_terminated s"
  "waiting (fst (on_state m s)) = waiting s" "one_queue (fst (on_state m s)) = one_queue s"
  "ft_state (fst (on_state m s)) = fst (m (ft_state s))"
  by (auto simp: on_state_def waiting_def one_queue_def split: prod.splits)

lemma one_queueE: "one_queue s \<Longrightarrow> (\<And>q. tp_queues (ft_operators s) = [q] \<Longrightarrow> waiting s = q \<Longrightarrow> P) \<Longrightarrow> P"
  by (auto simp: one_queue_def waiting_def length_Suc_conv)

lemma hand_over_run:
  assumes "one_queue s" and "hand_over accepts job s = (s', r)"
  shows "quiet s s' \<and> ft_next s' = ft_next s \<and> ft_promises s' = ft_promises s \<and>
    (if tp_stop (ft_operators s) then r = Inl stopped_error \<and> waiting s' = waiting s
     else r = Inr () \<and> waiting s' = (if accepts (waiting s) then waiting s @ [(ft_next s, job)] else waiting s))"
proof -
  from assms(1) obtain q where q: "tp_queues (ft_operators s) = [q]" and w: "waiting s = q" by (rule one_queueE)
  show ?thesis
    using assms(2) q unfolding hand_over_def submit_one_worker [OF q]
    by (cases "tp_stop (ft_operators s)") (auto simp: w quiet_def one_queue_def waiting_def)
qed

lemma exception_future_run:
  assumes "exception_future e s = (s', r)" and "one_queue s"
  shows "quiet s s' \<and> sent s s' r"
proof (cases "exception_text e")
  case None
  with assms show ?thesis
    by (auto simp: exception_future_def quiet_def intro: sent.thrown)
next
  case (Some what)
  with assms have s': "s' = s\<lparr>ft_next := ft_next s + 1, ft_promises := (ft_promises s)(ft_next s := Exception_set (Runtime_error what))\<rparr>"
    and r: "r = Inr (ft_next s)"
    by (auto simp: exception_future_def new_future_def)
  show ?thesis
    unfolding r using assms(2) s'
    by (intro conjI sent.failed_at_once) (simp_all add: quiet_def one_queue_def waiting_def)
qed

lemma sent_after:
  assumes "sent s1 s' r" and "ft_next s1 = ft_next s" and "ft_promises s1 = ft_promises s" and "waiting s1 = waiting s"
  shows "sent s s' r"
  using assms(1)
proof cases
  case (thrown e)
  with assms(2-4) show ?thesis by (auto intro: sent.thrown)
next
  case (failed_at_once what)
  with assms(2-4) show ?thesis by (auto intro: sent.failed_at_once)
next
  case refused
  with assms(2-4) show ?thesis by (auto intro: sent.refused)
next
  case (queued job)
  with assms(2-4) show ?thesis by (auto intro: sent.queued)
qed

lemma quiet_trans: "quiet s s' \<Longrightarrow> quiet s' s'' \<Longrightarrow> quiet s s''"
  by (simp add: quiet_def)

lemma quiet_on_state [simp]: "one_queue s \<Longrightarrow> quiet s (fst (on_state m s))"
  by (simp add: quiet_def)

lemma new_future_run:
  assumes "one_queue s" and "ft_next s = ft_next s0" and "ft_promises s = ft_promises s0"
    and "waiting s = waiting s0 \<or> waiting s = waiting s0 @ [(ft_next s0, job)]" and "new_future Unset s = (s', r)"
  shows "quiet s s' \<and> sent s0 s' r"
proof -
  from assms(5) have s': "s' = s\<lparr>ft_next := ft_next s + 1, ft_promises := (ft_promises s)(ft_next s := Unset)\<rparr>"
    and r: "r = Inr (ft_next s0)" using assms(2) by (auto simp: new_future_def)
  have q: "quiet s s'" using assms(1) s' by (simp add: quiet_def one_queue_def)
  have f: "ft_next s' = ft_next s0 + 1" "ft_promises s' = (ft_promises s0)(ft_next s0 := Unset)" "waiting s' = waiting s"
    using s' assms(2,3) by (simp_all add: waiting_def)
  from assms(4) show ?thesis
    using q f sent.refused [OF f(1,2)] sent.queued [OF f(1,2)] unfolding r by metis
qed

lemma new_future_fields [simp]: "waiting (fst (new_future pr s)) = waiting s"
  by (simp add: new_future_def waiting_def)

lemma exception_future_fields [simp]: "waiting (fst (exception_future e s)) = waiting s"
  by (simp add: exception_future_def split: option.split)

lemma request_run:
  assumes "one_queue s" and "create_event accepts mk s = (s', r) \<or> commit_task accepts mk s = (s', r)"
  shows "quiet s s' \<and> sent s s' r \<and> (accepts (waiting s) \<or> waiting s' = waiting s)"
proof -
  obtain s1 m where m: "on_state mk s = (s1, m)" by force
  then have s1: "s1 = fst (on_state mk s)" by simp
  have f1: "quiet s s1" "one_queue s1" "ft_next s1 = ft_next s" "ft_promises s1 = ft_promises s" "waiting s1 = waiting s"
    using assms(1) by (simp_all add: s1)
  show ?thesis
  proof (cases m)
    case (Inl e)
    with m assms(2) have "s' = s1" "r = Inl e"
      by (auto simp: create_event_def commit_task_def bindS_apply)
    with f1 show ?thesis by (auto intro: sent.thrown)
  next
    case (Inr prehandle)
    obtain s2 j where j: "on_state prehandle s1 = (s2, j)" by force
    then have s2: "s2 = fst (on_state prehandle s1)" by simp
    have f2: "quiet s s2" "one_queue s2" "ft_next s2 = ft_next s" "ft_promises s2 = ft_promises s" "waiting s2 = waiting s"
      using f1 quiet_trans [OF f1(1) quiet_on_state [OF f1(2)]] by (simp_all add: s2)
    show ?thesis
    proof (cases j)
      case (Inl e)
      with m j \<open>m = Inr prehandle\<close> assms(2) have "exception_future e s2 = (s', r)"
        by (auto simp: create_event_def commit_task_def bindS_apply)
      from exception_future_run [OF this f2(2)] exception_future_fields [of e s2] this f2 show ?thesis
        using quiet_trans sent_after by (metis fst_conv)
    next
      case (Inr job)
      obtain s3 u where u: "hand_over accepts job s2 = (s3, u)" by force
      from hand_over_run [OF f2(2) u] have f3: "quiet s s3" "one_queue s3" "ft_next s3 = ft_next s"
        "ft_promises s3 = ft_promises s" "if tp_stop (ft_operators s2) then u = Inl stopped_error \<and> waiting s3 = waiting s
         else u = Inr () \<and> waiting s3 = (if accepts (waiting s) then waiting s @ [(ft_next s, job)] else waiting s)"
        using f2 quiet_trans by (auto simp: quiet_def)
      show ?thesis
      proof (cases u)
        case (Inr x)
        with m j u \<open>m = Inr prehandle\<close> \<open>j = Inr job\<close> assms(2) have "new_future Unset s3 = (s', r)"
          by (auto simp: create_event_def commit_task_def bindS_apply)
        from new_future_run [OF f3(2,3,4) _ this] f3(5) Inr quiet_trans [OF f3(1)] new_future_fields [of Unset s3] this
        show ?thesis by (auto split: if_splits)
      next
        case (Inl e)
        with f3(5) have w: "waiting s3 = waiting s" by (auto split: if_splits)
        from m j u Inl \<open>m = Inr prehandle\<close> \<open>j = Inr job\<close> assms(2) have
          "exception_future e s3 = (s', r) \<or> s' = s3 \<and> r = Inl e"
          by (auto simp: create_event_def commit_task_def bindS_apply)
        with exception_future_run [of e s3 s' r] exception_future_fields [of e s3] f3 w show ?thesis
          using quiet_trans sent_after sent.thrown by (metis fst_conv)
      qed
    qed
  qed
qed

section \<open>The invariant\<close>

text \<open>
  The waiting requests are those of ascending futures, handed out and not answered; every value arrived
  before them; no future is answered before it is handed out.
\<close>

definition front_ok :: "('s, 'j) front \<Rightarrow> bool" where
  "front_ok s \<longleftrightarrow>
     one_queue s \<and> sorted_wrt (<) (map fst (waiting s)) \<and>
     (\<forall>f \<in> fst ` set (waiting s). f < ft_next s \<and> ft_promises s f = Unset \<and>
        (\<forall>g r. ft_promises s g = Value_set r \<longrightarrow> g < f)) \<and>
     (\<forall>f \<ge> ft_next s. ft_promises s f = Unset)"

lemma front_ok_start [simp]: "front_ok (front_start st)"
  by (simp add: front_ok_def)

lemma front_ok_queue: "front_ok s \<Longrightarrow> one_queue s"
  by (simp add: front_ok_def)

lemma front_ok_answered:
  assumes "front_ok s" and "ft_promises s f \<noteq> Unset"
  shows "f < ft_next s" and "f \<notin> fst ` set (waiting s)"
  using assms unfolding front_ok_def by (metis linorder_not_le, blast)

lemma sent_ok: "sent s s' r \<Longrightarrow> quiet s s' \<Longrightarrow> front_ok s \<Longrightarrow> front_ok s'"
proof (induction rule: sent.induct)
  case (queued s' s job)
  have "g < ft_next s" if "ft_promises s g = Value_set r" for g r
    using queued(5) that by (metis linorder_not_le promise.distinct(1) front_ok_def)
  with queued show ?case
    by (auto simp: front_ok_def quiet_def sorted_wrt_append less_Suc_eq)
qed (auto simp: front_ok_def quiet_def less_Suc_eq)

lemma fulfil_fields [simp]:
  "ft_next (fulfil f oc s) = ft_next s" "ft_operators (fulfil f oc s) = ft_operators s" "ft_state (fulfil f oc s) = ft_state s"
  "waiting (fulfil f oc s) = waiting s" "one_queue (fulfil f oc s) = one_queue s"
  by (cases oc; simp add: waiting_def one_queue_def)+

lemma fulfil_other: "g \<noteq> f \<Longrightarrow> ft_promises (fulfil f oc s) g = ft_promises s g"
  by (cases oc) simp_all

lemma worker_turn_run:
  assumes "waiting s = (f, job) # rest" and "run job (ft_state s) = (st, oc)"
  shows "worker_turn run s =
    fulfil f oc (s\<lparr>ft_state := st, ft_operators := (ft_operators s)\<lparr>tp_queues := [rest]\<rparr>\<rparr>)"
  using assms by (simp add: worker_turn_def)

lemma worker_turn_ok:
  assumes ok: "front_ok s" and w: "waiting s = (f, job) # rest"
  shows "front_ok (worker_turn run s) \<and> waiting (worker_turn run s) = rest \<and> ft_next (worker_turn run s) = ft_next s \<and>
    (\<forall>g. g \<noteq> f \<longrightarrow> ft_promises (worker_turn run s) g = ft_promises s g) \<and>
    (ft_terminated (worker_turn run s) \<or> ft_promises (worker_turn run s) f \<noteq> Unset) \<and>
    ft_state (worker_turn run s) = fst (run job (ft_state s))"
proof -
  obtain st oc where r: "run job (ft_state s) = (st, oc)" by (metis prod.collapse)
  note t = worker_turn_run [where run = run, OF w r]
  have wt: "waiting (worker_turn run s) = rest" unfolding t by (simp add: waiting_def)
  have others: "ft_promises (worker_turn run s) g = ft_promises s g" if "g \<noteq> f" for g
    unfolding t using that by (simp add: fulfil_other)
  have sorted: "\<forall>g \<in> fst ` set rest. f < g" "sorted_wrt (<) (map fst rest)"
    using ok w by (auto simp: front_ok_def)
  have q: "g < ft_next s \<and> ft_promises s g = Unset \<and> (\<forall>h r. ft_promises s h = Value_set r \<longrightarrow> h < g)"
    if "g \<in> fst ` set rest" for g
    using ok w that by (auto simp: front_ok_def)
  have fn: "f < ft_next s" using ok w by (auto simp: front_ok_def)
  have "g < ft_next s \<and> ft_promises (worker_turn run s) g = Unset \<and>
      (\<forall>h r. ft_promises (worker_turn run s) h = Value_set r \<longrightarrow> h < g)" if g: "g \<in> fst ` set rest" for g
  proof -
    have "f < g" using sorted g by blast
    moreover have "h < g" if "ft_promises (worker_turn run s) h = Value_set r" for h r
      using that others [of h] q [OF g] \<open>f < g\<close> by (cases "h = f") auto
    ultimately show ?thesis using q [OF g] others [of g] by simp
  qed
  moreover have "\<forall>g \<ge> ft_next s. ft_promises (worker_turn run s) g = Unset"
    using ok fn others unfolding front_ok_def by (metis linorder_not_le)
  moreover have "ft_next (worker_turn run s) = ft_next s" "one_queue (worker_turn run s)" "ft_state (worker_turn run s) = st"
    unfolding t by (simp_all add: one_queue_def)
  moreover have "ft_terminated (worker_turn run s) \<or> ft_promises (worker_turn run s) f \<noteq> Unset"
    unfolding t by (cases oc) simp_all
  ultimately show ?thesis using wt others sorted(2) r by (simp add: front_ok_def)
qed

lemma worker_turns_drain:
  "front_ok s \<Longrightarrow> \<exists>k \<le> length (waiting s). (\<forall>j < k. \<not> ft_terminated ((worker_turn run ^^ j) s)) \<and>
     (ft_terminated ((worker_turn run ^^ k) s) \<or>
      waiting ((worker_turn run ^^ k) s) = [] \<and>
      (\<forall>f \<in> fst ` set (waiting s). ft_promises ((worker_turn run ^^ k) s) f \<noteq> Unset) \<and>
      (\<forall>f. f \<notin> fst ` set (waiting s) \<longrightarrow> ft_promises ((worker_turn run ^^ k) s) f = ft_promises s f))"
proof (induction "waiting s" arbitrary: s)
  case (Cons x rest)
  obtain f job where x: "x = (f, job)" by force
  let ?s = "worker_turn run s"
  have w: "waiting s = (f, job) # rest" using Cons.hyps(2) x by simp
  note t = worker_turn_ok [OF Cons.prems w, of run]
  show ?case
  proof (cases "ft_terminated s")
    case True
    then show ?thesis by (intro exI [of _ 0]) simp
  next
    case alive: False
    show ?thesis
    proof (cases "ft_terminated ?s")
      case True
      with alive show ?thesis by (intro exI [of _ "Suc 0"]) (simp add: w)
    next
      case False
      with t have ans: "ft_promises ?s f \<noteq> Unset" by simp
      from Cons.hyps(1) [of ?s] t obtain k where k: "k \<le> length rest" "\<forall>j < k. \<not> ft_terminated ((worker_turn run ^^ j) ?s)"
        "ft_terminated ((worker_turn run ^^ k) ?s) \<or>
         waiting ((worker_turn run ^^ k) ?s) = [] \<and>
         (\<forall>f \<in> fst ` set rest. ft_promises ((worker_turn run ^^ k) ?s) f \<noteq> Unset) \<and>
         (\<forall>f. f \<notin> fst ` set rest \<longrightarrow> ft_promises ((worker_turn run ^^ k) ?s) f = ft_promises ?s f)" by metis
      have nf: "f \<notin> fst ` set rest" using Cons.prems w by (auto simp: front_ok_def)
      have "\<not> ft_terminated ((worker_turn run ^^ j) s)" if "j < Suc k" for j
        using that alive k(2) by (cases j) (simp_all add: funpow_swap1)
      moreover have "(worker_turn run ^^ Suc k) s = (worker_turn run ^^ k) ?s" by (simp add: funpow_swap1)
      ultimately show ?thesis
        using k(1,3) nf ans t w by (intro exI [of _ "Suc k"]) auto
    qed
  qed
qed (auto intro: exI [of _ 0])

section \<open>The contract of a facade\<close>

text \<open>
  What the facades rely on: a request hands out the next future or throws, queues at most one task under
  that future, and does so only when the queue accepts it.
\<close>

locale front_end =
  fixes run :: "'j \<Rightarrow> 's \<Rightarrow> 's \<times> reply outcome"
    and touch :: "'s \<Rightarrow> 's \<Rightarrow> bool"
    and send :: "((nat \<times> 'j) list \<Rightarrow> bool) \<Rightarrow> 'r \<Rightarrow> (('s, 'j) front, nat) sres"
  assumes send_effect: "one_queue s \<Longrightarrow> send accepts req s = (s', r) \<Longrightarrow>
    quiet s s' \<and> sent s s' r \<and> (accepts (waiting s) \<or> waiting s' = waiting s)"
begin

lemma step_ok: "front_step run touch send s s' \<Longrightarrow> front_ok s \<Longrightarrow> front_ok s'"
proof (induction rule: front_step.induct)
  case (request s accepts req)
  obtain s' r where r: "send accepts req s = (s', r)" by (metis prod.collapse)
  from send_effect [OF front_ok_queue [OF request(2)] r] request(2) r show ?case by (auto intro: sent_ok)
next
  case (worker s)
  then obtain f job rest where "waiting s = (f, job) # rest" by (cases "waiting s") auto
  with worker(3) show ?case by (simp add: worker_turn_ok)
qed (simp_all add: front_ok_def waiting_def one_queue_def)

lemma steps_ok: "rtranclp (front_step run touch send) s s' \<Longrightarrow> front_ok s \<Longrightarrow> front_ok s'"
  by (induction rule: rtranclp_induct) (auto intro: step_ok)

text \<open>What a step does to a future that was handed out: nothing, unless the worker takes its request.\<close>

lemma step_promise:
  assumes "front_step run touch send s s'" and ok: "front_ok s" and f: "f < ft_next s"
  shows "f < ft_next s' \<and> (f \<notin> fst ` set (waiting s) \<longrightarrow>
    f \<notin> fst ` set (waiting s') \<and> ft_promises s' f = ft_promises s f)"
  using assms(1)
proof (cases rule: front_step.cases)
  case (request accepts req)
  obtain r where r: "send accepts req s = (s', r)" using request(1) by (metis prod.collapse)
  from send_effect [OF front_ok_queue [OF ok] r] have "sent s s' r" by simp
  then show ?thesis using f by cases auto
next
  case worker
  then obtain g job rest where w: "waiting s = (g, job) # rest" by (cases "waiting s") auto
  from worker_turn_ok [OF ok w, of run] w worker(1) f show ?thesis by auto
qed (use f in \<open>simp_all add: waiting_def\<close>)

lemma steps_promise:
  assumes "rtranclp (front_step run touch send) s s'" and "front_ok s" and "f < ft_next s" and "f \<notin> fst ` set (waiting s)"
  shows "f < ft_next s' \<and> f \<notin> fst ` set (waiting s') \<and> ft_promises s' f = ft_promises s f"
  using assms(1)
proof (induction rule: rtranclp_induct)
  case (step s1 s2)
  have "front_ok s1" using step(1) assms(2) by (rule steps_ok)
  from step_promise [OF step(2) this] step(3) show ?case by metis
qed (use assms in auto)

lemma answer_final:
  assumes "front_ok s" and "ft_promises s f \<noteq> Unset" and "rtranclp (front_step run touch send) s s'"
  shows "ft_promises s' f = ft_promises s f"
  using steps_promise [OF assms(3,1) front_ok_answered [OF assms(1,2)]] by simp

lemma refused_forever:
  assumes ok: "front_ok s" and "\<not> accepts (waiting s)" and "send accepts req s = (s', Inr f)"
    and "ft_promises s' f = Unset" and "rtranclp (front_step run touch send) s' s''"
  shows "f < ft_next s'' \<and> f \<notin> fst ` set (waiting s'') \<and> ft_promises s'' f = Unset"
proof -
  from send_effect [OF front_ok_queue [OF ok] assms(3)] assms(2)
  have s': "quiet s s'" "sent s s' (Inr f)" "waiting s' = waiting s" by auto
  have new: "f < ft_next s' \<and> f = ft_next s" using s'(2) by cases auto
  have "f \<notin> fst ` set (waiting s)" using ok new by (auto simp: front_ok_def)
  then show ?thesis
    using steps_promise [OF assms(5) sent_ok [OF s'(2,1) ok]] new assms(4) s'(3) by simp
qed

lemma steps_send: "rtranclp (front_step run touch send) s0 s \<Longrightarrow> \<not> ft_terminated s \<Longrightarrow> send accepts req s = (s', r) \<Longrightarrow>
    rtranclp (front_step run touch send) s0 s'"
  using front_step.request [of s run touch send accepts req] by (metis fst_conv rtranclp.rtrancl_into_rtrancl)

lemma steps_worker: "rtranclp (front_step run touch send) s0 s \<Longrightarrow> \<not> ft_terminated s \<Longrightarrow> waiting s \<noteq> [] \<Longrightarrow>
    rtranclp (front_step run touch send) s0 (worker_turn run s)"
  using front_step.worker [of s run touch send] by (metis rtranclp.rtrancl_into_rtrancl)

end

text \<open>A facade whose user, requests and worker all keep a relation between the states.\<close>

locale framed_front_end = front_end run touch send + frame_rel same
  for run :: "'j \<Rightarrow> 's \<Rightarrow> 's \<times> reply outcome" and touch :: "'s \<Rightarrow> 's \<Rightarrow> bool"
    and send :: "((nat \<times> 'j) list \<Rightarrow> bool) \<Rightarrow> 'r \<Rightarrow> (('s, 'j) front, nat) sres" and same :: "'s \<Rightarrow> 's \<Rightarrow> bool" +
  assumes touch_same: "touch st st' \<Longrightarrow> same st st'"
    and send_same: "same (ft_state s) (ft_state (fst (send accepts req s)))"
    and run_same: "same st (fst (run job st))"
begin

lemma turn_same: "same (ft_state s) (ft_state (worker_turn run s))"
proof (cases "waiting s")
  case (Cons x rest)
  obtain f job where x: "x = (f, job)" by force
  obtain st oc where r: "run job (ft_state s) = (st, oc)" by (metis prod.collapse)
  from worker_turn_run [where run = run, OF Cons [unfolded x] r] run_same [of "ft_state s" job] r show ?thesis by simp
qed (simp add: worker_turn_def refl)

lemma step_same: "front_step run touch send s s' \<Longrightarrow> same (ft_state s) (ft_state s')"
  by (induction rule: front_step.induct) (simp_all add: touch_same send_same turn_same refl)

lemma steps_same: "rtranclp (front_step run touch send) s s' \<Longrightarrow> same (ft_state s) (ft_state s')"
  by (induction rule: rtranclp_induct) (auto intro: refl trans step_same)

end

text \<open>Requests that are made of \<open>create_event\<close> and \<open>commit_task\<close> only change the state in their preparation.\<close>

lemma exception_future_state [simp]: "ft_state (fst (exception_future e s)) = ft_state s"
  by (simp add: exception_future_def new_future_def split: option.split)

lemma hand_over_state [simp]: "ft_state (fst (hand_over accepts job s)) = ft_state s"
  by (simp add: hand_over_def split: prod.split)

lemma new_future_state [simp]: "ft_state (fst (new_future pr s)) = ft_state s"
  by (simp add: new_future_def)

context frame_rel
begin

lemma request_keeps:
  assumes mk: "keeps R mk" and pre: "\<And>st st' pre. mk st = (st', Inr pre) \<Longrightarrow> keeps R pre"
    and s': "create_event accepts mk s = (s', r) \<or> commit_task accepts mk s = (s', r)"
  shows "R (ft_state s) (ft_state s')"
proof -
  obtain st m where m: "mk (ft_state s) = (st, m)" by force
  have r1: "R (ft_state s) st" using mk m by (metis fst_conv keepsD)
  show ?thesis
  proof (cases m)
    case (Inl e)
    with m s' r1 show ?thesis by (auto simp: create_event_def commit_task_def bindS_apply on_state_def)
  next
    case (Inr pre)
    obtain st2 j where j: "pre st = (st2, j)" by force
    have "R st st2" using assms(2) [OF m [unfolded Inr]] j by (metis fst_conv keepsD)
    with r1 have r2: "R (ft_state s) st2" by (rule trans)
    let ?s = "s\<lparr>ft_state := st2\<rparr>"
    have "\<exists>s''. ft_state s'' = st2 \<and> s' \<in> {s'', fst (exception_future e s''), fst (new_future Unset s'')}"
      if "j = Inl e" for e
      using m s' Inr j that by (auto simp: create_event_def commit_task_def bindS_apply on_state_def intro!: exI [of _ ?s])
    moreover have "\<exists>s'' e. ft_state s'' = st2 \<and> s' \<in> {s'', fst (exception_future e s''), fst (new_future Unset s'')}"
      if "j = Inr job" for job
    proof -
      obtain s3 u where u: "hand_over accepts job ?s = (s3, u)" by force
      then have "ft_state s3 = st2" using hand_over_state [of accepts job ?s] by simp
      then show ?thesis
        using m s' Inr j that u by (cases u) (auto simp: create_event_def commit_task_def bindS_apply on_state_def, (metis fst_conv)+)
    qed
    ultimately have "ft_state s' = st2" by (cases j) fastforce+
    with r2 show ?thesis by simp
  qed
qed

end

end
