(* ===== verification/Yan_Mongo.thy ===== *)
theory Yan_Mongo
  imports Yan_Events
begin

text \<open>
  The MongoDB back end: \<open>MakeWriteBson\<close>, \<open>MakeCondBson\<close> (\<open>src/mongo/mongo_readref.h\<close>),
  \<open>FetchMongoResult\<close> (\<open>mongo_writeref.h\<close>), \<open>MongoContext\<close> (\<open>mongo_context.h\<close>) and the events
  (\<open>mongo_event.h\<close>).  The driver is a parameter: BSON documents are values of a type \<open>'d\<close> with the
  operations of the record \<open>bson\<close>, a collection is accessed through the record \<open>mongo_api\<close>.
\<close>

section \<open>Documents\<close>

text \<open>What goes into a document, and what an element of one holds.\<close>

datatype 'd bson_item = I_val yan_val | I_doc 'd | I_array "'d bson_item list"

text \<open>
  The empty document, \<open>doc << name << item\<close>, \<open>view[name]\<close>, and the message of the exception that
  \<open>get_utf8()\<close> and its likes throw for an element of another type.
\<close>

record 'd bson =
  bs_empty :: 'd
  bs_put :: "'d \<Rightarrow> string \<Rightarrow> 'd bson_item \<Rightarrow> 'd"
  bs_view :: "'d \<Rightarrow> string \<Rightarrow> 'd bson_item option"
  bs_type_error :: string

section \<open>MakeWriteBson\<close>

text \<open>
  An open array or subdocument: the document it goes into, its name and its elements so far.  The
  destructor of \<open>ReadListMem\<close> closes the array.
\<close>

definition write_bson :: "'d bson \<Rightarrow> (error, 'd, 'd \<times> string \<times> 'd bson_item list, 'd \<times> string) read_ref" where
  "write_bson api =
     \<lparr>rr_throw = (\<lambda>e _. e),
      rr_mem = (\<lambda>doc name t condtype opstype cb. bindE cb (\<lambda>pv.
        case pv of
          PV v \<Rightarrow> Inr (0, bs_put api doc name (I_val v))
        | PL vs \<Rightarrow> Inl Undefined_behaviour)),
      rr_list = (\<lambda>doc name. Inr (doc, name, [])),
      rr_list_obj = (\<lambda>(doc, name, items) cb. bindE (cb (bs_empty api)) (\<lambda>(ret, d).
        if ret < 0 then Inr (ret, doc, name, items) else Inr (0, doc, name, items @ [I_doc d]))),
      rr_list_vals = (\<lambda>(doc, name, items) t vs. Inr (0, doc, name, items @ map I_val vs)),
      rr_list_end = (\<lambda>(doc, name, items). bs_put api doc name (I_array items)),
      rr_struct = (\<lambda>doc name. Inr (doc, name)),
      rr_struct_obj = (\<lambda>(doc, name) cb. bindE (cb (bs_empty api)) (\<lambda>(ret, d).
        if ret < 0 then Inr (ret, doc, name) else Inr (0, bs_put api doc name (I_doc d), name))),
      rr_struct_end = fst\<rparr>"

text \<open>\<open>make\<close>; the first argument bounds the nesting of the class.\<close>

definition make_write_bson :: "nat \<Rightarrow> 'd bson \<Rightarrow> (addr \<Rightarrow> nat) \<Rightarrow> world \<Rightarrow> class_decl \<Rightarrow> addr \<Rightarrow> 'd res" where
  "make_write_bson n api raw_size w c p =
     bindE (assign_value n (write_bson api) raw_size w c p (bs_empty api)) (\<lambda>(ret, doc).
       if ret < 0 then Inl (code_error ''mongo makes write bson obj failed:'' ret) else Inr doc)"

section \<open>MakeCondBson\<close>

text \<open>The overloads of \<open>append_value\<close>: a list operand or a single value.  The operator is not looked at.\<close>

definition cond_item :: "'d bson \<Rightarrow> param_value \<Rightarrow> 'd bson_item" where
  "cond_item api pv =
     (case pv of
        PV v \<Rightarrow> I_val v
      | PL vs \<Rightarrow> I_doc (bs_put api (bs_empty api) ''$eleMatch'' (I_array (map I_val vs))))"

definition cond_bson :: "'d bson \<Rightarrow> (error, 'd, 'd, 'd) read_ref" where
  "cond_bson api = text_ref (\<lambda>doc name t condtype opstype cb.
     bindE cb (\<lambda>pv. Inr (0, bs_put api doc name (cond_item api pv))))"

definition make_cond_bson :: "'d bson \<Rightarrow> world \<Rightarrow> addr \<Rightarrow> 'd res" where
  "make_cond_bson api w p =
     bindE (append_refobj_cond (cond_bson api) w (bs_empty api) p) (\<lambda>(ret, doc).
       if ret < 0 then Inl (code_error ''mongo makes condition bson failed:'' ret) else Inr doc)"

section \<open>FetchMongoResult\<close>

definition bson_type_error :: "'d bson \<Rightarrow> error" where
  "bson_type_error api = Runtime_error (bs_type_error api)"

definition no_get_error :: error where
  "no_get_error = Runtime_error ''mongo does not implement bind value func''"

definition no_list_get_error :: error where
  "no_list_get_error = Runtime_error ''mongo does not implement get value func''"

text \<open>The three specialisations: \<open>get_utf8\<close>, \<open>get_int32\<close>, \<open>get_double\<close>.\<close>

definition gettable :: "ctype \<Rightarrow> bool" where
  "gettable t \<longleftrightarrow> t \<in> {C_string, C_int32, C_double}"

definition item_value :: "'d bson \<Rightarrow> ctype \<Rightarrow> 'd bson_item \<Rightarrow> yan_val res" where
  "item_value api t i =
     (case i of
        I_val v \<Rightarrow> if ctype_of v = t then Inr v else Inl (bson_type_error api)
      | _ \<Rightarrow> Inl (bson_type_error api))"

definition item_document :: "'d bson \<Rightarrow> 'd bson_item \<Rightarrow> 'd res" where
  "item_document api i = (case i of I_doc d \<Rightarrow> Inr d | _ \<Rightarrow> Inl (bson_type_error api))"

definition mongo_get ::
  "'d bson \<Rightarrow> 'd \<Rightarrow> string \<Rightarrow> ctype \<Rightarrow> (yan_val \<Rightarrow> (world, int) sres) \<Rightarrow> (world, int \<times> 'd) sres" where
  "mongo_get api view name t cb =
     (if \<not> gettable t then throwS no_get_error
      else
        (case bs_view api view name of
           None \<Rightarrow> returnS (0, view)
         | Some i \<Rightarrow>
             (case item_value api t i of
                Inl e \<Rightarrow> throwS e
              | Inr v \<Rightarrow> bindS (cb v) (\<lambda>_. returnS (0, view)))))"

text \<open>A loop over members or elements that stops at a negative code.\<close>

fun loop_retS :: "('a \<Rightarrow> (world, int) sres) \<Rightarrow> int \<Rightarrow> 'a list \<Rightarrow> (world, int) sres" where
  "loop_retS f ret [] = returnS ret"
| "loop_retS f ret (x # xs) = bindS (f x) (\<lambda>ret. if ret < 0 then returnS ret else loop_retS f ret xs)"

text \<open>\<open>YanListMember::set\<close>: append to the list itself; neither the flag nor the set of numbers changes.\<close>

definition list_set :: "addr \<Rightarrow> string \<Rightarrow> yan_val \<Rightarrow> (world, unit) sres" where
  "list_set p mem v = update_list_member p mem (\<lambda>m. m\<lparr>lm_items := lm_items m @ [v]\<rparr>)"

text \<open>The class of the elements of a list of structs, as declared.\<close>

definition element_class :: "class_decl \<Rightarrow> string \<Rightarrow> class_decl option" where
  "element_class c mem =
     (case find (\<lambda>d. member_decl_name d = mem) (cd_members c) of
        Some (LIST_STRUCT_MEMBER _ son _) \<Rightarrow> Some son
      | _ \<Rightarrow> None)"

text \<open>
  \<open>setobjcb_\<close>: one local object, handed to the callback, then moved into the list.  (Moving copies the
  members' pointers, as copying does.)
\<close>

definition set_list_object :: "addr \<Rightarrow> string \<Rightarrow> (addr \<Rightarrow> (world, int) sres) \<Rightarrow> (world, int) sres" where
  "set_list_object p mem cb = with_obj p (\<lambda>ob.
     case element_class (ob_class ob) mem of
       None \<Rightarrow> throwS Undefined_behaviour
     | Some son \<Rightarrow>
         bindS (new_object son []) (\<lambda>q.
         bindS (cb q) (\<lambda>ret.
           if ret < 0 then returnS ret
           else
             bindS (copy_obj son q) (\<lambda>q'.
             bindS (update_lstruct_member p mem (\<lambda>m. m\<lparr>sm_items := sm_items m @ [q']\<rparr>)) (\<lambda>_. returnS 0)))))"

text \<open>The members of a class, written from one document into the object at \<open>q\<close>.\<close>

definition write_struct ::
  "('d \<Rightarrow> addr \<Rightarrow> member_info \<Rightarrow> (world, int \<times> 'd) sres) \<Rightarrow> string \<Rightarrow> addr \<Rightarrow> 'd \<Rightarrow> (world, int) sres" where
  "write_struct self n q d = (\<lambda>w.
     loop_retS (\<lambda>m. bindS (self d q m) (\<lambda>(ret, _). returnS ret)) 0 (struct_members w n) w)"

definition array_items :: "'d bson \<Rightarrow> 'd \<Rightarrow> string \<Rightarrow> 'd bson_item list" where
  "array_items api view name = (case bs_view api view name of Some (I_array items) \<Rightarrow> items | _ \<Rightarrow> [])"

text \<open>The two \<open>get\<close>s of \<open>WriteListMem\<close>: the callback for each document, or for each value of the type.\<close>

definition get_documents :: "'d bson \<Rightarrow> 'd bson_item list \<Rightarrow> ('d \<Rightarrow> (world, int) sres) \<Rightarrow> (world, int) sres" where
  "get_documents api items cb =
     loop_retS (\<lambda>i. case item_document api i of Inl e \<Rightarrow> throwS e | Inr d \<Rightarrow> cb d) 0 items"

definition get_values ::
  "'d bson \<Rightarrow> 'd bson_item list \<Rightarrow> ctype \<Rightarrow> (yan_val \<Rightarrow> (world, unit) sres) \<Rightarrow> (world, int) sres" where
  "get_values api items ty cb =
     (if \<not> gettable ty then throwS no_list_get_error
      else
        loop_retS (\<lambda>i. case item_value api ty i of
            Inl e \<Rightarrow> throwS e
          | Inr v \<Rightarrow> bindS (cb v) (\<lambda>_. returnS 0)) 0 items)"

definition mongo_list_ref ::
  "'d bson \<Rightarrow> ('d \<Rightarrow> addr \<Rightarrow> member_info \<Rightarrow> (world, int \<times> 'd) sres) \<Rightarrow>
   'd \<Rightarrow> addr \<Rightarrow> member_info \<Rightarrow> (world, int \<times> 'd) sres" where
  "mongo_list_ref api self view p info =
     (case mi_list_member info of
        None \<Rightarrow> throwS Assert_failure
      | Some li \<Rightarrow>
          (let items = array_items api view (mi_get_name info) in
           bindS
             (case li of
                LI_struct n \<Rightarrow>
                  set_list_object p (mi_name info) (\<lambda>q. get_documents api items (write_struct self n q))
              | LI_basic YT_LIST \<Rightarrow> throwS (Runtime_error ''Lists within lists are prohibited'')
              | LI_basic t \<Rightarrow>
                  (case YanType2Type t of
                     None \<Rightarrow> throwS Assert_failure
                   | Some ty \<Rightarrow> get_values api items ty (list_set p (mi_name info))))
             (\<lambda>ret. returnS (ret, view))))"

definition mongo_struct_ref ::
  "'d bson \<Rightarrow> ('d \<Rightarrow> addr \<Rightarrow> member_info \<Rightarrow> (world, int \<times> 'd) sres) \<Rightarrow>
   'd \<Rightarrow> addr \<Rightarrow> member_info \<Rightarrow> (world, int \<times> 'd) sres" where
  "mongo_struct_ref api self view p info =
     (case mi_struct_member info of
        None \<Rightarrow> throwS Assert_failure
      | Some n \<Rightarrow> (\<lambda>w.
          case struct_object w p (mi_name info) of
            Inl e \<Rightarrow> (w, Inl e)
          | Inr q \<Rightarrow>
              (case bs_view api view (mi_get_name info) of
                 None \<Rightarrow> (w, Inr (0, view))
               | Some i \<Rightarrow>
                   (case item_document api i of
                      Inl e \<Rightarrow> (w, Inl e)
                    | Inr d \<Rightarrow> bindS (write_struct self n q d) (\<lambda>ret. returnS (ret, view)) w))))"

text \<open>\<open>MongoWriteRefOps\<close>; the number bounds the nesting.\<close>

fun mongo_write_ref :: "nat \<Rightarrow> 'd bson \<Rightarrow> 'd write_ref" where
  "mongo_write_ref 0 api =
     \<lparr>wr_mem = mongo_get api, wr_list = (\<lambda>_ _ _. throwS Out_of_fuel), wr_struct = (\<lambda>_ _ _. throwS Out_of_fuel)\<rparr>"
| "mongo_write_ref (Suc n) api =
     \<lparr>wr_mem = mongo_get api,
      wr_list = mongo_list_ref api (write_handle_info (mongo_write_ref n api)),
      wr_struct = mongo_struct_ref api (write_handle_info (mongo_write_ref n api))\<rparr>"

definition mongo_fetch :: "nat \<Rightarrow> 'd bson \<Rightarrow> class_decl \<Rightarrow> addr \<Rightarrow> 'd \<Rightarrow> (world, int) sres" where
  "mongo_fetch n api c p view =
     bindS (set_value (mongo_write_ref n api) c p view) (\<lambda>(ret, _).
       if ret < 0 then throwS (code_error ''mongo fetch result failed: '' ret) else returnS ret)"

section \<open>MongoContext\<close>

text \<open>
  The driver: making the pool, taking a client from it, and the three operations on the collection of a
  database (both named).  A cursor yields documents and may throw when it has to fetch more.
\<close>

record ('d, 'db) mongo_api =
  mg_pool :: "string \<Rightarrow> ('db, unit) sres"
  mg_acquire :: "('db, unit) sres"
  mg_insert_many :: "string \<Rightarrow> string \<Rightarrow> 'd list \<Rightarrow> ('db, unit) sres"
  mg_find :: "string \<Rightarrow> string \<Rightarrow> 'd \<Rightarrow> ('db, 'd list \<times> error option) sres"
  mg_delete_many :: "string \<Rightarrow> string \<Rightarrow> 'd \<Rightarrow> ('db, 64 word option) sres"

record mongo_context =
  mc_pool :: bool
  mc_schema :: string

definition MongoContext :: mongo_context where
  "MongoContext = \<lparr>mc_pool = False, mc_schema = ''''\<rparr>"

text \<open>\<open>init\<close> and its code; nothing ever assigns \<open>schema_\<close>.\<close>

definition mongo_init :: "('d, 'db) mongo_api \<Rightarrow> string \<Rightarrow> mongo_context \<Rightarrow> ('db, int \<times> mongo_context) sres" where
  "mongo_init mg uri mc = (\<lambda>db.
     case mg_pool mg uri db of
       (db', Inr _) \<Rightarrow> (db', Inr (0, mc\<lparr>mc_pool := True\<rparr>))
     | (db', Inl e) \<Rightarrow> (db', if exception_text e = None then Inl e else Inr (-1, mc)))"

definition with_client :: "('d, 'db) mongo_api \<Rightarrow> mongo_context \<Rightarrow> ('db, 'a) sres \<Rightarrow> ('db, 'a) sres" where
  "with_client mg mc m = (if \<not> mc_pool mc then throwS Assert_failure else bindS (mg_acquire mg) (\<lambda>_. m))"

definition mongo_write :: "('d, 'db) mongo_api \<Rightarrow> mongo_context \<Rightarrow> string \<Rightarrow> 'd list \<Rightarrow> ('db, unit) sres" where
  "mongo_write mg mc table docs = with_client mg mc (mg_insert_many mg (mc_schema mc) table docs)"

definition mongo_del :: "('d, 'db) mongo_api \<Rightarrow> mongo_context \<Rightarrow> string \<Rightarrow> 'd \<Rightarrow> ('db, 64 word) sres" where
  "mongo_del mg mc table doc = with_client mg mc
     (bindS (mg_delete_many mg (mc_schema mc) table doc) (\<lambda>r.
        case r of None \<Rightarrow> throwS Undefined_behaviour | Some n \<Rightarrow> returnS n))"

text \<open>\<open>fetch_value\<close>: the first document into one object, or one new element per document.\<close>

definition raise_opt :: "error option \<Rightarrow> ('s, 'a) sres \<Rightarrow> ('s, 'a) sres" where
  "raise_opt err m = (case err of None \<Rightarrow> m | Some e \<Rightarrow> throwS e)"

fun fetch_each ::
  "nat \<Rightarrow> 'd bson \<Rightarrow> class_decl \<Rightarrow> addr list \<Rightarrow> 'd list \<Rightarrow> error option \<Rightarrow> (world, addr list) sres" where
  "fetch_each n api c ps [] err = raise_opt err (returnS ps)"
| "fetch_each n api c ps (view # views) err =
     bindS (new_object c []) (\<lambda>p.
     bindS (mongo_fetch n api c p view) (\<lambda>_.
     bindS (copy_obj c p) (\<lambda>p'. fetch_each n api c (ps @ [p']) views err)))"

definition fetch_docs ::
  "nat \<Rightarrow> 'd bson \<Rightarrow> result \<Rightarrow> 'd list \<times> error option \<Rightarrow> (world, result \<times> int) sres" where
  "fetch_docs n api ro cursor =
     (case ro of
        R_obj c p \<Rightarrow>
          (case fst cursor of
             [] \<Rightarrow> raise_opt (snd cursor) (returnS (ro, 0))
           | view # _ \<Rightarrow> bindS (mongo_fetch n api c p view) (\<lambda>_. returnS (ro, 1)))
      | R_objs c ps \<Rightarrow>
          bindS (fetch_each n api c ps (fst cursor) (snd cursor)) (\<lambda>ps'.
            returnS (R_objs c ps', int (length (fst cursor))))
      | _ \<Rightarrow> throwS Undefined_behaviour)"

type_synonym 'db mongo = "world \<times> 'db"

definition on_db :: "('db, 'a) sres \<Rightarrow> ('db mongo, 'a) sres" where
  "on_db m = (\<lambda>(w, db). case m db of (db', r) \<Rightarrow> ((w, db'), r))"

definition on_objects :: "(world, 'a) sres \<Rightarrow> ('db mongo, 'a) sres" where
  "on_objects m = (\<lambda>(w, db). case m w of (w', r) \<Rightarrow> ((w', db), r))"

definition mongo_read ::
  "nat \<Rightarrow> 'd bson \<Rightarrow> ('d, 'db) mongo_api \<Rightarrow> mongo_context \<Rightarrow> result \<Rightarrow> string \<Rightarrow> 'd \<Rightarrow> ('db mongo, result \<times> int) sres" where
  "mongo_read n api mg mc ro table doc =
     bindS (on_db (with_client mg mc (mg_find mg (mc_schema mc) table doc))) (\<lambda>cursor.
       on_objects (fetch_docs n api ro cursor))"

section \<open>The events\<close>

record 'd mongo_write_event =
  mw_entities :: "64 word"
  mw_coll :: string
  mw_docs :: "'d list"

definition MongoWriteEvent :: "'d mongo_write_event" where
  "MongoWriteEvent = \<lparr>mw_entities = 0, mw_coll = '''', mw_docs = []\<rparr>"

definition mongo_write_prehandle ::
  "nat \<Rightarrow> 'd bson \<Rightarrow> (addr \<Rightarrow> nat) \<Rightarrow> world \<Rightarrow> 'd mongo_write_event \<Rightarrow> write_arg \<Rightarrow> 'd mongo_write_event res" where
  "mongo_write_prehandle n api raw_size w ev arg =
     (case arg of
        W_obj c p \<Rightarrow>
          bindE (make_write_bson n api raw_size w c p) (\<lambda>doc.
            Inr (ev\<lparr>mw_docs := mw_docs ev @ [doc], mw_entities := mw_entities ev + 1, mw_coll := class_name w c\<rparr>))
      | W_objs c ps \<Rightarrow>
          bindE
            (foldE (\<lambda>docs p. bindE (make_write_bson n api raw_size w c p) (\<lambda>doc. Inr (docs @ [doc]))) (mw_docs ev) ps)
            (\<lambda>docs. Inr (ev\<lparr>mw_coll := class_name w c, mw_docs := docs, mw_entities := of_nat (length ps)\<rparr>)))"

definition settle :: "'s \<times> 'a res \<Rightarrow> 's \<times> 'a outcome" where
  "settle r = (case r of (s, Inr x) \<Rightarrow> (s, Set_value x) | (s, Inl e) \<Rightarrow> (s, failed e))"

definition mongo_write_handle ::
  "('d, 'db) mongo_api \<Rightarrow> mongo_context \<Rightarrow> 'd mongo_write_event \<Rightarrow> 'db mongo \<Rightarrow> 'db mongo \<times> 64 word outcome" where
  "mongo_write_handle mg mc ev st =
     settle (bindS (on_db (mongo_write mg mc (mw_coll ev) (mw_docs ev))) (\<lambda>_. returnS (mw_entities ev)) st)"

text \<open>\<open>ReadEvent\<close> and \<open>DeleteEvent\<close>: the condition document and the name of the collection.\<close>

definition mongo_cond_prehandle :: "'d bson \<Rightarrow> world \<Rightarrow> class_decl \<Rightarrow> addr \<Rightarrow> ('d \<times> string) res" where
  "mongo_cond_prehandle api w c p = bindE (make_cond_bson api w p) (\<lambda>doc. Inr (doc, class_name w c))"

definition mongo_read_handle ::
  "nat \<Rightarrow> 'd bson \<Rightarrow> ('d, 'db) mongo_api \<Rightarrow> mongo_context \<Rightarrow> ret_kind \<Rightarrow> 'd \<times> string \<Rightarrow> 'db mongo \<Rightarrow>
   'db mongo \<times> result outcome" where
  "mongo_read_handle n api mg mc k q st =
     (case on_objects (ret_object k) st of
        (st', Inl e) \<Rightarrow> (st', Escaped e)
      | (st', Inr ro) \<Rightarrow>
          settle (bindS (mongo_read n api mg mc ro (snd q) (fst q)) (\<lambda>(ro, _). returnS ro) st'))"

definition mongo_delete_handle ::
  "('d, 'db) mongo_api \<Rightarrow> mongo_context \<Rightarrow> 'd \<times> string \<Rightarrow> 'db mongo \<Rightarrow> 'db mongo \<times> 64 word outcome" where
  "mongo_delete_handle mg mc q st = settle (on_db (mongo_del mg mc (snd q) (fst q)) st)"

section \<open>What is written\<close>

text \<open>The reference: the assigned members under their column names, in ascending order.\<close>

definition row_document :: "'d bson \<Rightarrow> row_item list \<Rightarrow> 'd" where
  "row_document api row = fold (\<lambda>i d. bs_put api d (fst i) (I_val (snd i))) row (bs_empty api)"

lemma member_ref_flat:
  "member_ref ops w obj p info = member_ref (com_read_ref (rr_throw ops) (rr_mem ops)) w obj p info"
  unfolding member_ref_def com_read_ref_simps ..

lemma handle_info_flat:
  "mi_type info \<noteq> YT_STRUCT \<Longrightarrow> mi_type info \<noteq> YT_LIST \<Longrightarrow>
    handle_info (Suc n) ops raw_size w obj p info =
      handle_info 1 (com_read_ref (rr_throw ops) (rr_mem ops)) raw_size w obj p info"
  by (cases "mi_type info") (simp_all only: handle_info.simps One_nat_def yan_type.case member_ref_flat [of ops] simp_thms)

lemma assign_value_flat:
  assumes w: "w_objs w p = Some ob" and ok: "table_ok w p ob"
  shows "assign_value (Suc n) ops raw_size w (ob_class ob) p obj =
    bindE (loop_ignore (\<lambda>obj i. rr_mem ops obj (fst i) (T_val (ctype_of (snd i))) CT_AND OT_EQUAL (Inr (PV (snd i)))) obj
      (row_of w p)) (\<lambda>obj. Inr (0, obj))"
proof -
  let ?com = "com_read_ref (rr_throw ops) (rr_mem ops)" and ?ys = "get_yan_struct (w_reg w) (ob_class ob)"
  have step: "bindE (in_ops ops obj (ys_at ?ys seq)) (\<lambda>info. handle_info (Suc n) ops raw_size w obj p info) =
      bindE (in_ops ?com obj (ys_at ?ys seq)) (\<lambda>info. handle_info 1 ?com raw_size w obj p info)"
    if s: "seq \<in> set (ob_seqset ob)" for obj seq
  proof -
    obtain mem t args ty where y: "ys_at ?ys seq = Inr (decl_info (MEMBER mem t args))" and ty: "YanType2Type t = Some ty"
      by (rule assigned_member [OF w ok s]) blast
    have "mi_type (decl_info (MEMBER mem t args)) \<noteq> YT_STRUCT" "mi_type (decl_info (MEMBER mem t args)) \<noteq> YT_LIST"
      using ty by auto
    then show ?thesis unfolding y liftE_simps bindE_simps by (rule handle_info_flat)
  qed
  have "loop_ignore (\<lambda>obj seq. bindE (in_ops ops obj (ys_at ?ys seq)) (\<lambda>info. handle_info (Suc n) ops raw_size w obj p info))
      obj (ob_seqset ob) =
    loop_ignore (\<lambda>obj seq. bindE (in_ops ?com obj (ys_at ?ys seq)) (\<lambda>info. handle_info 1 ?com raw_size w obj p info))
      obj (ob_seqset ob)"
    by (rule loop_ignore_cong) (rule step)
  also have "\<dots> = loop_ignore (\<lambda>obj i. rr_mem ops obj (fst i) (T_val (ctype_of (snd i))) CT_AND OT_EQUAL (Inr (PV (snd i))))
      obj (row_of w p)"
    by (rule assigned_members_loop [OF w ok])
  finally have "loop_ignore (\<lambda>obj seq. bindE (in_ops ops obj (ys_at ?ys seq))
      (\<lambda>info. handle_info (Suc n) ops raw_size w obj p info)) obj (ob_seqset ob) = \<dots>" .
  then show ?thesis using w unfolding assign_value_def seqs_of_def by (simp only: option.case liftE_simps bindE_simps)
qed

lemma put_loop:
  "loop_ignore (\<lambda>d i. Inr (0 :: int, bs_put api d (fst i) (I_val (snd i)))) d row =
     (Inr (fold (\<lambda>i d. bs_put api d (fst i) (I_val (snd i))) row d) :: 'd res)"
  by (induction row arbitrary: d) simp_all

lemma make_write_bson_run:
  assumes "w_objs w p = Some ob" and "table_ok w p ob"
  shows "make_write_bson (Suc n) api raw_size w (ob_class ob) p = Inr (row_document api (row_of w p))"
  unfolding make_write_bson_def assign_value_flat [OF assms]
  by (simp add: write_bson_def put_loop row_document_def)

section \<open>Fetching what was written\<close>

text \<open>
  What is documented of the driver: an empty document has no elements, and the element found under a name
  is the first that was put there, with the type it was put with.
\<close>

definition bson_laws :: "'d bson \<Rightarrow> bool" where
  "bson_laws api \<longleftrightarrow>
     (\<forall>k. bs_view api (bs_empty api) k = None) \<and>
     (\<forall>d k v k'. gettable (ctype_of v) \<longrightarrow>
        bs_view api (bs_put api d k (I_val v)) k' =
          (case bs_view api d k' of Some i \<Rightarrow> Some i | None \<Rightarrow> if k' = k then Some (I_val v) else None))"

definition column_name :: "member_decl \<Rightarrow> string" where
  "column_name d = mi_get_name (decl_info d)"

definition mongo_fetchable :: "member_decl \<Rightarrow> bool" where
  "mongo_fetchable d \<longleftrightarrow> (\<exists>mem t args ty. d = MEMBER mem t args \<and> YanType2Type t = Some ty \<and> gettable ty)"

definition item_ok :: "'d bson \<Rightarrow> 'd \<Rightarrow> member_decl \<Rightarrow> bool" where
  "item_ok api view d \<longleftrightarrow>
     (\<forall>i. bs_view api view (column_name d) = Some i \<longrightarrow> (\<exists>v. i = I_val v \<and> ctype_of v = decl_ctype d))"

definition mongo_value :: "'d bson \<Rightarrow> 'd \<Rightarrow> member_decl \<Rightarrow> yan_val option" where
  "mongo_value api view d = (case bs_view api view (column_name d) of Some (I_val v) \<Rightarrow> Some v | _ \<Rightarrow> None)"

lemma mongo_member_run:
  assumes "mongo_fetchable d" and "item_ok api view d" and ops: "wr_mem ops = mongo_get api"
    and w: "w_objs w p = Some ob" and m: "ob_mems ob (member_decl_name d) = Some (MO_value m)"
  shows "write_handle_info ops view p (decl_info d) w =
    (put_obj p (put_mem (member_decl_name d) (MO_value (fetched (mongo_value api view d) m)) ob) w, Inr (0, view))"
proof -
  from assms(1) obtain mem t args ty where d: "d = MEMBER mem t args" "YanType2Type t = Some ty" "gettable ty"
    by (auto simp: mongo_fetchable_def)
  have t: "t \<noteq> YT_STRUCT" "t \<noteq> YT_LIST" using d(2) by auto
  have "write_handle_info ops view p (decl_info d) =
      mongo_get api view (column_name d) ty (\<lambda>val. bindS (member_set_value val p mem) (\<lambda>_. returnS 0))"
    using t d(1,2) by (cases t) (auto simp: write_handle_info_def write_member_ref_def ops column_name_def)
  moreover have "put_obj p (put_mem mem (MO_value m) ob) w = w"
    using w m d(1) by (simp add: put_obj_def put_mem_def fun_upd_idem)
  moreover have "member_set_value v p mem w =
      (put_obj p (put_mem mem (MO_value (m\<lparr>vm_value := Some v, vm_flag := True\<rparr>)) ob) w, Inr ())" for v
    using w m d(1) by (simp add: member_set_value_def with_obj_run modify_obj_run)
  ultimately show ?thesis
    using assms(2) d
    by (cases "bs_view api view (column_name d)")
      (auto simp: mongo_get_def mongo_value_def item_ok_def item_value_def fetched_def bindS_apply)
qed

fun mongo_fetched ::
  "'d bson \<Rightarrow> 'd \<Rightarrow> member_decl list \<Rightarrow> (string \<Rightarrow> member_obj option) \<Rightarrow> string \<Rightarrow> member_obj option" where
  "mongo_fetched api view [] mems = mems"
| "mongo_fetched api view (d # ds) mems =
     mongo_fetched api view ds
       (case mems (member_decl_name d) of
          Some (MO_value m) \<Rightarrow> mems(member_decl_name d \<mapsto> MO_value (fetched (mongo_value api view d) m))
        | _ \<Rightarrow> mems)"

definition value_members :: "member_decl list \<Rightarrow> yan_obj \<Rightarrow> bool" where
  "value_members ds ob \<longleftrightarrow> (\<forall>d \<in> set ds. \<exists>m. ob_mems ob (member_decl_name d) = Some (MO_value m))"

lemma put_mem_mems: "(put_mem k x ob)\<lparr>ob_mems := y\<rparr> = ob\<lparr>ob_mems := y\<rparr>"
  by (simp add: put_mem_def)

lemma mongo_members_run:
  assumes "list_all mongo_fetchable ds" and "list_all (item_ok api view) ds" and "wr_mem ops = mongo_get api"
    and "w_objs w p = Some ob" and "value_members ds ob"
  shows "write_members ops p view (map decl_info ds) w =
      (put_obj p (ob\<lparr>ob_mems := mongo_fetched api view ds (ob_mems ob)\<rparr>) w, Inr view) \<and>
    loop_retS (\<lambda>m. bindS (write_handle_info ops view p m) (\<lambda>(ret, _). returnS ret)) 0 (map decl_info ds) w =
      (put_obj p (ob\<lparr>ob_mems := mongo_fetched api view ds (ob_mems ob)\<rparr>) w, Inr 0)"
  using assms
proof (induction ds arbitrary: w ob)
  case Nil
  then have "put_obj p ob w = w" by (simp add: put_obj_def fun_upd_idem)
  then show ?case by simp
next
  case (Cons d ds)
  from Cons.prems(5) obtain m where m: "ob_mems ob (member_decl_name d) = Some (MO_value m)"
    by (auto simp: value_members_def)
  let ?ob = "put_mem (member_decl_name d) (MO_value (fetched (mongo_value api view d) m)) ob"
  have run: "write_handle_info ops view p (decl_info d) w = (put_obj p ?ob w, Inr (0, view))"
    by (rule mongo_member_run [OF _ _ Cons.prems(3,4) m]) (use Cons.prems(1,2) in simp_all)
  have l: "list_all mongo_fetchable ds" "list_all (item_ok api view) ds" "value_members ds ?ob" "w_objs (put_obj p ?ob w) p = Some ?ob"
    using Cons.prems(1,2,5) by (auto simp: value_members_def)
  note IH = Cons.IH [OF l(1,2) Cons.prems(3) l(4,3)]
  have f: "mongo_fetched api view (d # ds) (ob_mems ob) = mongo_fetched api view ds (ob_mems ?ob)"
    using m by (simp add: put_mem_def)
  have "write_members ops p view (map decl_info (d # ds)) w = write_members ops p view (map decl_info ds) (put_obj p ?ob w)"
    by (simp add: bindS_apply run)
  moreover have "loop_retS (\<lambda>m. bindS (write_handle_info ops view p m) (\<lambda>(ret, _). returnS ret)) 0 (map decl_info (d # ds)) w =
      loop_retS (\<lambda>m. bindS (write_handle_info ops view p m) (\<lambda>(ret, _). returnS ret)) 0 (map decl_info ds) (put_obj p ?ob w)"
    by (simp add: bindS_apply run)
  ultimately show ?case unfolding f using IH by (simp only: put_mem_mems put_obj_simps)
qed

lemma mongo_fetched_other:
  "mem \<notin> set (map member_decl_name ds) \<Longrightarrow> mongo_fetched api view ds mems mem = mems mem"
  by (induction ds arbitrary: mems) (auto split: option.splits member_obj.splits)

lemma mongo_fetched_at:
  "distinct (map member_decl_name ds) \<Longrightarrow> d \<in> set ds \<Longrightarrow> mems (member_decl_name d) = Some (MO_value m) \<Longrightarrow>
    mongo_fetched api view ds mems (member_decl_name d) = Some (MO_value (fetched (mongo_value api view d) m))"
proof (induction ds arbitrary: mems)
  case (Cons x ds)
  show ?case
  proof (cases "x = d")
    case True
    with Cons.prems have "member_decl_name d \<notin> set (map member_decl_name ds)" by simp
    with True Cons.prems(3) show ?thesis by (simp add: mongo_fetched_other)
  next
    case False
    with Cons.prems have d: "d \<in> set ds" by simp
    from Cons.prems(1) have "member_decl_name x \<notin> member_decl_name ` set ds" by simp
    with d have ne: "member_decl_name d \<noteq> member_decl_name x" by (metis image_eqI)
    have "distinct (map member_decl_name ds)" using Cons.prems(1) by simp
    with d ne Cons.prems(3) show ?thesis
      by (auto intro!: Cons.IH split: option.split member_obj.split)
  qed
qed simp

lemma mongo_fetch_run:
  assumes "class_ready (w_reg w) c" and "list_all mongo_fetchable (cd_members c)"
    and "list_all (item_ok api view) (cd_members c)" and "w_objs w p = Some ob" and "value_members (cd_members c) ob"
  shows "mongo_fetch n api c p view w =
    (put_obj p (ob\<lparr>ob_mems := mongo_fetched api view (cd_members c) (ob_mems ob)\<rparr>) w, Inr 0)"
proof -
  have "wr_mem (mongo_write_ref n api) = mongo_get api" by (cases n) simp_all
  from mongo_members_run [OF assms(2,3) this assms(4,5)] show ?thesis
    by (simp add: mongo_fetch_def set_value_def class_members_ready [OF assms(1)] bindS_apply)
qed

lemma fetched_members_in_mongo:
  assumes "class_ready (w_reg w) c" and "list_all mongo_fetchable (cd_members c)"
    and "list_all (item_ok api view) (cd_members c)" and "w_objs w p = Some ob" and "value_members (cd_members c) ob"
  shows "\<exists>ob'. mongo_fetch n api c p view w = (put_obj p ob' w, Inr 0) \<and>
    ob_seqset ob' = ob_seqset ob \<and> ob_conds ob' = ob_conds ob \<and>
    (\<forall>d \<in> set (cd_members c). \<forall>m. ob_mems ob (member_decl_name d) = Some (MO_value m) \<longrightarrow>
       ob_mems ob' (member_decl_name d) = Some (MO_value (fetched (mongo_value api view d) m)))"
proof -
  have "distinct (map member_decl_name (cd_members c))" using assms(1) by (simp add: class_ready_def)
  from mongo_fetched_at [OF this, of _ "ob_mems ob" _ api view] show ?thesis
    by (subst mongo_fetch_run [OF assms]) auto
qed

lemma map_of_items:
  "(\<And>x. x \<in> set xs \<Longrightarrow> fst (f x) = k \<longleftrightarrow> x = s) \<Longrightarrow>
    map_of (map f xs) k = (if s \<in> set xs then Some (snd (f s)) else None)"
  by (induction xs) auto

lemma row_document_view:
  assumes "bson_laws api" and "\<And>i. i \<in> set row \<Longrightarrow> gettable (ctype_of (snd i))"
  shows "bs_view api (row_document api row) k = map_option I_val (map_of row k)"
proof -
  have "bs_view api (fold (\<lambda>i d. bs_put api d (fst i) (I_val (snd i))) row d) k =
      (case bs_view api d k of Some i \<Rightarrow> Some i | None \<Rightarrow> map_option I_val (map_of row k))" for d
    using assms(2)
  proof (induction row arbitrary: d)
    case (Cons i row)
    obtain a b where i: "i = (a, b)" by (cases i)
    have put: "bs_view api (bs_put api d a (I_val b)) k =
        (case bs_view api d k of Some x \<Rightarrow> Some x | None \<Rightarrow> if k = a then Some (I_val b) else None)"
      using assms(1) Cons.prems [of i] by (simp add: bson_laws_def i)
    have rest: "\<And>x. x \<in> set row \<Longrightarrow> gettable (ctype_of (snd x))" using Cons.prems by simp
    show ?case
      using Cons.IH [OF rest, of "bs_put api d a (I_val b)"]
      by (cases "bs_view api d k") (simp_all add: i put)
  qed (simp split: option.split)
  with assms(1) show ?thesis by (simp add: row_document_def bson_laws_def)
qed

text \<open>What the row of a consistent object holds under the column name of its \<open>i\<close>-th member.\<close>

lemma row_at_column:
  assumes w: "w_objs w p = Some ob" and ok: "table_ok w p ob" and i: "i < length (cd_members (ob_class ob))"
    and dist: "distinct (map column_name (cd_members (ob_class ob)))"
  shows "map_of (row_of w p) (column_name (cd_members (ob_class ob) ! i)) =
    (if of_nat i \<in> set (ob_seqset ob) then Some (snd (row_item w p ob (of_nat i))) else None)"
proof -
  let ?ms = "cd_members (ob_class ob)"
  have cm: "class_members w (ob_class ob) = map decl_info ?ms"
    using ok class_members_ready by (auto simp: table_ok_def)
  have len: "length ?ms \<le> 65536" using ok by (rule table_ok_length)
  have "fst (row_item w p ob s) = column_name (?ms ! i) \<longleftrightarrow> s = of_nat i" if "s \<in> set (ob_seqset ob)" for s
  proof -
    have s: "unat s < length ?ms" using ok that by (simp add: table_ok_def)
    have "fst (row_item w p ob s) = map column_name ?ms ! unat s"
      using s by (simp add: row_item_def Let_def cm column_name_def)
    then have "fst (row_item w p ob s) = column_name (?ms ! i) \<longleftrightarrow> unat s = i"
      using nth_eq_iff_index_eq [OF dist, of "unat s" i] s i by simp
    also have "\<dots> \<longleftrightarrow> s = of_nat i" using i len by (auto simp: unat_of_nat16)
    finally show ?thesis .
  qed
  then show ?thesis using w by (simp add: row_of_def map_of_items)
qed

lemma written_column:
  assumes laws: "bson_laws api" and w: "w_objs w p = Some ob" and ok: "table_ok w p ob"
    and f: "list_all mongo_fetchable (cd_members (ob_class ob))"
    and dist: "distinct (map column_name (cd_members (ob_class ob)))"
    and i: "i < length (cd_members (ob_class ob))"
  shows "bs_view api (row_document api (row_of w p)) (column_name (cd_members (ob_class ob) ! i)) =
      (if of_nat i \<in> set (ob_seqset ob) then Some (I_val (snd (row_item w p ob (of_nat i)))) else None) \<and>
    (of_nat i \<in> set (ob_seqset ob) \<longrightarrow>
      ctype_of (snd (row_item w p ob (of_nat i))) = decl_ctype (cd_members (ob_class ob) ! i) \<and>
      get_value w p (member_decl_name (cd_members (ob_class ob) ! i)) = Inr (snd (row_item w p ob (of_nat i))))"
proof -
  let ?ms = "cd_members (ob_class ob)"
  have cm: "class_members w (ob_class ob) = map decl_info ?ms"
    using ok class_members_ready by (auto simp: table_ok_def)
  have typed: "ctype_of (snd (row_item w p ob s)) = decl_ctype (?ms ! unat s) \<and>
      get_value w p (member_decl_name (?ms ! unat s)) = Inr (snd (row_item w p ob s)) \<and>
      gettable (ctype_of (snd (row_item w p ob s)))" if s: "s \<in> set (ob_seqset ob)" for s
  proof -
    obtain mem t args v where m: "?ms ! unat s = MEMBER mem t args" "unat s < length ?ms"
      "get_value w p mem = Inr v" "YanType2Type t = Some (ctype_of v)"
      by (rule assigned_member [OF w ok s])
    have "mongo_fetchable (MEMBER mem t args)" using f m(1,2) by (metis list_all_length)
    then have "gettable (ctype_of v)" using m(4) by (auto simp: mongo_fetchable_def)
    with m show ?thesis by (simp add: row_item_def Let_def cm)
  qed
  have "gettable (ctype_of (snd x))" if "x \<in> set (row_of w p)" for x
    using that typed w by (auto simp: row_of_def)
  from row_document_view [OF laws this] row_at_column [OF w ok i dist] typed [of "of_nat i"] i table_ok_length [OF ok]
  show ?thesis by (auto simp: unat_of_nat16)
qed

lemma table_value_members: "table_ok w p ob \<Longrightarrow> value_members (cd_members (ob_class ob)) ob"
  unfolding value_members_def table_ok_def by (metis in_set_conv_nth member_decl_name.simps(1))

lemma mongo_roundtrip_run:
  assumes laws: "bson_laws api" and w: "w_objs w p = Some ob" and ok: "table_ok w p ob"
    and f: "list_all mongo_fetchable (cd_members (ob_class ob))"
    and dist: "distinct (map column_name (cd_members (ob_class ob)))"
    and q: "w_objs w q = Some qb" "table_ok w q qb" "ob_class qb = ob_class ob"
  shows "\<exists>doc qb'. make_write_bson (Suc n) api raw_size w (ob_class ob) p = Inr doc \<and>
    mongo_fetch k api (ob_class ob) q doc w = (put_obj q qb' w, Inr 0) \<and> ob_seqset qb' = ob_seqset qb \<and>
    (\<forall>i < length (cd_members (ob_class ob)).
       let mem = member_decl_name (cd_members (ob_class ob) ! i) in
       if of_nat i \<in> set (ob_seqset ob)
       then get_flag (put_obj q qb' w) q mem = Inr True \<and> get_value (put_obj q qb' w) q mem = get_value w p mem
       else ob_mems qb' mem = ob_mems qb mem)"
proof -
  let ?ms = "cd_members (ob_class ob)" and ?doc = "row_document api (row_of w p)"
  note col = written_column [OF laws w ok f dist]
  have cr: "class_ready (w_reg w) (ob_class ob)" using ok by (simp add: table_ok_def)
  have vm: "value_members ?ms qb" using table_value_members [OF q(2)] q(3) by simp
  have "list_all (item_ok api ?doc) ?ms"
    unfolding list_all_length item_ok_def using col by (auto split: if_splits)
  from fetched_members_in_mongo [OF cr f this q(1) vm, of k] obtain qb' where
    run: "mongo_fetch k api (ob_class ob) q ?doc w = (put_obj q qb' w, Inr 0)" and seqs: "ob_seqset qb' = ob_seqset qb" and
    mems: "\<And>d m. d \<in> set ?ms \<Longrightarrow> ob_mems qb (member_decl_name d) = Some (MO_value m) \<Longrightarrow>
       ob_mems qb' (member_decl_name d) = Some (MO_value (fetched (mongo_value api ?doc d) m))" by blast
  have "let mem = member_decl_name (?ms ! i) in
       if of_nat i \<in> set (ob_seqset ob)
       then get_flag (put_obj q qb' w) q mem = Inr True \<and> get_value (put_obj q qb' w) q mem = get_value w p mem
       else ob_mems qb' mem = ob_mems qb mem" if i: "i < length ?ms" for i
  proof -
    from vm nth_mem [OF i] obtain m where m: "ob_mems qb (member_decl_name (?ms ! i)) = Some (MO_value m)"
      unfolding value_members_def by blast
    from mems [OF nth_mem [OF i] this] m col [OF i] show ?thesis
      by (auto simp: Let_def mongo_value_def fetched_def get_flag_def [of "put_obj q qb' w"]
          get_value_def [of "put_obj q qb' w"])
  qed
  with run seqs make_write_bson_run [OF w ok] show ?thesis by blast
qed

text \<open>
  C29: what is written comes back.  The document made of a table object whose members MongoDB can deliver
  (strings, 32-bit integers, doubles), with distinct column names, gives an object of the same class
  the values of exactly the assigned members and flags them; the other members and the set of assigned
  members of the target stay as they were.
\<close>

theorem mongo_roundtrip:
  assumes "bson_laws api" and "w_objs w p = Some ob" and "table_ok w p ob"
    and "list_all mongo_fetchable (cd_members (ob_class ob))"
    and "distinct (map column_name (cd_members (ob_class ob)))"
    and "w_objs w q = Some qb" and "table_ok w q qb" and "ob_class qb = ob_class ob"
  shows "\<exists>doc qb'. make_write_bson (Suc n) api raw_size w (ob_class ob) p = Inr doc \<and>
    mongo_fetch k api (ob_class ob) q doc w = (put_obj q qb' w, Inr 0) \<and> ob_seqset qb' = ob_seqset qb \<and>
    (\<forall>i < length (cd_members (ob_class ob)).
       let mem = member_decl_name (cd_members (ob_class ob) ! i) in
       if of_nat i \<in> set (ob_seqset ob)
       then get_flag (put_obj q qb' w) q mem = Inr True \<and> get_value (put_obj q qb' w) q mem = get_value w p mem
       else ob_mems qb' mem = ob_mems qb mem)"
  using assms by (rule mongo_roundtrip_run)

section \<open>Conditions\<close>

lemma cond_document:
  "(\<And>prm. prm \<in> set ps \<Longrightarrow> param_of_class c prm) \<Longrightarrow> length (cd_members c) \<le> 65536 \<Longrightarrow>
    loop_ret (\<lambda>obj prm. cond_ref (cond_bson api) obj (param_name prm) prm) 0 d
        (filter (\<lambda>prm. param_type prm \<noteq> YT_STRUCT \<and> param_type prm \<noteq> YT_LIST) ps) =
      Inr (0, fold (\<lambda>prm d. bs_put api d (param_name prm) (cond_item api (param_val prm))) ps d)"
proof (induction ps arbitrary: d)
  case (Cons prm ps)
  from Cons.prems have prm: "param_of_class c prm" and rest: "\<And>prm. prm \<in> set ps \<Longrightarrow> param_of_class c prm" by auto
  note facts = param_of_class_facts [OF prm Cons.prems(2)]
  from facts(2) obtain t where t: "YanType2Type (param_type prm) = Some t" "param_get prm = Inr (param_val prm)"
    by (auto simp: param_get_def)
  have "cond_ref (cond_bson api) d (param_name prm) prm =
      Inr (0, bs_put api d (param_name prm) (cond_item api (param_val prm)))"
    by (simp add: cond_ref_def cond_bson_def com_read_ref_simps t Let_def)
  then show ?case using facts(3,4) Cons.IH [OF rest Cons.prems(2)] by simp
qed simp


section \<open>Lists of structs\<close>

lemma struct_members_ready:
  "class_ready (w_reg w) c \<Longrightarrow> w_reg w (cd_name c) \<noteq> None \<Longrightarrow> struct_members w (cd_name c) = map decl_info (cd_members c)"
  by (auto simp: class_ready_def struct_members_def get_yan_struct_def get_class_state_def)

lemma value_members_mongo_fetched:
  "value_members ds ob \<Longrightarrow> value_members ds (ob\<lparr>ob_mems := mongo_fetched api view es (ob_mems ob)\<rparr>)"
proof (induction es arbitrary: ob)
  case (Cons e es)
  let ?mems = "case ob_mems ob (member_decl_name e) of
      Some (MO_value m) \<Rightarrow> (ob_mems ob)(member_decl_name e \<mapsto> MO_value (fetched (mongo_value api view e) m))
    | _ \<Rightarrow> ob_mems ob"
  have "value_members ds (ob\<lparr>ob_mems := ?mems\<rparr>)"
    using Cons.prems by (auto simp: value_members_def split: option.split member_obj.split)
  from Cons.IH [OF this] show ?case by simp
qed simp

definition documents_fetched ::
  "'d bson \<Rightarrow> member_decl list \<Rightarrow> 'd list \<Rightarrow> (string \<Rightarrow> member_obj option) \<Rightarrow> string \<Rightarrow> member_obj option" where
  "documents_fetched api ds views = fold (\<lambda>view. mongo_fetched api view ds) views"

lemma write_structs_run:
  assumes "class_ready (w_reg w) c" and "w_reg w (cd_name c) \<noteq> None" and f: "list_all mongo_fetchable (cd_members c)"
    and "list_all (\<lambda>view. list_all (item_ok api view) (cd_members c)) views" and ops: "wr_mem ops = mongo_get api"
    and "w_objs w q = Some ob" and "value_members (cd_members c) ob"
  shows "get_documents api (map I_doc views) (write_struct (write_handle_info ops) (cd_name c) q) w =
    (put_obj q (ob\<lparr>ob_mems := documents_fetched api (cd_members c) views (ob_mems ob)\<rparr>) w, Inr 0)"
  using assms(1,2,4,6,7)
proof (induction views arbitrary: w ob)
  case Nil
  then have "put_obj q ob w = w" by (simp add: put_obj_def fun_upd_idem)
  then show ?case by (simp add: documents_fetched_def get_documents_def)
next
  case (Cons view views)
  let ?ob = "ob\<lparr>ob_mems := mongo_fetched api view (cd_members c) (ob_mems ob)\<rparr>"
  have "list_all (item_ok api view) (cd_members c)" using Cons.prems(3) by simp
  from mongo_members_run [OF f this ops Cons.prems(4,5)]
  have one: "write_struct (write_handle_info ops) (cd_name c) q view w = (put_obj q ?ob w, Inr 0)"
    by (simp add: write_struct_def struct_members_ready [OF Cons.prems(1,2)])
  have "get_documents api (map I_doc views) (write_struct (write_handle_info ops) (cd_name c) q) (put_obj q ?ob w) =
    (put_obj q (?ob\<lparr>ob_mems := documents_fetched api (cd_members c) views (ob_mems ?ob)\<rparr>) (put_obj q ?ob w), Inr 0)"
    by (rule Cons.IH) (use Cons.prems value_members_mongo_fetched in simp_all)
  with one show ?case by (simp add: bindS_apply item_document_def documents_fetched_def get_documents_def)
qed

lemma copy_values_object:
  assumes "w_objs w p = Some ob" and "list_all mongo_fetchable (cd_members c)" and "value_members (cd_members c) ob"
  shows "copy_obj c p w =
    (put_obj (w_next w) (ob\<lparr>ob_mems := \<lambda>k. if k \<in> set (map member_decl_name (cd_members c)) then ob_mems ob k else None\<rparr>)
       (w\<lparr>w_next := w_next w + 1\<rparr>), Inr (w_next w))"
proof -
  obtain n a ms where c: "c = CLASS n a ms" by (cases c)
  have "\<forall>d \<in> set ms. \<exists>mem t args mo. d = MEMBER mem t args \<and> ob_mems ob mem = Some mo"
    using assms(2,3) by (fastforce simp: c value_members_def list_all_iff mongo_fetchable_def)
  note V = copy_members_values [OF this]
  show ?thesis by (simp add: c with_obj_run [OF assms(1)] bindS_apply alloc_addr_def V)
qed

fun last_value :: "yan_val option list \<Rightarrow> yan_val option" where
  "last_value [] = None"
| "last_value (v # vs) = (case last_value vs of None \<Rightarrow> v | Some u \<Rightarrow> Some u)"

lemma fetched_twice: "fetched v (fetched u m) = fetched (case v of None \<Rightarrow> u | Some x \<Rightarrow> Some x) m"
  by (cases v; cases u) (simp_all add: fetched_def)

lemma documents_fetched_at:
  assumes "distinct (map member_decl_name ds)" and d: "d \<in> set ds"
    and "mems (member_decl_name d) = Some (MO_value m)"
  shows "documents_fetched api ds views mems (member_decl_name d) =
    Some (MO_value (fetched (last_value (map (\<lambda>view. mongo_value api view d) views)) m))"
  using assms(3)
proof (induction views arbitrary: mems m)
  case Nil
  then show ?case by (simp add: documents_fetched_def fetched_def)
next
  case (Cons view views)
  from mongo_fetched_at [where ds = ds and mems = mems, OF assms(1) d Cons.prems]
  have "mongo_fetched api view ds mems (member_decl_name d) = Some (MO_value (fetched (mongo_value api view d) m))" .
  then have "documents_fetched api ds views (mongo_fetched api view ds mems) (member_decl_name d) =
    Some (MO_value (fetched (last_value (map (\<lambda>view. mongo_value api view d) views)) (fetched (mongo_value api view d) m)))"
    by (rule Cons.IH)
  then show ?case by (simp add: documents_fetched_def fetched_twice split: option.split)
qed

lemma set_list_object_run:
  assumes w: "w_objs w p = Some ob" and free: "\<forall>a \<ge> w_next w. w_objs w a = None"
    and mem: "ob_mems ob mem = Some (MO_lstruct m)" and son: "element_class (ob_class ob) mem = Some c"
    and c: "registry_ok (w_reg w)" "table_class c" "class_ready (w_reg w) c" "w_reg w (cd_name c) \<noteq> None"
    and f: "list_all mongo_fetchable (cd_members c)"
    and cb: "\<And>w' qb. w_objs w' (w_next w) = Some qb \<Longrightarrow> w_reg w' = w_reg w \<Longrightarrow> value_members (cd_members c) qb \<Longrightarrow>
      cb (w_next w) w' = (put_obj (w_next w) (qb\<lparr>ob_mems := g (ob_mems qb)\<rparr>) w', Inr 0) \<and>
      value_members (cd_members c) (qb\<lparr>ob_mems := g (ob_mems qb)\<rparr>)"
  shows "\<exists>w' qb. set_list_object p mem cb w = (w', Inr 0) \<and>
    w_objs w' p = Some (put_mem mem (MO_lstruct (m\<lparr>sm_items := sm_items m @ [w_next w + 1]\<rparr>)) ob) \<and>
    table_ok w (w_next w) qb \<and> ob_class qb = c \<and> ob_seqset qb = [] \<and>
    w_objs w' (w_next w + 1) = Some (qb\<lparr>ob_mems := \<lambda>k. if k \<in> set (map member_decl_name (cd_members c))
      then g (ob_mems qb) k else None\<rparr>)"
proof -
  have p: "p \<noteq> w_next w" "p \<noteq> w_next w + 1" using w free by force+
  obtain w1 qb where new: "new_object c [] w = (w1, Inr (w_next w))" "w_objs w1 (w_next w) = Some qb"
    "table_ok w1 (w_next w) qb" "ob_class qb = c" "ob_seqset qb = []" "w_objs w1 = (w_objs w)(w_next w \<mapsto> qb)"
    "w_plists w1 = w_plists w" "w_next w1 = w_next w + 1" "w_reg w1 = w_reg w"
    using new_table_object_run [OF c(1,2) disjI2 [OF c(3)]] c(4) by blast
  let ?qb = "qb\<lparr>ob_mems := g (ob_mems qb)\<rparr>" and ?w2 = "put_obj (w_next w) (qb\<lparr>ob_mems := g (ob_mems qb)\<rparr>) w1"
  have vm: "value_members (cd_members c) qb" using table_value_members [OF new(3)] new(4) by simp
  from cb [OF new(2,9) this] have run: "cb (w_next w) w1 = (?w2, Inr 0)" and vm': "value_members (cd_members c) ?qb" by auto
  have "w_objs ?w2 (w_next w) = Some ?qb" by simp
  note copy = copy_values_object [OF this f vm']
  have same: "table_ok w = table_ok w1"
    using table_ok_cong [of w w1] new(7,9) by auto
  have "\<exists>w'. set_list_object p mem cb w = (w', Inr 0) \<and>
    w_objs w' p = Some (put_mem mem (MO_lstruct (m\<lparr>sm_items := sm_items m @ [w_next w + 1]\<rparr>)) ob) \<and>
    w_objs w' (w_next w + 1) = Some (qb\<lparr>ob_mems := \<lambda>k. if k \<in> set (map member_decl_name (cd_members c))
      then g (ob_mems qb) k else None\<rparr>)"
    using w p mem son new run copy
    by (simp add: set_list_object_def with_obj_run bindS_apply update_lstruct_member_def with_lstruct_member_def
        modify_obj_run cong: if_cong)
  with new(3-5) show ?thesis unfolding same by blast
qed

text \<open>
  C34: a list of structs comes back with one element.  Whatever the number of documents in the stored
  array (none included), fetching a list-of-structs member appends exactly one object to the list, and
  the documents are written into it one over the other: each of its members holds the value of the last
  document that has one.
\<close>

theorem mongo_list_of_structs_collapses:
  assumes "w_objs w p = Some ob" and "\<forall>a \<ge> w_next w. w_objs w a = None"
    and "ob_mems ob mem = Some (MO_lstruct m)" and "element_class (ob_class ob) mem = Some c"
    and "registry_ok (w_reg w)" and "table_class c" and "class_ready (w_reg w) c" and "w_reg w (cd_name c) \<noteq> None"
    and "list_all mongo_fetchable (cd_members c)"
    and "array_items api view (mi_get_name (decl_info (LIST_STRUCT_MEMBER mem c args))) = map I_doc docs"
    and "list_all (\<lambda>doc. list_all (item_ok api doc) (cd_members c)) docs"
  shows "\<exists>w' q e. write_handle_info (mongo_write_ref (Suc n) api) view p (decl_info (LIST_STRUCT_MEMBER mem c args)) w =
      (w', Inr (0, view)) \<and>
    w_objs w' p = Some (put_mem mem (MO_lstruct (m\<lparr>sm_items := sm_items m @ [q]\<rparr>)) ob) \<and>
    w_objs w' q = Some e \<and>
    (\<forall>d \<in> set (cd_members c). \<forall>v. last_value (map (\<lambda>doc. mongo_value api doc d) docs) = Some v \<longrightarrow>
       (\<exists>em. ob_mems e (member_decl_name d) = Some (MO_value em) \<and> vm_value em = Some v \<and> vm_flag em))"
proof -
  let ?ops = "mongo_write_ref n api" and ?ms = "cd_members c"
  let ?g = "documents_fetched api ?ms docs"
  have ops: "wr_mem ?ops = mongo_get api" by (cases n) simp_all
  have dist: "distinct (map member_decl_name ?ms)" using assms(7) by (simp add: class_ready_def)
  have vm: "value_members ?ms (qb\<lparr>ob_mems := ?g (ob_mems qb)\<rparr>)" if "value_members ?ms qb" for qb
    using that documents_fetched_at [OF dist, of _ "ob_mems qb" _ api docs] by (fastforce simp: value_members_def)
  let ?cb = "\<lambda>q. get_documents api (map I_doc docs) (write_struct (write_handle_info ?ops) (cd_name c) q)"
  have cb: "?cb (w_next w) w' = (put_obj (w_next w) (qb\<lparr>ob_mems := ?g (ob_mems qb)\<rparr>) w', Inr 0) \<and>
      value_members ?ms (qb\<lparr>ob_mems := ?g (ob_mems qb)\<rparr>)"
    if "w_objs w' (w_next w) = Some qb" "w_reg w' = w_reg w" "value_members ?ms qb" for w' qb
    using write_structs_run [OF _ _ assms(9,11) ops that(1,3)] assms(7,8) that(2) vm [OF that(3)] by simp
  obtain w' qb where run: "set_list_object p mem ?cb w = (w', Inr 0)"
    "w_objs w' p = Some (put_mem mem (MO_lstruct (m\<lparr>sm_items := sm_items m @ [w_next w + 1]\<rparr>)) ob)"
    and qb: "table_ok w (w_next w) qb" "ob_class qb = c"
    and e: "w_objs w' (w_next w + 1) = Some (qb\<lparr>ob_mems := \<lambda>k. if k \<in> set (map member_decl_name ?ms)
      then ?g (ob_mems qb) k else None\<rparr>)"
    using set_list_object_run [where g = ?g and cb = ?cb, OF assms(1-9) cb] by blast
  have info: "mi_type (decl_info (LIST_STRUCT_MEMBER mem c args)) = YT_LIST"
    "mi_list_member (decl_info (LIST_STRUCT_MEMBER mem c args)) = Some (LI_struct (cd_name c))"
    "mi_name (decl_info (LIST_STRUCT_MEMBER mem c args)) = mem" by simp_all
  have "write_handle_info (mongo_write_ref (Suc n) api) view p (decl_info (LIST_STRUCT_MEMBER mem c args)) w =
      (w', Inr (0, view))"
    using run(1) by (simp add: write_handle_info_def mongo_list_ref_def info assms(10) bindS_apply del: decl_info.simps)
  moreover have "\<exists>em. ?g (ob_mems qb) (member_decl_name d) = Some (MO_value em) \<and> vm_value em = Some v \<and> vm_flag em"
    if d: "d \<in> set ?ms" and v: "last_value (map (\<lambda>doc. mongo_value api doc d) docs) = Some v" for d v
  proof -
    from table_value_members [OF qb(1)] d qb(2) obtain m0 where "ob_mems qb (member_decl_name d) = Some (MO_value m0)"
      unfolding value_members_def by blast
    from documents_fetched_at [where mems = "ob_mems qb" and api = api and views = docs, OF dist d this] v show ?thesis by (simp add: fetched_def)
  qed
  ultimately show ?thesis using run(2) e by (intro exI [of _ w'] exI [of _ "w_next w + 1"] exI) auto
qed

section \<open>A concrete driver\<close>

text \<open>Documents as association lists, and the class of the repository's MongoDB tests, with two objects.\<close>

datatype sample_doc = Doc "(string \<times> sample_doc bson_item) list"

fun doc_items :: "sample_doc \<Rightarrow> (string \<times> sample_doc bson_item) list" where
  "doc_items (Doc items) = items"

definition sample_bson :: "sample_doc bson" where
  "sample_bson =
     \<lparr>bs_empty = Doc [], bs_put = (\<lambda>d k i. Doc (doc_items d @ [(k, i)])), bs_view = (\<lambda>d. map_of (doc_items d)),
      bs_type_error = ''expected element type k_utf8''\<rparr>"

lemma sample_bson_laws: "bson_laws sample_bson"
  by (auto simp: bson_laws_def sample_bson_def map_add_def split: option.split)

definition Driver :: class_decl where
  "Driver = CLASS ''Driver'' None
     [MEMBER ''lang'' YT_STRING Args0, MEMBER ''addr'' YT_STRING Args0, MEMBER ''download'' YT_INT32 Args0]"

definition Data :: class_decl where
  "Data = CLASS ''Data'' None
     [MEMBER ''name'' YT_STRING Args0, MEMBER ''type'' YT_STRING Args0, MEMBER ''count'' YT_INT32 Args0,
      LIST_MEMBER ''versions'' YT_STRING Args0, LIST_STRUCT_MEMBER ''drivers'' Driver Args0]"

definition driver_obj :: "addr \<Rightarrow> yan_obj" where
  "driver_obj p =
     (if p = 0 then sample_object_with Driver 0 [(''lang'', V_string ''cxx''), (''download'', V_int32 123)] [0, 2]
      else sample_object_with Driver 1 [] [])"

definition data_obj :: yan_obj where
  "data_obj = (fresh_obj Data [])\<lparr>ob_mems := [''drivers'' \<mapsto>
     MO_lstruct \<lparr>sm_flag = False, sm_items = [], sm_cond = None, sm_obj = 2\<rparr>]\<rparr>"

definition mongo_world :: world where
  "mongo_world =
     \<lparr>w_reg = [''Driver'' \<mapsto> Yan_Object_Inv.sample_state Driver],
      w_objs = [0 \<mapsto> driver_obj 0, 1 \<mapsto> driver_obj 1, 2 \<mapsto> data_obj], w_plists = (\<lambda>_. None), w_next = 3\<rparr>"

lemma mongo_world_simps [simp]:
  "w_reg mongo_world = [''Driver'' \<mapsto> Yan_Object_Inv.sample_state Driver]" "w_next mongo_world = 3"
  "w_objs mongo_world = [0 \<mapsto> driver_obj 0, 1 \<mapsto> driver_obj 1, 2 \<mapsto> data_obj]"
  by (simp_all add: mongo_world_def)

lemma Driver_simps [simp]:
  "cd_name Driver = ''Driver''" "table_class Driver" "class_ready [''Driver'' \<mapsto> Yan_Object_Inv.sample_state Driver] Driver"
  "list_all mongo_fetchable (cd_members Driver)" "distinct (map column_name (cd_members Driver))"
  "registry_ok [''Driver'' \<mapsto> Yan_Object_Inv.sample_state Driver]"
proof -
  show n: "cd_name Driver = ''Driver''" and t: "table_class Driver" by (simp_all add: Driver_def table_class_def)
  show "class_ready [''Driver'' \<mapsto> Yan_Object_Inv.sample_state Driver] Driver" by (rule sample_state_ready) (simp_all add: n t)
  show "list_all mongo_fetchable (cd_members Driver)" "distinct (map column_name (cd_members Driver))"
    by (simp_all add: Driver_def mongo_fetchable_def gettable_def column_name_def mi_get_name_def)
  show "registry_ok [''Driver'' \<mapsto> Yan_Object_Inv.sample_state Driver]" by (simp add: registry_ok_def sample_state_ok t)
qed

lemma driver_obj_simps [simp]:
  "ob_class (driver_obj p) = Driver" "ob_seqset (driver_obj 0) = [0, 2]" "ob_seqset (driver_obj 1) = []"
  "ob_conds (driver_obj p) = None"
  by (simp_all add: driver_obj_def sample_object_with_def fresh_obj_def)

lemma driver_obj_ok [simp]: "table_ok mongo_world 0 (driver_obj 0)" "table_ok mongo_world 1 (driver_obj 1)"
proof -
  have v: "list_all value_decl (cd_members Driver)" by (simp add: Driver_def)
  have l: "length (cd_members Driver) = 3" "member_decl_name (cd_members Driver ! 0) = ''lang''"
    "member_decl_name (cd_members Driver ! 1) = ''addr''" "member_decl_name (cd_members Driver ! 2) = ''download''"
    "decl_type Driver ''lang'' = Some YT_STRING" "decl_type Driver ''download'' = Some YT_INT32"
    by (simp_all add: Driver_def)
  have i: "i < (3::nat) \<longleftrightarrow> i = 0 \<or> i = 1 \<or> i = 2" for i by arith
  have "table_ok mongo_world 0 (sample_object_with Driver 0 [(''lang'', V_string ''cxx''), (''download'', V_int32 123)] [0, 2])"
    by (rule sample_object_ok) (simp_all add: v l i sset_def del: One_nat_def)
  then show "table_ok mongo_world 0 (driver_obj 0)" by (simp add: driver_obj_def)
  have "table_ok mongo_world 1 (sample_object_with Driver 1 [] [])"
    by (rule sample_object_ok) (simp_all add: v sset_def)
  then show "table_ok mongo_world 1 (driver_obj 1)" by (simp add: driver_obj_def)
qed

lemma sample_written_document:
  "make_write_bson 1 sample_bson (\<lambda>_. 0) mongo_world Driver 0 =
     Inr (Doc [(''lang'', I_val (V_string ''cxx'')), (''download'', I_val (V_int32 123))])"
  using make_write_bson_run [of mongo_world 0 "driver_obj 0" 0 sample_bson "\<lambda>_. 0"]
  by (simp add: row_of_def row_item_def Let_def class_members_ready get_value_def)
    (simp add: Driver_def driver_obj_def sample_object_with_def row_document_def sample_bson_def mi_get_name_def)

theorem mongo_roundtrip_witness:
  "\<exists>doc qb'. make_write_bson 1 sample_bson (\<lambda>_. 0) mongo_world Driver 0 = Inr doc \<and>
     mongo_fetch 0 sample_bson Driver 1 doc mongo_world = (put_obj 1 qb' mongo_world, Inr 0) \<and>
     get_value (put_obj 1 qb' mongo_world) 1 ''lang'' = Inr (V_string ''cxx'')"
proof -
  have m: "cd_members Driver ! 0 = MEMBER ''lang'' YT_STRING Args0" "0 < length (cd_members Driver)"
    by (simp_all add: Driver_def)
  have "get_value mongo_world 0 ''lang'' = Inr (V_string ''cxx'')"
    by (simp add: get_value_def driver_obj_def sample_object_with_def Driver_def)
  moreover obtain doc qb' where run: "make_write_bson (Suc 0) sample_bson (\<lambda>_. 0) mongo_world Driver 0 = Inr doc"
    "mongo_fetch 0 sample_bson Driver 1 doc mongo_world = (put_obj 1 qb' mongo_world, Inr 0)"
    and vals: "\<forall>i < length (cd_members Driver). let mem = member_decl_name (cd_members Driver ! i) in
       if of_nat i \<in> set (ob_seqset (driver_obj 0))
       then get_flag (put_obj 1 qb' mongo_world) 1 mem = Inr True \<and>
         get_value (put_obj 1 qb' mongo_world) 1 mem = get_value mongo_world 0 mem
       else ob_mems qb' mem = ob_mems (driver_obj 1) mem"
    using mongo_roundtrip [OF sample_bson_laws, of mongo_world 0 "driver_obj 0" 1 "driver_obj 1" 0 "\<lambda>_. 0" 0]
      driver_obj_ok by (simp only: driver_obj_simps Driver_simps mongo_world_simps fun_upd_apply) auto
  ultimately have "get_value (put_obj 1 qb' mongo_world) 1 ''lang'' = Inr (V_string ''cxx'')"
    using m vals [rule_format, of 0] by (simp add: Let_def)
  with run show ?thesis by auto
qed


theorem mongo_list_of_structs_collapses_witness:
  "\<exists>w' q e em. write_handle_info (mongo_write_ref 1 sample_bson)
       (Doc [(''drivers'', I_array (map I_doc [Doc [(''lang'', I_val (V_string ''cxx''))],
          Doc [(''lang'', I_val (V_string ''java''))]]))]) 2
       (decl_info (LIST_STRUCT_MEMBER ''drivers'' Driver Args0)) mongo_world = (w', Inr (0, Doc [(''drivers'',
          I_array (map I_doc [Doc [(''lang'', I_val (V_string ''cxx''))], Doc [(''lang'', I_val (V_string ''java''))]]))])) \<and>
     w_objs w' 2 = Some (put_mem ''drivers'' (MO_lstruct \<lparr>sm_flag = False, sm_items = [q], sm_cond = None, sm_obj = 2\<rparr>) data_obj) \<and>
     w_objs w' q = Some e \<and> ob_mems e ''lang'' = Some (MO_value em) \<and> vm_value em = Some (V_string ''java'')"
proof -
  let ?docs = "[Doc [(''lang'', I_val (V_string ''cxx''))], Doc [(''lang'', I_val (V_string ''java''))]]"
  let ?view = "Doc [(''drivers'', I_array (map I_doc ?docs))]"
  let ?m = "\<lparr>sm_flag = False, sm_items = [], sm_cond = None, sm_obj = 2\<rparr>"
  have h: "ob_mems data_obj ''drivers'' = Some (MO_lstruct ?m)" "element_class (ob_class data_obj) ''drivers'' = Some Driver"
    "\<forall>a \<ge> w_next mongo_world. w_objs mongo_world a = None" "w_objs mongo_world 2 = Some data_obj"
    by (simp_all add: data_obj_def element_class_def fresh_obj_def Data_def)
  have items: "array_items sample_bson ?view (mi_get_name (decl_info (LIST_STRUCT_MEMBER ''drivers'' Driver Args0))) = map I_doc ?docs"
    by (simp add: array_items_def sample_bson_def mi_get_name_def)
  have ok: "list_all (\<lambda>doc. list_all (item_ok sample_bson doc) (cd_members Driver)) ?docs"
    by (simp add: Driver_def item_ok_def sample_bson_def column_name_def mi_get_name_def)
  have d: "MEMBER ''lang'' YT_STRING Args0 \<in> set (cd_members Driver)" by (simp add: Driver_def)
  have v: "last_value (map (\<lambda>doc. mongo_value sample_bson doc (MEMBER ''lang'' YT_STRING Args0)) ?docs) = Some (V_string ''java'')"
    by (simp add: mongo_value_def sample_bson_def column_name_def mi_get_name_def)
  obtain w' q e where run: "write_handle_info (mongo_write_ref (Suc 0) sample_bson) ?view 2
      (decl_info (LIST_STRUCT_MEMBER ''drivers'' Driver Args0)) mongo_world = (w', Inr (0, ?view))"
    "w_objs w' 2 = Some (put_mem ''drivers'' (MO_lstruct (?m\<lparr>sm_items := sm_items ?m @ [q]\<rparr>)) data_obj)"
    "w_objs w' q = Some e" and vals: "\<And>d v. d \<in> set (cd_members Driver) \<Longrightarrow>
       last_value (map (\<lambda>doc. mongo_value sample_bson doc d) ?docs) = Some v \<Longrightarrow>
       \<exists>em. ob_mems e (member_decl_name d) = Some (MO_value em) \<and> vm_value em = Some v \<and> vm_flag em"
    using mongo_list_of_structs_collapses [OF h(4,3,1,2) _ _ _ _ _ items ok, of 0] Driver_simps
    unfolding mongo_world_simps by auto
  from vals [OF d v] run show ?thesis by auto
qed

end
