(* ===== verification/Yan_MongoDB.thy ===== *)
theory Yan_MongoDB
  imports Yan_EventOps Yan_Mongo
begin

text \<open>
  What a request to MongoDB does from end to end: reading into a container, writing objects, and the
  facade \<open>MongoDB\<close> (\<open>src/mongo/mongo.h\<close>) with its one worker.
\<close>

section \<open>Reading\<close>

text \<open>An object holds what a document has for the members of its class.\<close>

definition holds_document :: "'d bson \<Rightarrow> class_decl \<Rightarrow> 'd \<Rightarrow> yan_obj \<Rightarrow> bool" where
  "holds_document api c doc e \<longleftrightarrow>
     (\<forall>d \<in> set (cd_members c). \<forall>v. mongo_value api doc d = Some v \<longrightarrow>
        (\<exists>em. ob_mems e (member_decl_name d) = Some (MO_value em) \<and> vm_value em = Some v \<and> vm_flag em))"

definition class_known :: "class_decl \<Rightarrow> world \<Rightarrow> bool" where
  "class_known c w \<longleftrightarrow> registry_ok (w_reg w) \<and> table_class c \<and> class_ready (w_reg w) c \<and>
     w_reg w (cd_name c) \<noteq> None \<and> list_all mongo_fetchable (cd_members c)"

lemma fetch_document_step:
  assumes c: "class_known c w" and doc: "list_all (item_ok api doc) (cd_members c)"
  shows "\<exists>w1 w2 w3 qb e. new_object c [] w = (w1, Inr (w_next w)) \<and> mongo_fetch n api c (w_next w) doc w1 = (w2, Inr 0) \<and>
    copy_obj c (w_next w) w2 = (w3, Inr (w_next w + 1)) \<and> w_next w3 = w_next w + 2 \<and> w_reg w3 = w_reg w \<and>
    w_objs w3 = (w_objs w)(w_next w \<mapsto> qb, w_next w + 1 \<mapsto> e) \<and> holds_document api c doc e"
proof -
  note c = c [unfolded class_known_def]
  obtain w1 qb where new: "new_object c [] w = (w1, Inr (w_next w))" "w_objs w1 (w_next w) = Some qb"
    "table_ok w1 (w_next w) qb" "ob_class qb = c" "w_objs w1 = (w_objs w)(w_next w \<mapsto> qb)"
    "w_next w1 = w_next w + 1" "w_reg w1 = w_reg w"
    using new_table_object_run [of w c] c by blast
  let ?ms = "cd_members c" and ?g = "mongo_fetched api doc (cd_members c)"
  let ?qb = "qb\<lparr>ob_mems := ?g (ob_mems qb)\<rparr>"
  let ?e = "qb\<lparr>ob_mems := \<lambda>k. if k \<in> set (map member_decl_name ?ms) then ?g (ob_mems qb) k else None\<rparr>"
  have vm: "value_members ?ms qb" using table_value_members [OF new(3)] new(4) by simp
  have cr: "class_ready (w_reg w1) c" and f: "list_all mongo_fetchable ?ms" and dist: "distinct (map member_decl_name ?ms)"
    using c new(7) by (auto simp: class_ready_def)
  have run: "mongo_fetch n api c (w_next w) doc w1 = (put_obj (w_next w) ?qb w1, Inr 0)"
    by (rule mongo_fetch_run [OF cr f doc new(2) vm])
  have "w_objs (put_obj (w_next w) ?qb w1) (w_next w) = Some ?qb" by simp
  note copy = copy_values_object [OF this f value_members_mongo_fetched [OF vm]]
  have "holds_document api c doc ?e"
    unfolding holds_document_def
  proof (intro ballI allI impI)
    fix d v
    assume d: "d \<in> set ?ms" and v: "mongo_value api doc d = Some v"
    from vm d obtain m where "ob_mems qb (member_decl_name d) = Some (MO_value m)" unfolding value_members_def by blast
    from mongo_fetched_at [where mems = "ob_mems qb" and api = api and view = doc, OF dist d this] d v
    show "\<exists>em. ob_mems ?e (member_decl_name d) = Some (MO_value em) \<and> vm_value em = Some v \<and> vm_flag em"
      by (simp add: fetched_def)
  qed
  moreover have "copy_obj c (w_next w) (put_obj (w_next w) ?qb w1) =
      (put_obj (w_next w + 1) ?e ((put_obj (w_next w) ?qb w1)\<lparr>w_next := w_next w + 2\<rparr>), Inr (w_next w + 1))" (is "_ = (?w3, _)")
    using copy new(6) by (simp cong: if_cong)
  moreover have "w_objs ?w3 = (w_objs w)(w_next w \<mapsto> ?qb, w_next w + 1 \<mapsto> ?e)" "w_next ?w3 = w_next w + 2"
    "w_reg ?w3 = w_reg w"
    using new(5-7) by simp_all
  ultimately show ?thesis using new(1) run by blast
qed

lemma fetch_each_run:
  assumes "class_known c w" and "list_all (\<lambda>doc. list_all (item_ok api doc) (cd_members c)) docs"
  shows "\<exists>w' qs. fetch_each n api c ps docs err w = raise_opt err (returnS (ps @ qs)) w' \<and>
    list_all2 (\<lambda>doc q. \<exists>e. w_objs w' q = Some e \<and> holds_document api c doc e) docs qs \<and>
    w_next w \<le> w_next w' \<and> (\<forall>a < w_next w. w_objs w' a = w_objs w a)"
  using assms
proof (induction docs arbitrary: w ps)
  case Nil
  then show ?case by (intro exI [of _ w] exI [of _ "[]"]) (simp add: returnS_def)
next
  case (Cons doc docs)
  have "list_all (item_ok api doc) (cd_members c)" using Cons.prems(2) by simp
  from fetch_document_step [OF Cons.prems(1) this, of n] obtain w1 w2 w3 qb e where
    step: "new_object c [] w = (w1, Inr (w_next w))" "mongo_fetch n api c (w_next w) doc w1 = (w2, Inr 0)"
      "copy_obj c (w_next w) w2 = (w3, Inr (w_next w + 1))"
    and w3: "w_next w3 = w_next w + 2" "w_reg w3 = w_reg w"
      "w_objs w3 = (w_objs w)(w_next w \<mapsto> qb, w_next w + 1 \<mapsto> e)" "holds_document api c doc e"
    by blast
  have known: "class_known c w3" using Cons.prems(1) w3(2) by (simp add: class_known_def)
  have rest: "list_all (\<lambda>doc. list_all (item_ok api doc) (cd_members c)) docs" using Cons.prems(2) by simp
  from Cons.IH [OF known rest, of "ps @ [w_next w + 1]"] obtain w' qs where
    IH: "fetch_each n api c (ps @ [w_next w + 1]) docs err w3 = raise_opt err (returnS (ps @ (w_next w + 1) # qs)) w'"
      "list_all2 (\<lambda>doc q. \<exists>e. w_objs w' q = Some e \<and> holds_document api c doc e) docs qs"
      "w_next w3 \<le> w_next w'" "\<And>a. a < w_next w3 \<Longrightarrow> w_objs w' a = w_objs w3 a"
    unfolding append_assoc append_Cons append_Nil by blast
  have "w_objs w' (w_next w + 1) = Some e" using IH(4) [of "w_next w + 1"] w3(1,3) by simp
  moreover have "fetch_each n api c ps (doc # docs) err w = raise_opt err (returnS (ps @ (w_next w + 1) # qs)) w'"
    using IH(1) by (simp add: bindS_apply step)
  moreover have "w_objs w' a = w_objs w a" if "a < w_next w" for a
    using IH(4) [of a] that w3(1,3) by simp
  ultimately show ?case
    using IH(2,3) w3(1,4) by (intro exI [of _ w'] exI [of _ "(w_next w + 1) # qs"]) (auto simp: returnS_def)
qed

text \<open>What the driver reports for a request on the collection \<open>table\<close>: the client first, then the cursor.\<close>

definition found_documents ::
  "('d, 'db) mongo_api \<Rightarrow> string \<Rightarrow> string \<Rightarrow> 'd \<Rightarrow> 'db \<Rightarrow> 'db \<times> ('d list \<times> error option) res" where
  "found_documents mg schema table doc db =
     (case mg_acquire mg db of (db, Inl e) \<Rightarrow> (db, Inl e) | (db, Inr _) \<Rightarrow> mg_find mg schema table doc db)"

lemma mongo_client_run:
  "mc_pool mc \<Longrightarrow> with_client mg mc (mg_find mg (mc_schema mc) table doc) db = found_documents mg (mc_schema mc) table doc db"
  by (auto simp: with_client_def found_documents_def bindS_apply split: prod.splits sum.splits)


section \<open>Writing\<close>

fun arg_class :: "write_arg \<Rightarrow> class_decl" where
  "arg_class (W_obj c p) = c"
| "arg_class (W_objs c ps) = c"

fun arg_objects :: "write_arg \<Rightarrow> addr list" where
  "arg_objects (W_obj c p) = [p]"
| "arg_objects (W_objs c ps) = ps"

lemma documents_run:
  "\<forall>p \<in> set ps. written w c p \<Longrightarrow>
    foldE (\<lambda>docs p. bindE (make_write_bson (Suc n) api raw_size w c p) (\<lambda>doc. Inr (docs @ [doc]))) docs ps =
      (Inr (docs @ map (\<lambda>p. row_document api (row_of w p)) ps) :: 'd list res)"
proof (induction ps arbitrary: docs)
  case (Cons p ps)
  then obtain ob where "w_objs w p = Some ob" "table_ok w p ob" "ob_class ob = c" by (auto simp: written_def)
  from make_write_bson_run [OF this(1,2), of n api raw_size] this(3) Cons show ?case by simp
qed simp

lemma mongo_write_prehandle_run:
  assumes "\<forall>p \<in> set (arg_objects arg). written w (arg_class arg) p"
  shows "mongo_write_prehandle (Suc n) api raw_size w MongoWriteEvent arg =
    Inr \<lparr>mw_entities = of_nat (length (arg_objects arg)), mw_coll = class_name w (arg_class arg),
      mw_docs = map (\<lambda>p. row_document api (row_of w p)) (arg_objects arg)\<rparr>"
proof (cases arg)
  case (W_obj c p)
  with assms obtain ob where "w_objs w p = Some ob" "table_ok w p ob" "ob_class ob = c" by (auto simp: written_def)
  from make_write_bson_run [OF this(1,2), of n api raw_size] this(3) W_obj show ?thesis
    by (simp add: mongo_write_prehandle_def MongoWriteEvent_def)
next
  case (W_objs c ps)
  with assms documents_run [of ps w c n api raw_size "[]"] show ?thesis
    by (simp add: mongo_write_prehandle_def MongoWriteEvent_def)
qed

text \<open>What the driver makes of an insertion: the client first, then one \<open>insert_many\<close>.\<close>

definition inserted_documents ::
  "('d, 'db) mongo_api \<Rightarrow> string \<Rightarrow> string \<Rightarrow> 'd list \<Rightarrow> 'db \<Rightarrow> 'db \<times> unit res" where
  "inserted_documents mg schema table docs db =
     (case mg_acquire mg db of (db, Inl e) \<Rightarrow> (db, Inl e) | (db, Inr _) \<Rightarrow> mg_insert_many mg schema table docs db)"

lemma mongo_write_handle_run:
  "mc_pool mc \<Longrightarrow> mongo_write_handle mg mc ev (w, db) =
    (case inserted_documents mg (mc_schema mc) (mw_coll ev) (mw_docs ev) db of
       (db', Inl e) \<Rightarrow> ((w, db'), failed e)
     | (db', Inr _) \<Rightarrow> ((w, db'), Set_value (mw_entities ev)))"
  by (auto simp: mongo_write_handle_def mongo_write_def with_client_def inserted_documents_def on_db_def bindS_apply settle_def
      split: prod.splits sum.splits)

section \<open>The facade\<close>

datatype mongo_request =
    MReq_write write_arg
  | MReq_read ret_kind class_decl addr
  | MReq_del class_decl addr

datatype 'd mongo_job =
    MJ_write "'d mongo_write_event"
  | MJ_read ret_kind "'d \<times> string"
  | MJ_delete "'d \<times> string"

text \<open>What the compiled library and its environment fix.\<close>

record ('d, 'db) mongo_config =
  mf_bson :: "'d bson"
  mf_api :: "('d, 'db) mongo_api"
  mf_raw_size :: "addr \<Rightarrow> nat"
  mf_depth :: nat

definition mongo_prepare :: "('d, 'db) mongo_config \<Rightarrow> mongo_request \<Rightarrow> world \<Rightarrow> 'd mongo_job res" where
  "mongo_prepare cf req w =
     (case req of
        MReq_write arg \<Rightarrow>
          bindE (mongo_write_prehandle (mf_depth cf) (mf_bson cf) (mf_raw_size cf) w MongoWriteEvent arg) (\<lambda>ev. Inr (MJ_write ev))
      | MReq_read k c p \<Rightarrow> bindE (mongo_cond_prehandle (mf_bson cf) w c p) (\<lambda>q. Inr (MJ_read k q))
      | MReq_del c p \<Rightarrow> bindE (mongo_cond_prehandle (mf_bson cf) w c p) (\<lambda>q. Inr (MJ_delete q)))"

text \<open>The worker's task; the context is shared with the events and never replaced.\<close>

fun mongo_run_job ::
  "('d, 'db) mongo_config \<Rightarrow> 'd mongo_job \<Rightarrow> mongo_context \<times> 'db mongo \<Rightarrow> (mongo_context \<times> 'db mongo) \<times> reply outcome" where
  "mongo_run_job cf job (mc, st) =
     (case
        (case job of
           MJ_write ev \<Rightarrow> answered Re_int (mongo_write_handle (mf_api cf) mc ev st)
         | MJ_read k q \<Rightarrow> answered Re_result (mongo_read_handle (mf_depth cf) (mf_bson cf) (mf_api cf) mc k q st)
         | MJ_delete q \<Rightarrow> answered Re_int (mongo_delete_handle (mf_api cf) mc q st))
      of (st', oc) \<Rightarrow> ((mc, st'), oc))"

type_synonym ('d, 'db) mongodb = "(mongo_context \<times> 'db mongo, 'd mongo_job) front"

text \<open>\<open>init\<close>: the facade is set up even where the context is not; the code is handed to the caller.\<close>

definition MongoDB_init :: "('d, 'db) mongo_config \<Rightarrow> string \<Rightarrow> ('db mongo, int \<times> ('d, 'db) mongodb) sres" where
  "MongoDB_init cf uri = (\<lambda>(w, db).
     case mongo_init (mf_api cf) uri MongoContext db of
       (db', Inl e) \<Rightarrow> ((w, db'), Inl e)
     | (db', Inr (code, mc)) \<Rightarrow> ((w, db'), Inr (code, front_start (mc, w, db'))))"

definition mongo_send ::
  "('d, 'db) mongo_config \<Rightarrow> ((nat \<times> 'd mongo_job) list \<Rightarrow> bool) \<Rightarrow> mongo_request \<Rightarrow> (('d, 'db) mongodb, nat) sres" where
  "mongo_send cf accepts req = create_event accepts (returnS (\<lambda>(mc, w, db). ((mc, w, db), mongo_prepare cf req w)))"

fun mongo_user :: "mongo_context \<times> 'db mongo \<Rightarrow> mongo_context \<times> 'db mongo \<Rightarrow> bool" where
  "mongo_user (mc, w, db) (mc', w', db') \<longleftrightarrow> mc' = mc \<and> db' = db"

definition mongodb_step :: "('d, 'db) mongo_config \<Rightarrow> ('d, 'db) mongodb \<Rightarrow> ('d, 'db) mongodb \<Rightarrow> bool" where
  "mongodb_step cf = front_step (mongo_run_job cf) mongo_user (mongo_send cf)"

definition mongodb_reachable :: "('d, 'db) mongo_config \<Rightarrow> ('d, 'db) mongodb \<Rightarrow> bool" where
  "mongodb_reachable cf s \<longleftrightarrow>
     (\<exists>uri st0 st code s0. MongoDB_init cf uri st0 = (st, Inr (code, s0)) \<and> rtranclp (mongodb_step cf) s0 s)"

section \<open>The interfaces\<close>

definition keeps_context :: "mongo_context \<times> 'db mongo \<Rightarrow> mongo_context \<times> 'db mongo \<Rightarrow> bool" where
  "keeps_context st st' \<longleftrightarrow> fst st' = fst st"

interpretation ctx: frame_rel keeps_context
  by unfold_locales (simp_all add: keeps_context_def)

interpretation mg: framed_front_end "mongo_run_job cf" mongo_user "mongo_send cf" keeps_context
  for cf :: "('d, 'db) mongo_config"
proof unfold_locales
  fix s s' :: "('d, 'db) mongodb" and accepts req r
  assume "one_queue s" and "mongo_send cf accepts req s = (s', r)"
  then show "quiet s s' \<and> sent s s' r \<and> (accepts (waiting s) \<or> waiting s' = waiting s)"
    unfolding mongo_send_def by (blast dest: request_run)
next
  fix st st' :: "mongo_context \<times> 'db mongo"
  show "mongo_user st st' \<Longrightarrow> keeps_context st st'" by (cases st; cases st') (auto simp: keeps_context_def)
next
  fix s :: "('d, 'db) mongodb" and accepts req
  obtain s' r where s': "mongo_send cf accepts req s = (s', r)" by (cases "mongo_send cf accepts req s")
  have "keeps keeps_context (\<lambda>(mc, w, db). ((mc, w, db), mongo_prepare cf req w))"
    by (auto simp: keeps_def keeps_context_def)
  with ctx.request_keeps [OF ctx.keeps_returnS, of "\<lambda>(mc, w, db). ((mc, w, db), mongo_prepare cf req w)" accepts s s' r] s'
  show "keeps_context (ft_state s) (ft_state (fst (mongo_send cf accepts req s)))"
    by (auto simp: mongo_send_def)
next
  fix st :: "mongo_context \<times> 'db mongo" and job
  show "keeps_context st (fst (mongo_run_job cf job st))" by (cases st) (simp add: keeps_context_def split: prod.split)
qed

lemma MongoDB_init_run:
  assumes "MongoDB_init cf uri st0 = (st, Inr (code, s0))"
  obtains mc where "s0 = front_start (mc, st)" and "mc_schema mc = ''''" and "code = 0 \<longrightarrow> mc_pool mc"
  using assms by (auto simp: MongoDB_init_def mongo_init_def MongoContext_def split: prod.splits sum.splits if_splits)

lemma mongodb_reachable_ok:
  assumes "mongodb_reachable cf s"
  shows "front_ok s \<and> mc_schema (fst (ft_state s)) = ''''"
proof -
  obtain uri st0 st code s0 where init: "MongoDB_init cf uri st0 = (st, Inr (code, s0))"
    and r: "rtranclp (front_step (mongo_run_job cf) mongo_user (mongo_send cf)) s0 s"
    using assms by (auto simp: mongodb_reachable_def mongodb_step_def)
  from MongoDB_init_run [OF init] obtain mc where "s0 = front_start (mc, st)" "mc_schema mc = ''''" by blast
  with mg.steps_same [OF r] mg.steps_ok [OF r] show ?thesis by (simp add: keeps_context_def)
qed

text \<open>
  C31: the facade of MongoDB serves its requests as that of SQLite does.  In every reachable state the
  waiting requests are those of ascending futures, sent after all requests that were answered with a value;
  an answer is final; left to itself the worker answers every request that waits, unless an error
  leaves one of the handlers; and every request that is run goes to the database with the empty name.
\<close>

theorem mongodb_serves_requests:
  assumes "mongodb_reachable cf s"
  shows "sorted_wrt (<) (map fst (waiting s)) \<and>
    (\<forall>f \<in> fst ` set (waiting s). f < ft_next s \<and> ft_promises s f = Unset \<and>
       (\<forall>g r. ft_promises s g = Value_set r \<longrightarrow> g < f)) \<and>
    (\<forall>f s'. ft_promises s f \<noteq> Unset \<longrightarrow> rtranclp (mongodb_step cf) s s' \<longrightarrow> ft_promises s' f = ft_promises s f) \<and>
    (\<exists>k \<le> length (waiting s). let s' = (worker_turn (mongo_run_job cf) ^^ k) s in
       ft_terminated s' \<or> waiting s' = [] \<and> (\<forall>f \<in> fst ` set (waiting s). ft_promises s' f \<noteq> Unset)) \<and>
    mc_schema (fst (ft_state s)) = ''''"
proof -
  have ok: "front_ok s" "mc_schema (fst (ft_state s)) = ''''" using mongodb_reachable_ok [OF assms] by simp_all
  have "\<exists>k \<le> length (waiting s). let s' = (worker_turn (mongo_run_job cf) ^^ k) s in
       ft_terminated s' \<or> waiting s' = [] \<and> (\<forall>f \<in> fst ` set (waiting s). ft_promises s' f \<noteq> Unset)"
    using worker_turns_drain [OF ok(1), of "mongo_run_job cf"] unfolding Let_def by blast
  with ok mg.answer_final [OF ok(1)] show ?thesis
    unfolding mongodb_step_def front_ok_def by blast
qed


section \<open>Concrete instances\<close>

text \<open>A server with one collection, whose documents all match every condition.\<close>

definition sample_mongo :: "(sample_doc, sample_doc list) mongo_api" where
  "sample_mongo =
     \<lparr>mg_pool = (\<lambda>uri. returnS ()), mg_acquire = returnS (),
      mg_insert_many = (\<lambda>schema table docs db. (db @ docs, Inr ())),
      mg_find = (\<lambda>schema table cond db. (db, Inr (db, None))),
      mg_delete_many = (\<lambda>schema table cond db. ([], Inr (Some (of_nat (length db)))))\<rparr>"

definition sample_config :: "(sample_doc, sample_doc list) mongo_config" where
  "sample_config = \<lparr>mf_bson = sample_bson, mf_api = sample_mongo, mf_raw_size = (\<lambda>_. 0), mf_depth = 1\<rparr>"

lemma Driver_known: "class_known Driver mongo_world"
  by (simp add: class_known_def)


lemma sample_init:
  "MongoDB_init sample_config ''mongodb://localhost'' (mongo_world, []) =
    ((mongo_world, []), Inr (0, front_start (\<lparr>mc_pool = True, mc_schema = ''''\<rparr>, mongo_world, [])))"
  by (simp add: MongoDB_init_def mongo_init_def sample_config_def sample_mongo_def MongoContext_def)

lemma sample_inserted:
  "inserted_documents (mf_api sample_config) schema table docs db = (db @ docs, Inr ())"
  by (simp add: inserted_documents_def sample_config_def sample_mongo_def)

lemma sample_objects_written: "\<forall>p \<in> set (arg_objects (W_objs Driver [0, 0])). written mongo_world (arg_class (W_objs Driver [0, 0])) p"
  by (simp add: written_def)

lemma sample_config_depth: "mf_depth sample_config = Suc 0"
  by (simp add: sample_config_def)


text \<open>A request that waits is answered in one turn.\<close>

theorem mongodb_serves_requests_witness:
  "\<exists>s k. mongodb_reachable sample_config s \<and> map fst (waiting s) = [0] \<and> k \<le> 1 \<and>
     (let s' = (worker_turn (mongo_run_job sample_config) ^^ k) s in ft_terminated s' \<or> ft_promises s' 0 \<noteq> Unset)"
proof -
  let ?mc = "\<lparr>mc_pool = True, mc_schema = ''''\<rparr>" and ?req = "MReq_write (W_objs Driver [0, 0])"
  let ?s0 = "front_start (?mc, mongo_world, []) :: (sample_doc, sample_doc list) mongodb"
  obtain s r where s: "mongo_send sample_config (\<lambda>_. True) ?req ?s0 = (s, r)" by (cases "mongo_send sample_config (\<lambda>_. True) ?req ?s0")
  obtain j where j: "mongo_prepare sample_config ?req mongo_world = Inr j"
    by (simp add: mongo_prepare_def sample_config_depth mongo_write_prehandle_run [OF sample_objects_written])
  have w: "waiting s = [(0, j)]"
    using s j by (auto simp: mongo_send_def create_event_def bindS_apply on_state_def hand_over_def submit_one_worker
        new_future_def waiting_def front_start_def ThreadPool_def)
  have "rtranclp (mongodb_step sample_config) ?s0 s"
    unfolding mongodb_step_def by (rule mg.steps_send [OF _ _ s]) simp_all
  then have reach: "mongodb_reachable sample_config s"
    unfolding mongodb_reachable_def using sample_init by blast
  from mongodb_serves_requests [OF this] obtain k where "k \<le> length (waiting s)"
    "let s' = (worker_turn (mongo_run_job sample_config) ^^ k) s in
       ft_terminated s' \<or> waiting s' = [] \<and> (\<forall>f \<in> fst ` set (waiting s). ft_promises s' f \<noteq> Unset)" by blast
  with w reach show ?thesis by (intro exI [of _ s] exI [of _ k]) (auto simp: Let_def)
qed

end
