(* ===== verification/Yan_Facade.thy ===== *)
theory Yan_Facade
  imports Yan_EventOps
begin

text \<open>
  \<open>Sqlite\<close> (\<open>src/sqlite/sqlite.h\<close>), what a user of the library holds: a request is prepared on the
  user's thread, handed to the one worker of \<open>operators_\<close> and answered through a future.
\<close>

section \<open>Requests and jobs\<close>

text \<open>What the compiled library and its environment fix.\<close>

record 'db config =
  cf_lib :: "'db sqlite_lib"
  cf_key_first :: bool
  cf_raw_size :: "addr \<Rightarrow> nat"
  cf_fuel :: nat

datatype request =
    Req_create "class_decl list"
  | Req_write "write_arg list"
  | Req_update class_decl addr
  | Req_read ret_kind "(class_decl \<times> addr) list"
  | Req_count class_decl addr
  | Req_count_table class_decl
  | Req_del class_decl addr
  | Req_union "(ret_kind \<times> (class_decl \<times> addr) list) list" ret_kind
  | Req_join "(class_decl \<times> string list) list" ret_kind "(class_decl \<times> addr) list"
  | Req_copy class_decl class_decl "(class_decl \<times> addr) list"

datatype job =
    J_create write_event
  | J_write write_event
  | J_update update_cond
  | J_read ret_kind read_cond
  | J_delete read_cond
  | J_union ret_kind "read_cond list"
  | J_join ret_kind join_builder
  | J_copy class_decl join_builder

fun run_job :: "'db config \<Rightarrow> job \<Rightarrow> 'db yan \<Rightarrow> 'db yan \<times> reply outcome" where
  "run_job cf (J_create ev) st = answered Re_int (create_handle (cf_lib cf) ev st)"
| "run_job cf (J_write ev) st = answered Re_int (write_handle (cf_lib cf) ev st)"
| "run_job cf (J_update uc) st =
     answered Re_int (update_handle (cf_lib cf) (cf_key_first cf) (cf_raw_size cf) uc st)"
| "run_job cf (J_read k rc) st =
     answered Re_result (read_handle (cf_fuel cf) (cf_lib cf) (cf_key_first cf) k rc st)"
| "run_job cf (J_delete rc) st =
     answered Re_int (delete_handle (cf_fuel cf) (cf_lib cf) (cf_key_first cf) rc st)"
| "run_job cf (J_union k conds) st =
     answered Re_result (union_task (cf_fuel cf) (cf_lib cf) (cf_key_first cf) k conds st)"
| "run_job cf (J_join k jb) st =
     answered Re_result (join_task (cf_fuel cf) (cf_lib cf) (cf_key_first cf) k jb st)"
| "run_job cf (J_copy c jb) st = answered Re_int (copy_task (cf_lib cf) (cf_key_first cf) c jb st)"

text \<open>
  Preparing a request has two parts: what runs outside the \<open>try\<close> block of the caller (the constructor of
  \<open>UpdateEvent\<close>, which makes an object, and the \<open>union_read\<close> calls), and what runs inside.
\<close>

definition prepare :: "'db config \<Rightarrow> request \<Rightarrow> (world, (world, job) sres) sres" where
  "prepare cf req =
     (case req of
        Req_create cs \<Rightarrow> returnS (bindS (create_prehandle cs) (\<lambda>ev. returnS (J_create ev)))
      | Req_write args \<Rightarrow>
          returnS (\<lambda>w. (w, bindE (write_prehandle (cf_raw_size cf) w WriteEvent args) (\<lambda>ev. Inr (J_write ev))))
      | Req_update c p \<Rightarrow>
          bindS (UpdateCondImpl c) (\<lambda>uc. returnS (bindS (copy_refobj c p uc) (\<lambda>uc. returnS (J_update uc))))
      | Req_read k args \<Rightarrow> returnS (\<lambda>w. (w, bindE (read_prehandle w k args) (\<lambda>rc. Inr (J_read k rc))))
      | Req_count c p \<Rightarrow>
          returnS (\<lambda>w. (w, bindE (read_prehandle w (One Ret_int64) [(c, p)]) (\<lambda>rc. Inr (J_read (One Ret_int64) rc))))
      | Req_count_table c \<Rightarrow>
          returnS (returnS (J_read (One Ret_int64) (rc_append_table c (ReadCondImpl Ret_int64))))
      | Req_del c p \<Rightarrow> returnS (\<lambda>w. (w, bindE (delete_prehandle w [(c, p)]) (\<lambda>rc. Inr (J_delete rc))))
      | Req_union parts k \<Rightarrow>
          (\<lambda>w. (w, bindE (foldE (\<lambda>conds (k, args). union_read w k args conds) [] parts)
                      (\<lambda>conds. Inr (returnS (J_union k conds)))))
      | Req_join tables k args \<Rightarrow>
          returnS (\<lambda>w. (w, bindE
            (join_commit w args (fold (\<lambda>(c, equals). join_table c equals) tables join_builder0))
            (\<lambda>jb. Inr (J_join k jb))))
      | Req_copy from_class to_class args \<Rightarrow>
          returnS (\<lambda>w. (w, bindE (copy_commit w args (join_table from_class [] join_builder0))
            (\<lambda>jb. Inr (J_copy to_class jb)))))"

text \<open>Events are inserted inside the \<open>try\<close> block of \<open>create_event\<close>, tasks submitted outside of any.\<close>

fun is_event :: "request \<Rightarrow> bool" where
  "is_event (Req_union _ _) = False"
| "is_event (Req_join _ _ _) = False"
| "is_event (Req_copy _ _ _) = False"
| "is_event _ = True"

section \<open>The facade\<close>

text \<open>The user's objects are part of the state the requests work on.\<close>

definition on_objects_of :: "(world, 'a) sres \<Rightarrow> ('db yan, 'a) sres" where
  "on_objects_of m = (\<lambda>(p, en). case m (en_world en) of (w, r) \<Rightarrow> ((p, en\<lparr>en_world := w\<rparr>), r))"

type_synonym 'db sqlite = "('db yan, job) front"

definition Sqlite_init :: "string \<Rightarrow> 'db engine \<Rightarrow> 'db sqlite" where
  "Sqlite_init url en = front_start (ConnectionPool url, en)"

definition send :: "'db config \<Rightarrow> ((nat \<times> job) list \<Rightarrow> bool) \<Rightarrow> request \<Rightarrow> ('db sqlite, nat) sres" where
  "send cf accepts req =
     (let mk = on_objects_of (bindS (prepare cf req) (\<lambda>prehandle. returnS (on_objects_of prehandle))) in
      if is_event req then create_event accepts mk else commit_task accepts mk)"

text \<open>User code may change any object between two steps.\<close>

fun user_code :: "'db yan \<Rightarrow> 'db yan \<Rightarrow> bool" where
  "user_code (p, en) (p', en') \<longleftrightarrow> p' = p \<and> en_db en' = en_db en \<and> en_caches en' = en_caches en"

definition sqlite_step :: "'db config \<Rightarrow> 'db sqlite \<Rightarrow> 'db sqlite \<Rightarrow> bool" where
  "sqlite_step cf = front_step (run_job cf) user_code (send cf)"

definition sqlite_reachable :: "'db config \<Rightarrow> 'db sqlite \<Rightarrow> bool" where
  "sqlite_reachable cf s \<longleftrightarrow> (\<exists>url en. rtranclp (sqlite_step cf) (Sqlite_init url en) s)"

section \<open>One connection\<close>

text \<open>The pool of one worker: at most one connection, counted by \<open>used_conns_\<close>; once open it stays.\<close>

definition one_conn :: "'c pool \<Rightarrow> bool" where
  "one_conn p \<longleftrightarrow> length (pl_conns p) \<le> 1 \<and> pl_used_conns p = of_nat (length (pl_conns p))"

definition conn_step :: "'c pool \<Rightarrow> 'c pool \<Rightarrow> bool" where
  "conn_step p p' \<longleftrightarrow> one_conn p' \<and> (pl_conns p \<noteq> [] \<longrightarrow> p' = p)"

lemma on_connection_pool: "fst (fst (on_connection m h st)) = fst st"
  by (cases st) (simp add: on_connection_def split: prod.split)

lemma use_connection_conn:
  assumes "one_conn (fst st)"
  shows "conn_step (fst st) (fst (fst (use_connection lib m st)))"
proof -
  obtain p s where st: "st = (p, s)" by force
  show ?thesis
  proof (cases "pl_conns p")
    case (Cons c cs)
    with assms st have cs: "cs = []" by (simp add: one_conn_def)
    obtain p2 s2 r where b: "on_connection (m (lib_conn lib c)) c (p\<lparr>pl_conns := []\<rparr>, s) = ((p2, s2), r)"
      by (metis prod.collapse)
    then have "p2 = p\<lparr>pl_conns := []\<rparr>" using on_connection_pool by (metis fst_conv)
    then have "fst (fst (use_connection lib m st)) = p"
      using b Cons cs by (simp add: st use_connection_def with_connection_def pool_get_def pool_release_def)
    then show ?thesis using assms st by (simp add: conn_step_def)
  next
    case Nil
    obtain s1 g where g: "new_connection lib (pl_url p) s = (s1, g)" by force
    show ?thesis
    proof (cases g)
      case (Inl e)
      with Nil g assms show ?thesis
        by (simp add: st use_connection_def with_connection_def pool_get_def conn_step_def)
    next
      case (Inr c)
      let ?p = "p\<lparr>pl_used_conns := pl_used_conns p + 1\<rparr>"
      obtain p2 s2 r where b: "on_connection (m (lib_conn lib c)) c (?p, s1) = ((p2, s2), r)"
        by (metis prod.collapse)
      then have "p2 = ?p" using on_connection_pool by (metis fst_conv)
      then have "fst (fst (use_connection lib m st)) = ?p\<lparr>pl_conns := [c]\<rparr>"
        using b Nil g Inr by (simp add: st use_connection_def with_connection_def pool_get_def pool_release_def)
      then show ?thesis using assms st Nil by (simp add: conn_step_def one_conn_def)
    qed
  qed
qed

lemma handle_conn: "one_conn (fst st) \<Longrightarrow> conn_step (fst st) (fst (fst (handle lib m st)))"
  using use_connection_conn [of st lib m]
  by (auto simp: handle_def split: prod.splits sum.splits)

lemma conn_step_refl: "one_conn p \<Longrightarrow> conn_step p p"
  by (simp add: conn_step_def)

lemma ret_in_yan_pool: "fst (fst (ret_in_yan k st)) = fst st"
  by (cases st) (simp add: ret_in_yan_def split: prod.split)

lemma ret_in_yan_conn:
  assumes "one_conn (fst st)"
  obtains st' r where "ret_in_yan k st = (st', r)" and "fst st' = fst st" and "one_conn (fst st')"
  using assms ret_in_yan_pool [of k st] by (metis prod.collapse)

lemma ret_task_conn:
  assumes "one_conn (fst st)"
  shows "conn_step (fst st) (fst (fst (ret_task lib k m st)))"
proof -
  obtain st' r where r: "ret_in_yan k st = (st', r)" "fst st' = fst st" "one_conn (fst st')"
    using assms by (rule ret_in_yan_conn)
  show ?thesis
  proof (cases r)
    case (Inl e)
    with r show ?thesis by (simp add: ret_task_def conn_step_refl)
  next
    case (Inr ro)
    from handle_conn [OF r(3), of lib "m ro"] r Inr show ?thesis by (simp add: ret_task_def)
  qed
qed

lemma read_handle_conn:
  assumes "one_conn (fst st)"
  shows "conn_step (fst st) (fst (fst (read_handle n lib kf k rc st)))"
proof -
  have "fst (read_handle n lib kf k rc st) = fst (ret_task lib k (\<lambda>ro api. ctx_read n api kf ro rc) st)"
    by (simp add: read_handle_def ret_task_def split: prod.splits sum.splits)
  with ret_task_conn [OF assms] show ?thesis by simp
qed

lemma run_job_conn: "one_conn (fst st) \<Longrightarrow> conn_step (fst st) (fst (fst (run_job cf job st)))"
  by (cases job)
    (simp_all add: create_handle_def write_handle_def update_handle_def delete_handle_def copy_task_def union_task_def
      join_task_def handle_conn read_handle_conn ret_task_conn conn_step_refl)

section \<open>The interfaces\<close>

text \<open>Once there is at most one connection it stays so, and an open one is kept.\<close>

definition keeps_conn :: "'db yan \<Rightarrow> 'db yan \<Rightarrow> bool" where
  "keeps_conn st st' \<longleftrightarrow> (one_conn (fst st) \<longrightarrow> conn_step (fst st) (fst st'))"

lemma on_objects_of_pool [simp]: "fst (fst (on_objects_of m st)) = fst st"
  by (cases st) (simp add: on_objects_of_def split: prod.split)

lemma keeps_conn_objects: "keeps keeps_conn (on_objects_of m)"
  by (simp add: keeps_def keeps_conn_def conn_step_refl)

interpretation conn: frame_rel keeps_conn
  by unfold_locales (auto simp: keeps_conn_def conn_step_def)

interpretation sq: framed_front_end "run_job cf" user_code "send cf" keeps_conn for cf :: "'db config"
proof unfold_locales
  fix s s' :: "'db sqlite" and accepts req r
  assume "one_queue s" and "send cf accepts req s = (s', r)"
  then show "quiet s s' \<and> sent s s' r \<and> (accepts (waiting s) \<or> waiting s' = waiting s)"
    by (auto simp: send_def Let_def split: if_splits dest: request_run)
next
  fix st st' :: "'db yan"
  show "user_code st st' \<Longrightarrow> keeps_conn st st'"
    by (cases st; cases st') (simp add: keeps_conn_def conn_step_refl)
next
  fix s :: "'db sqlite" and accepts req
  let ?mk = "on_objects_of (bindS (prepare cf req) (\<lambda>prehandle. returnS (on_objects_of prehandle)))"
  have pre: "keeps keeps_conn pre" if "?mk st = (st', Inr pre)" for st st' pre
    using that keeps_conn_objects by (auto simp: on_objects_of_def bindS_apply split: prod.splits sum.splits)
  obtain s' r where s': "send cf accepts req s = (s', r)" by (cases "send cf accepts req s")
  then have "create_event accepts ?mk s = (s', r) \<or> commit_task accepts ?mk s = (s', r)"
    by (simp add: send_def Let_def split: if_splits)
  from conn.request_keeps [OF keeps_conn_objects pre this] s' show "keeps_conn (ft_state s) (ft_state (fst (send cf accepts req s)))" by simp
next
  fix st :: "'db yan" and job
  show "keeps_conn st (fst (run_job cf job st))" by (simp add: keeps_conn_def run_job_conn)
qed

lemma sqlite_reachable_ok: "sqlite_reachable cf s \<Longrightarrow> front_ok s \<and> one_conn (fst (ft_state s))"
proof -
  assume "sqlite_reachable cf s"
  then obtain url en where r: "rtranclp (front_step (run_job cf) user_code (send cf)) (Sqlite_init url en) s"
    by (auto simp: sqlite_reachable_def sqlite_step_def)
  have "one_conn (fst (ft_state (Sqlite_init url en)))" by (simp add: Sqlite_init_def one_conn_def ConnectionPool_def)
  with sq.steps_same [OF r] sq.steps_ok [OF r] show ?thesis
    by (simp add: Sqlite_init_def keeps_conn_def conn_step_def)
qed

text \<open>
  C14: in every reachable state the waiting requests are those of ascending futures, each of them handed
  out and not answered yet, and every request that was answered with a value was sent before all that
  wait: values arrive in the order of the requests.  No future is answered before it is handed out.
\<close>

theorem values_arrive_in_order:
  assumes "sqlite_reachable cf s"
  shows "sorted_wrt (<) (map fst (waiting s)) \<and>
    (\<forall>f \<in> fst ` set (waiting s). f < ft_next s \<and> ft_promises s f = Unset \<and>
       (\<forall>g r. ft_promises s g = Value_set r \<longrightarrow> g < f)) \<and>
    (\<forall>f. ft_promises s f \<noteq> Unset \<longrightarrow> f < ft_next s)"
  using sqlite_reachable_ok [OF assms] unfolding front_ok_def by (metis linorder_not_le)

text \<open>An answer is final: no later step of the user, of the library or of the worker changes it.\<close>

theorem answers_are_final:
  assumes "sqlite_reachable cf s" and "ft_promises s f \<noteq> Unset" and "rtranclp (sqlite_step cf) s s'"
  shows "ft_promises s' f = ft_promises s f"
  using sqlite_reachable_ok [OF assms(1)] assms(2,3) unfolding sqlite_step_def by (auto intro: sq.answer_final)


text \<open>
  C21: the one worker opens at most one connection, which the pool has back whenever it waits for the
  next request, and \<open>used_conns_\<close> counts it; once it is open no later request opens another or loses it.
\<close>

theorem one_connection_serves_all:
  assumes "sqlite_reachable cf s" and "rtranclp (sqlite_step cf) s s'"
  shows "length (pl_conns (fst (ft_state s))) \<le> 1 \<and>
    pl_used_conns (fst (ft_state s)) = of_nat (length (pl_conns (fst (ft_state s)))) \<and>
    (pl_conns (fst (ft_state s)) \<noteq> [] \<longrightarrow> fst (ft_state s') = fst (ft_state s))"
  using sqlite_reachable_ok [OF assms(1)] sq.steps_same [OF assms(2) [unfolded sqlite_step_def]]
  by (auto simp: keeps_conn_def conn_step_def one_conn_def)

section \<open>Progress\<close>


section \<open>A write from the user's call to the future\<close>

lemma send_job:
  assumes "one_queue s" and "\<not> tp_stop (ft_operators s)" and "accepts (waiting s)" and "ft_state s = (p, en)"
    and "is_event req" and "bindS (prepare cf req) (\<lambda>pre. pre) (en_world en) = (w, Inr job)"
  shows "\<exists>s'. send cf accepts req s = (s', Inr (ft_next s)) \<and> ft_state s' = (p, en\<lparr>en_world := w\<rparr>) \<and>
    ft_next s' = ft_next s + 1 \<and> ft_terminated s' = ft_terminated s \<and> waiting s' = waiting s @ [(ft_next s, job)]"
proof -
  from assms(6) obtain w1 pre where pre: "prepare cf req (en_world en) = (w1, Inr pre)" "pre w1 = (w, Inr job)"
    by (auto simp: bindS_apply split: prod.splits sum.splits)
  let ?s = "s\<lparr>ft_state := (p, en\<lparr>en_world := w\<rparr>)\<rparr>"
  obtain s1 u where h: "hand_over accepts job ?s = (s1, u)" by force
  have q: "one_queue ?s" "waiting ?s = waiting s" using assms(1) by (simp_all add: one_queue_def waiting_def)
  from hand_over_run [OF q(1) h] assms(2,3) q(2) have s1: "u = Inr ()" "waiting s1 = waiting s @ [(ft_next s, job)]"
    "ft_next s1 = ft_next s" "ft_terminated s1 = ft_terminated s" by (simp_all add: quiet_def)
  have yan: "ft_state s1 = (p, en\<lparr>en_world := w\<rparr>)" using h by (auto simp: hand_over_def split: prod.splits)
  have "send cf accepts req s = new_future Unset s1"
    using h s1(1) assms(4,5) pre
    by (simp add: send_def Let_def create_event_def bindS_apply on_state_def on_objects_of_def)
  with s1 yan show ?thesis by (simp add: new_future_def waiting_def)
qed

text \<open>
  A request that is made on an idle facade with its connection open, and the worker's next turn: what the
  handler does on the connection is what happens, and its answer is what the future holds.
\<close>

lemma job_turn:
  fixes s :: "'db sqlite"
  assumes "sqlite_reachable cf s" and "\<not> tp_stop (ft_operators s)" and "accepts []" and "waiting s = []"
    and "ft_state s = (p, en)" and "pl_conns p = [h]"
    and job: "is_event req" "bindS (prepare cf req) (\<lambda>pre. pre) (en_world en) = (w, Inr job)"
    and handler: "\<And>st. run_job cf job st = answered f (handle (cf_lib cf) m st)"
    and run: "m (lib_conn (cf_lib cf) h) \<lparr>ss_world = w, ss_db = en_db en, ss_stmts = en_caches en h\<rparr> = (t, r)"
  shows "\<exists>s1. send cf accepts req s = (s1, Inr (ft_next s)) \<and>
    (let s2 = worker_turn (run_job cf) s1 in
       ft_state s2 = (p, en\<lparr>en_world := ss_world t, en_db := ss_db t, en_caches := (en_caches en)(h := ss_stmts t)\<rparr>) \<and>
       (case r of
          Inr x \<Rightarrow> ft_promises s2 (ft_next s) = Value_set (f x)
        | Inl e \<Rightarrow> if exception_text e = None then ft_terminated s2 else ft_promises s2 (ft_next s) = Exception_set e))"
proof -
  have q: "one_queue s" using sqlite_reachable_ok [OF assms(1)] by (simp add: front_ok_def)
  have acc: "accepts (waiting s)" using assms(3,4) by simp
  from send_job [where accepts = accepts, OF q assms(2) acc assms(5) job] assms(4) obtain s1 where
    s1: "send cf accepts req s = (s1, Inr (ft_next s))" "ft_state s1 = (p, en\<lparr>en_world := w\<rparr>)"
      "waiting s1 = [(ft_next s, job)]" by auto
  let ?en = "en\<lparr>en_world := ss_world t, en_db := ss_db t, en_caches := (en_caches en)(h := ss_stmts t)\<rparr>"
  have "p\<lparr>pl_conns := [h]\<rparr> = p" using assms(6) by (cases p) simp
  then have "run_job cf job (ft_state s1) =
      ((p, ?en), map_outcome f (case r of Inr x \<Rightarrow> Set_value x | Inl e \<Rightarrow> failed e))"
    using handle_idle_run [OF assms(6), of m "cf_lib cf" "en\<lparr>en_world := w\<rparr>" t r] run
    by (simp add: handler s1(2) answered_def)
  note turn = worker_turn_run [where run = "run_job cf", OF s1(3) this]
  show ?thesis
    by (intro exI [of _ s1] conjI s1(1)) (auto simp: turn Let_def failed_def split: sum.split)
qed

lemma send_write:
  assumes "one_queue s" and "\<not> tp_stop (ft_operators s)" and "accepts (waiting s)"
    and "list_all (write_arg_ok (en_world (snd (ft_state s)))) args"
  shows "\<exists>s'. send cf accepts (Req_write args) s = (s', Inr (ft_next s)) \<and> ft_state s' = ft_state s \<and>
    ft_next s' = ft_next s + 1 \<and> ft_terminated s' = ft_terminated s \<and>
    waiting s' = waiting s @ [(ft_next s, J_write
      \<lparr>we_sqls = map (write_arg_text (en_world (snd (ft_state s)))) args,
       we_entity = of_nat (sum_list (map write_rows args))\<rparr>)]"
proof -
  obtain p en where y: "ft_state s = (p, en)" by force
  have "write_prehandle (cf_raw_size cf) (en_world en) WriteEvent args =
      Inr \<lparr>we_sqls = map (write_arg_text (en_world en)) args, we_entity = of_nat (sum_list (map write_rows args))\<rparr>"
    using write_prehandle_run [of "en_world en" args "cf_raw_size cf" WriteEvent] assms(4) y by (simp add: WriteEvent_def)
  then show ?thesis
    using send_job [where accepts = accepts, OF assms(1-3) y, of "Req_write args" cf] y by (simp add: prepare_def bindS_apply)
qed

text \<open>
  C2: a write of consistent objects through the facade, with the connection open and nothing else waiting:
  after the worker's next turn the database has executed the \<open>INSERT\<close> texts of the objects in order, and
  the future holds their number if the library accepted them all, and an exception otherwise.
\<close>

theorem write_end_to_end:
  fixes s :: "'db sqlite"
  assumes "sqlite_reachable cf s" and "\<not> tp_stop (ft_operators s)" and "accepts []" and "waiting s = []"
    and "ft_state s = (p, en)" and "pl_conns p = [h]" and "list_all (write_arg_ok (en_world en)) args"
  defines "api \<equiv> lib_conn (cf_lib cf) h" and "texts \<equiv> map (write_arg_text (en_world en)) args"
    and "n \<equiv> sum_list (map write_rows args)"
  shows "\<exists>s1. send cf accepts (Req_write args) s = (s1, Inr (ft_next s)) \<and>
    (let s2 = worker_turn (run_job cf) s1; accepted = (\<forall>i < length args. code_at api texts (en_db en) i = SQLITE_OK) in
       fst (ft_state s2) = p \<and>
       (accepted \<longrightarrow> ft_promises s2 (ft_next s) = Value_set (Re_int (scast (of_nat n :: 32 word))) \<and>
          en_db (snd (ft_state s2)) = db_after api texts (length args) (en_db en)) \<and>
       (\<not> accepted \<longrightarrow> (\<exists>e. ft_promises s2 (ft_next s) = Exception_set e) \<and>
          (\<exists>k \<le> length args. en_db (snd (ft_state s2)) = db_after api texts k (en_db en))))"
proof -
  note ok = sqlite_reachable_ok [OF assms(1)]
  let ?ev = "\<lparr>we_sqls = texts, we_entity = of_nat n\<rparr> :: write_event"
  have q: "one_queue s" using ok by (simp add: front_ok_def)
  have acc: "accepts (waiting s)" using assms(3,4) by simp
  have args: "list_all (write_arg_ok (en_world (snd (ft_state s)))) args" using assms(5,7) by simp
  from send_write [where accepts = accepts, OF q assms(2) acc args] assms(4,5) obtain s1 where
    s1: "send cf accepts (Req_write args) s = (s1, Inr (ft_next s))" "ft_state s1 = (p, en)"
      "waiting s1 = [(ft_next s, J_write ?ev)]"
    unfolding texts_def n_def by auto
  obtain p' en' oc where h: "write_handle (cf_lib cf) ?ev (p, en) = ((p', en'), oc)" by (metis prod.collapse)
  from write_handle_run [OF assms(6) h] obtain k where
    k: "k \<le> length args" "en' = en\<lparr>en_db := db_after api texts k (en_db en)\<rparr>"
    and out: "case oc of Set_value m \<Rightarrow> m = scast (of_nat n :: 32 word) \<and> k = length args \<and>
        (\<forall>i < k. code_at api texts (en_db en) i = SQLITE_OK)
      | Set_exception e \<Rightarrow> 0 < k \<and> code_at api texts (en_db en) (k - 1) \<noteq> SQLITE_OK
      | Escaped e \<Rightarrow> False"
    unfolding api_def texts_def by (cases oc) auto
  have "run_job cf (J_write ?ev) (ft_state s1) = ((p', en'), map_outcome Re_int oc)"
    using h s1(2) by (simp add: answered_def)
  note t = worker_turn_run [where run = "run_job cf", OF s1(3) this]
  have "conn_step p (fst (ft_state (worker_turn (run_job cf) s1)))"
    using sq.turn_same [of s1 cf] ok s1(2) assms(5) by (simp add: keeps_conn_def)
  then have "fst (ft_state (worker_turn (run_job cf) s1)) = p" using assms(6) by (simp add: conn_step_def)
  moreover have "en_db (snd (ft_state (worker_turn (run_job cf) s1))) = db_after api texts k (en_db en)"
    unfolding t using k(2) by simp
  moreover have "ft_promises (worker_turn (run_job cf) s1) (ft_next s) = Value_set (Re_int m)" if "oc = Set_value m" for m
    unfolding t by (simp add: that)
  moreover have "ft_promises (worker_turn (run_job cf) s1) (ft_next s) = Exception_set e" if "oc = Set_exception e" for e
    unfolding t by (simp add: that)
  moreover have "k - 1 < length args" if "0 < k" using that k(1) by simp
  ultimately show ?thesis
    using out s1(1) k(1) by (cases oc) (auto simp: Let_def)
qed

section \<open>A concrete run\<close>

definition sample_cf :: "string list config" where
  "sample_cf = \<lparr>cf_lib = picky_lib, cf_key_first = False, cf_raw_size = (\<lambda>_. 0), cf_fuel = 5\<rparr>"

definition sample_start :: "string list sqlite" where
  "sample_start = Sqlite_init ''db'' picky_engine"

lemma sample_start_simps [simp]:
  "ft_state sample_start = (ConnectionPool ''db'', picky_engine)" "ft_next sample_start = 0"
  "ft_promises sample_start f = Unset" "waiting sample_start = []" "\<not> ft_terminated sample_start"
  "\<not> tp_stop (ft_operators sample_start)" "tp_queues (ft_operators sample_start) = [[]]" "one_queue sample_start"
  "en_world picky_engine = sample_world"
  by (simp_all add: sample_start_def Sqlite_init_def picky_engine_def)

lemma sample_start_reachable: "sqlite_reachable sample_cf sample_start"
  unfolding sqlite_reachable_def sample_start_def by blast

lemma reachable_send:
  assumes "sqlite_reachable cf s" and "\<not> ft_terminated s" and "send cf accepts req s = (s', r)"
  shows "sqlite_reachable cf s'"
  using assms sq.steps_send unfolding sqlite_reachable_def sqlite_step_def by blast

lemma reachable_worker:
  assumes "sqlite_reachable cf s" and "\<not> ft_terminated s" and "waiting s \<noteq> []"
  shows "sqlite_reachable cf (worker_turn (run_job cf) s)"
  using assms sq.steps_worker unfolding sqlite_reachable_def sqlite_step_def by blast

text \<open>One write waits; the first write opens the connection.\<close>

lemma sample_sent:
  obtains s where "send sample_cf (\<lambda>_. True) (Req_write [W_obj ComponentDB 0]) sample_start = (s, Inr 0)"
    and "sqlite_reachable sample_cf s" and "map fst (waiting s) = [0]" and "\<not> ft_terminated s" and "ft_next s = 1"
proof -
  have "list_all (write_arg_ok (en_world (snd (ft_state sample_start)))) [W_obj ComponentDB 0]"
    using sample_written by simp
  from send_write [where accepts = "\<lambda>_. True", OF _ _ _ this, of sample_cf] obtain s where
    s: "send sample_cf (\<lambda>_. True) (Req_write [W_obj ComponentDB 0]) sample_start = (s, Inr 0)"
      "map fst (waiting s) = [0]" "\<not> ft_terminated s" "ft_next s = 1" by auto
  show ?thesis by (rule that [OF s(1) reachable_send [OF sample_start_reachable _ s(1)] s(2-4)]) simp
qed

definition sample_opened :: "string list sqlite" where
  "sample_opened = worker_turn (run_job sample_cf) (fst (send sample_cf (\<lambda>_. True) (Req_write []) sample_start))"

definition pragma_log :: "string list" where
  "pragma_log = [''PRAGMA auto_vacuum = FULL;'', ''PRAGMA busy_timeout = 1000;'', ''PRAGMA journal_mode = WAL;'',
     ''PRAGMA synchronous = FULL;'']"

lemma sample_opens:
  "write_handle picky_lib \<lparr>we_sqls = [], we_entity = 0\<rparr> (ConnectionPool ''db'', picky_engine) =
     (((idle_pool [0])\<lparr>pl_used_conns := 1\<rparr>, picky_engine\<lparr>en_db := pragma_log\<rparr>), Set_value 0)"
  by (simp add: write_handle_def handle_def use_connection_def with_connection_def pool_get_def pool_release_def
      on_connection_run idle_pool_def ConnectionPool_def bindS_apply picky_lib_def picky_engine_def new_connection_def
      SqliteContext_def sqlite_pragmas_def c_str_def SQLITE_OK_def fun_eq_iff pragma_log_def)

text \<open>A new facade after an empty write, when the connection opens.\<close>

lemma opened_run:
  assumes opens: "write_handle (cf_lib cf) \<lparr>we_sqls = [], we_entity = 0\<rparr> (ConnectionPool ''db'', en) = (st, Set_value 0)"
    and s': "s' = worker_turn (run_job cf) (fst (send cf (\<lambda>_. True) (Req_write []) (Sqlite_init ''db'' en)))"
  shows "sqlite_reachable cf s'" and "waiting s' = []" and "\<not> tp_stop (ft_operators s')" and "ft_state s' = st"
    and "ft_promises s' 0 = Value_set (Re_int 0)" and "ft_next s' = 1" and "\<not> ft_terminated s'"
proof -
  let ?start = "Sqlite_init ''db'' en"
  have start: "ft_state ?start = (ConnectionPool ''db'', en)" "ft_next ?start = 0" "waiting ?start = []" "\<not> ft_terminated ?start"
    "\<not> tp_stop (ft_operators ?start)" "one_queue ?start" by (simp_all add: Sqlite_init_def)
  have first: "sqlite_reachable cf ?start" unfolding sqlite_reachable_def by blast
  from send_write [where accepts = "\<lambda>_. True" and s = ?start and cf = cf and args = "[]"] start obtain s where
    s: "send cf (\<lambda>_. True) (Req_write []) ?start = (s, Inr 0)" "ft_state s = ft_state ?start"
      "waiting s = [(0, J_write \<lparr>we_sqls = [], we_entity = 0\<rparr>)]" "\<not> ft_terminated s" "ft_next s = 1" by auto
  note reach = reachable_send [OF first start(4) s(1)]
  have q: "one_queue s" "tp_stop (ft_operators s) = tp_stop (ft_operators ?start)"
    using sq.send_effect [OF start(6) s(1)] by (auto simp: quiet_def)
  have o: "s' = worker_turn (run_job cf) s" by (simp add: s' s(1))
  have j: "run_job cf (J_write \<lparr>we_sqls = [], we_entity = 0\<rparr>) (ft_state s) = (st, Set_value (Re_int 0))"
    by (simp add: s(2) start(1) opens answered_def)
  show "sqlite_reachable cf s'"
    unfolding o using reach s(3,4) by (intro reachable_worker) simp_all
  show "waiting s' = []" "\<not> tp_stop (ft_operators s')" "ft_state s' = st" "ft_promises s' 0 = Value_set (Re_int 0)"
    "ft_next s' = 1" "\<not> ft_terminated s'"
    unfolding o worker_turn_run [where run = "run_job cf", OF s(3) j] using q(2) s(4,5) start(5) by (simp_all add: waiting_def)
qed

lemma sample_opened_run:
  "sqlite_reachable sample_cf sample_opened" "waiting sample_opened = []" "\<not> tp_stop (ft_operators sample_opened)"
  "ft_state sample_opened = ((idle_pool [0])\<lparr>pl_used_conns := 1\<rparr>, picky_engine\<lparr>en_db := pragma_log\<rparr>)"
  "ft_promises sample_opened 0 = Value_set (Re_int 0)" "ft_next sample_opened = 1"
  "\<not> ft_terminated sample_opened"
  by (rule opened_run [OF _ sample_opened_def [unfolded sample_start_def]], simp add: sample_cf_def sample_opens)+

theorem values_arrive_in_order_witness:
  "\<exists>s. sqlite_reachable sample_cf s \<and> map fst (waiting s) = [0] \<and> ft_promises s 0 = Unset"
proof -
  obtain s where s: "sqlite_reachable sample_cf s" "map fst (waiting s) = [0]" by (rule sample_sent)
  then have "0 \<in> fst ` set (waiting s)" by (metis list.set_intros(1) set_map)
  with values_arrive_in_order [OF s(1)] have "ft_promises s 0 = Unset" by blast
  with s show ?thesis by (intro exI [of _ s]) simp
qed

lemma sample_insert: "write_arg_text sample_world (W_obj ComponentDB 0) =
    ''INSERT INTO tc (v) VALUES ('' @ [CHR 0x27] @ ''v5.6'' @ [CHR 0x27] @ '');''"
  by (simp add: insert_text_def sample_rows)

lemma sample_second:
  obtains s where "send sample_cf (\<lambda>_. True) (Req_write [W_obj ComponentDB 0]) sample_opened = (s, Inr 1)"
    and "sqlite_step sample_cf sample_opened s" and "map fst (waiting s) = [1]"
proof -
  have "one_queue sample_opened" using sqlite_reachable_ok [OF sample_opened_run(1)] by (simp add: front_ok_def)
  moreover have "list_all (write_arg_ok (en_world (snd (ft_state sample_opened)))) [W_obj ComponentDB 0]"
    using sample_written by (simp add: sample_opened_run)
  ultimately obtain s where s: "send sample_cf (\<lambda>_. True) (Req_write [W_obj ComponentDB 0]) sample_opened = (s, Inr 1)"
    "map fst (waiting s) = [1]"
    using send_write [where accepts = "\<lambda>_. True" and s = sample_opened and args = "[W_obj ComponentDB 0]" and cf = sample_cf]
      sample_opened_run by auto
  have "sqlite_step sample_cf sample_opened s"
    using front_step.request [OF sample_opened_run(7), of "run_job sample_cf" user_code "send sample_cf" "\<lambda>_. True"
        "Req_write [W_obj ComponentDB 0]"] s(1) unfolding sqlite_step_def by simp
  from that [OF s(1) this s(2)] show ?thesis .
qed

theorem answers_are_final_witness:
  "\<exists>s. rtranclp (sqlite_step sample_cf) sample_opened s \<and> map fst (waiting s) = [1] \<and>
     ft_promises s 0 = Value_set (Re_int 0)"
proof -
  obtain s where s: "sqlite_step sample_cf sample_opened s" "map fst (waiting s) = [1]" by (rule sample_second)
  from s(1) have r: "rtranclp (sqlite_step sample_cf) sample_opened s" by (rule r_into_rtranclp)
  have "ft_promises sample_opened 0 \<noteq> Unset" by (simp add: sample_opened_run)
  from answers_are_final [OF sample_opened_run(1) this r] r s(2) show ?thesis
    by (intro exI [of _ s]) (simp add: sample_opened_run)
qed


theorem one_connection_serves_all_witness:
  "\<exists>s. rtranclp (sqlite_step sample_cf) sample_opened s \<and> map fst (waiting s) = [1] \<and> pl_conns (fst (ft_state s)) = [0]"
proof -
  obtain s where s: "sqlite_step sample_cf sample_opened s" "map fst (waiting s) = [1]" by (rule sample_second)
  from s(1) have r: "rtranclp (sqlite_step sample_cf) sample_opened s" by (rule r_into_rtranclp)
  from one_connection_serves_all [OF sample_opened_run(1) r] r s(2) show ?thesis
    by (intro exI [of _ s]) (simp add: sample_opened_run)
qed


text \<open>With the connection open, the object at 0 is inserted and the future holds the number 1.\<close>

theorem write_end_to_end_witness:
  "\<exists>s1. send sample_cf (\<lambda>_. True) (Req_write [W_obj ComponentDB 0]) sample_opened = (s1, Inr 1) \<and>
     ft_promises (worker_turn (run_job sample_cf) s1) 1 = Value_set (Re_int 1) \<and>
     en_db (snd (ft_state (worker_turn (run_job sample_cf) s1))) =
       pragma_log @ [''INSERT INTO tc (v) VALUES ('' @ [CHR 0x27] @ ''v5.6'' @ [CHR 0x27] @ '');'']"
proof -
  let ?api = "lib_conn (cf_lib sample_cf) 0" and ?t = "write_arg_text sample_world (W_obj ComponentDB 0)"
  have c: "c_str ?t = ?t" "?t \<noteq> ''x;''" unfolding sample_insert by (simp_all add: c_str_def)
  have "list_all (write_arg_ok (en_world (picky_engine\<lparr>en_db := pragma_log\<rparr>))) [W_obj ComponentDB 0]"
    using sample_written by simp
  from write_end_to_end [where accepts = "\<lambda>_. True", OF sample_opened_run(1,3) _ sample_opened_run(2,4) _ this, of 0]
  obtain s1 where s1: "send sample_cf (\<lambda>_. True) (Req_write [W_obj ComponentDB 0]) sample_opened = (s1, Inr 1)"
    and run: "code_at ?api [?t] pragma_log 0 = SQLITE_OK \<longrightarrow>
       ft_promises (worker_turn (run_job sample_cf) s1) 1 = Value_set (Re_int 1) \<and>
       en_db (snd (ft_state (worker_turn (run_job sample_cf) s1))) = db_after ?api [?t] 1 pragma_log"
    by (auto simp: sample_opened_run Let_def)
  have "code_at ?api [?t] pragma_log 0 = SQLITE_OK" "db_after ?api [?t] 1 pragma_log = pragma_log @ [?t]"
    using c by (simp_all add: sample_cf_def picky_lib_def SQLITE_OK_def)
  with s1 run show ?thesis unfolding sample_insert by auto
qed

end
