(* ===== verification/Yan_Teardown.thy ===== *)
theory Yan_Teardown
  imports Yan_Facade Yan_MongoDB
begin

text \<open>
  The end of a facade: \<open>~Sqlite\<close> and \<open>~MongoDB\<close>, which destroy their members in the reverse order of their
  declaration, with the destructors of \<open>ThreadPool\<close> (\<open>src/com/thread_pool.cpp\<close>), \<open>ConnectionPool\<close> and
  \<open>SqliteContext\<close>, while the worker is still running.  The events keep a reference to the facade's pointer
  to its pool or context (\<open>const SqliteConnPoolPtr& pool_\<close>), so that the order decides whether a request
  that waits is run on an object that no longer exists.
\<close>

section \<open>Members and their destruction\<close>

text \<open>The members of both facades: the worker threads, and what the requests are run on.\<close>

datatype facade_member = M_operators | M_shared

definition Sqlite_members :: "facade_member list" where
  "Sqlite_members = [M_operators, M_shared]"

definition MongoDB_members :: "facade_member list" where
  "MongoDB_members = [M_operators, M_shared]"

text \<open>
  \<open>sqlite3_close_v2\<close> is \<open>close\<close>; the map of statements goes with the context.  The constructor throws
  when it has no connection, so that \<open>conn_\<close> is never null here.
\<close>

definition SqliteContext_dtor :: "(nat \<Rightarrow> 'db \<Rightarrow> int \<times> 'db) \<Rightarrow> nat \<Rightarrow> 'db engine \<Rightarrow> 'db engine" where
  "SqliteContext_dtor close h en =
     (case close h (en_db en) of (ret, db) \<Rightarrow> en\<lparr>en_db := db, en_caches := (en_caches en)(h := Map.empty)\<rparr>)"

definition ConnectionPool_dtor :: "(nat \<Rightarrow> 'db \<Rightarrow> int \<times> 'db) \<Rightarrow> 'db yan \<Rightarrow> 'db yan" where
  "ConnectionPool_dtor close = (\<lambda>(p, en). (p\<lparr>pl_conns := []\<rparr>, fold (SqliteContext_dtor close) (pl_conns p) en))"

definition MongoContext_dtor :: "mongo_context \<times> 'db mongo \<Rightarrow> mongo_context \<times> 'db mongo" where
  "MongoContext_dtor = (\<lambda>(mc, st). (mc\<lparr>mc_pool := False\<rparr>, st))"

text \<open>
  A facade with the members that still exist, in the order of their declaration.  \<open>ow_undefined\<close>: the worker
  has used a member that does not, and nothing is known of what follows.
\<close>

record ('s, 'j) owner =
  ow_front :: "('s, 'j) front"
  ow_members :: "facade_member list"
  ow_dying :: bool
  ow_undefined :: bool

definition owner :: "facade_member list \<Rightarrow> ('s, 'j) front \<Rightarrow> ('s, 'j) owner" where
  "owner ms s = \<lparr>ow_front = s, ow_members = ms, ow_dying = False, ow_undefined = False\<rparr>"

definition running :: "('s, 'j) owner \<Rightarrow> bool" where
  "running f \<longleftrightarrow> \<not> ow_undefined f \<and> \<not> ft_terminated (ow_front f)"

text \<open>
  Nobody calls \<open>stop\<close> on the private \<open>operators_\<close> before the destructor does; that one sets the flag and
  then waits until the worker has found its queue empty.
\<close>

inductive life_step ::
  "('s \<Rightarrow> 's) \<Rightarrow> ('j \<Rightarrow> 's \<Rightarrow> 's \<times> reply outcome) \<Rightarrow> ('s \<Rightarrow> 's \<Rightarrow> bool) \<Rightarrow>
   (((nat \<times> 'j) list \<Rightarrow> bool) \<Rightarrow> 'r \<Rightarrow> (('s, 'j) front, nat) sres) \<Rightarrow> ('s, 'j) owner \<Rightarrow> ('s, 'j) owner \<Rightarrow> bool"
  for shared_dtor run touch post where
  in_use: "running f \<Longrightarrow> \<not> ow_dying f \<Longrightarrow> front_step run touch post (ow_front f) s \<Longrightarrow> \<not> tp_stop (ft_operators s) \<Longrightarrow>
    life_step shared_dtor run touch post f (f\<lparr>ow_front := s\<rparr>)"
| destructor: "running f \<Longrightarrow> \<not> ow_dying f \<Longrightarrow> life_step shared_dtor run touch post f (f\<lparr>ow_dying := True\<rparr>)"
| shared_dies: "running f \<Longrightarrow> ow_dying f \<Longrightarrow> ow_members f = ms @ [M_shared] \<Longrightarrow>
    life_step shared_dtor run touch post f
      (f\<lparr>ow_members := ms, ow_front := (ow_front f)\<lparr>ft_state := shared_dtor (ft_state (ow_front f))\<rparr>\<rparr>)"
| operators_stop: "running f \<Longrightarrow> ow_dying f \<Longrightarrow> ow_members f = ms @ [M_operators] \<Longrightarrow> s = ow_front f \<Longrightarrow>
    \<not> tp_stop (ft_operators s) \<Longrightarrow>
    life_step shared_dtor run touch post f (f\<lparr>ow_front := s\<lparr>ft_operators := (ft_operators s)\<lparr>tp_stop := True\<rparr>\<rparr>\<rparr>)"
| operators_joined: "running f \<Longrightarrow> ow_dying f \<Longrightarrow> ow_members f = ms @ [M_operators] \<Longrightarrow>
    tp_stop (ft_operators (ow_front f)) \<Longrightarrow> waiting (ow_front f) = [] \<Longrightarrow>
    life_step shared_dtor run touch post f (f\<lparr>ow_members := ms\<rparr>)"
| worker: "running f \<Longrightarrow> ow_dying f \<Longrightarrow> M_operators \<in> set (ow_members f) \<Longrightarrow> waiting (ow_front f) \<noteq> [] \<Longrightarrow>
    M_shared \<in> set (ow_members f) \<Longrightarrow>
    life_step shared_dtor run touch post f (f\<lparr>ow_front := worker_turn run (ow_front f)\<rparr>)"
| worker_dangling: "running f \<Longrightarrow> ow_dying f \<Longrightarrow> M_operators \<in> set (ow_members f) \<Longrightarrow> waiting (ow_front f) \<noteq> [] \<Longrightarrow>
    M_shared \<notin> set (ow_members f) \<Longrightarrow>
    life_step shared_dtor run touch post f (f\<lparr>ow_undefined := True\<rparr>)"



section \<open>After the pool is gone\<close>

lemma stop_waiting [simp]: "waiting (s\<lparr>ft_operators := (ft_operators s)\<lparr>tp_stop := x\<rparr>\<rparr>) = waiting s"
  "waiting (s\<lparr>ft_state := st\<rparr>) = waiting s"
  by (simp_all add: waiting_def)

lemma owner_simps [simp]:
  "ow_front (owner ms s) = s" "ow_members (owner ms s) = ms" "\<not> ow_dying (owner ms s)" "\<not> ow_undefined (owner ms s)"
  by (simp_all add: owner_def)

definition pool_first :: "('s, 'j) owner \<Rightarrow> bool" where
  "pool_first f \<longleftrightarrow>
     (ow_members f = [M_operators, M_shared] \<and> \<not> ow_undefined f \<and> \<not> tp_stop (ft_operators (ow_front f))) \<or>
     (ow_members f = [M_operators] \<and> ow_dying f) \<or>
     (ow_members f = [] \<and> ow_dying f \<and> waiting (ow_front f) = [] \<and> \<not> ow_undefined f)"

lemma snoc_pair: "[a, b] = xs @ [c] \<longleftrightarrow> xs = [a] \<and> c = b"
  by (cases xs) auto

lemma worker_turn_stop [simp]: "tp_stop (ft_operators (worker_turn run s)) = tp_stop (ft_operators s)"
proof -
  have "tp_stop (ft_operators (fulfil f oc s)) = tp_stop (ft_operators s)" for f oc s
    by (cases oc) simp_all
  then show ?thesis by (simp add: worker_turn_def split: list.split prod.split)
qed

lemma life_step_pool_first: "life_step shared_dtor run touch post f f' \<Longrightarrow> pool_first f \<Longrightarrow> pool_first f'"
  by (induction rule: life_step.induct) (auto simp: pool_first_def running_def snoc_pair)

text \<open>A request that waits when the pool is destroyed: the destructor cannot end.\<close>

lemma stuck_step:
  assumes "life_step shared_dtor run touch post f f'" and "ow_members f = [M_operators]" and "ow_dying f"
    and "waiting (ow_front f) \<noteq> []"
  shows "ow_members f' = [M_operators] \<and> ow_dying f' \<and> waiting (ow_front f') \<noteq> []"
  using assms by (cases rule: life_step.cases) auto

lemma stuck_steps:
  assumes "rtranclp (life_step shared_dtor run touch post) f f'" and "ow_members f = [M_operators]" and "ow_dying f"
    and "waiting (ow_front f) \<noteq> []"
  shows "ow_members f' = [M_operators] \<and> ow_dying f' \<and> waiting (ow_front f') \<noteq> []"
  using assms by (induction rule: rtranclp_induct) (auto dest: stuck_step)

text \<open>No request waits when it is destroyed: nothing of the front end changes but its stop flag.\<close>

definition same_answers :: "('s, 'j) owner \<Rightarrow> ('s, 'j) owner \<Rightarrow> bool" where
  "same_answers f f' \<longleftrightarrow> ft_promises (ow_front f') = ft_promises (ow_front f) \<and> ft_state (ow_front f') = ft_state (ow_front f)"

definition closing :: "('s, 'j) owner \<Rightarrow> bool" where
  "closing f \<longleftrightarrow> ow_members f \<in> {[M_operators], []} \<and> ow_dying f \<and> waiting (ow_front f) = [] \<and> running f"

lemma closing_step:
  assumes "life_step shared_dtor run touch post f f'" and "closing f"
  shows "closing f' \<and> same_answers f f'"
  using assms by (cases rule: life_step.cases) (auto simp: closing_def same_answers_def running_def)

lemma closing_steps:
  assumes "rtranclp (life_step shared_dtor run touch post) f f'" and "closing f"
  shows "closing f' \<and> same_answers f f'"
  using assms(1)
proof (induction rule: rtranclp_induct)
  case base
  with assms(2) show ?case by (simp add: same_answers_def)
next
  case (step g g')
  from closing_step [OF step(2)] step(3) show ?case by (auto simp: same_answers_def)
qed

lemma closing_ends:
  assumes "closing f"
  shows "\<exists>f'. rtranclp (life_step shared_dtor run touch post) f f' \<and> ow_members f' = []"
proof (cases "ow_members f = []")
  case True
  then show ?thesis by blast
next
  case False
  with assms have m: "ow_members f = [] @ [M_operators]" "running f" "ow_dying f" "waiting (ow_front f) = []"
    by (auto simp: closing_def)
  let ?s = "ow_front f"
  let ?f = "f\<lparr>ow_front := ?s\<lparr>ft_operators := (ft_operators ?s)\<lparr>tp_stop := True\<rparr>\<rparr>\<rparr>"
  have stopped: "rtranclp (life_step shared_dtor run touch post) f f1 \<Longrightarrow> f1 = ?f \<or> f1 = f \<Longrightarrow>
      tp_stop (ft_operators (ow_front f1)) \<Longrightarrow> ?thesis" for f1
    using m life_step.operators_joined [of f1 "[]" shared_dtor run touch post]
    by (auto simp: running_def intro!: exI [of _ "f1\<lparr>ow_members := []\<rparr>"] elim: rtranclp.rtrancl_into_rtrancl)
  show ?thesis
  proof (cases "tp_stop (ft_operators ?s)")
    case True
    then show ?thesis by (intro stopped [of f]) simp_all
  next
    case False
    from life_step.operators_stop [OF m(2,3,1) refl False, of shared_dtor run touch post]
    show ?thesis by (intro stopped [of ?f]) (auto intro: r_into_rtranclp)
  qed
qed

section \<open>The facades\<close>

definition sqlite_life :: "'db config \<Rightarrow> (nat \<Rightarrow> 'db \<Rightarrow> int \<times> 'db) \<Rightarrow> ('db yan, job) owner \<Rightarrow> ('db yan, job) owner \<Rightarrow> bool" where
  "sqlite_life cf close = life_step (ConnectionPool_dtor close) (run_job cf) user_code (send cf)"

definition sqlite_lives :: "'db config \<Rightarrow> (nat \<Rightarrow> 'db \<Rightarrow> int \<times> 'db) \<Rightarrow> ('db yan, job) owner \<Rightarrow> bool" where
  "sqlite_lives cf close f \<longleftrightarrow> (\<exists>url en. rtranclp (sqlite_life cf close) (owner Sqlite_members (Sqlite_init url en)) f)"

definition mongodb_life :: "('d, 'db) mongo_config \<Rightarrow> (mongo_context \<times> 'db mongo, 'd mongo_job) owner \<Rightarrow>
    (mongo_context \<times> 'db mongo, 'd mongo_job) owner \<Rightarrow> bool" where
  "mongodb_life cf = life_step MongoContext_dtor (mongo_run_job cf) mongo_user (mongo_send cf)"

definition mongodb_lives :: "('d, 'db) mongo_config \<Rightarrow> (mongo_context \<times> 'db mongo, 'd mongo_job) owner \<Rightarrow> bool" where
  "mongodb_lives cf f \<longleftrightarrow> (\<exists>uri st0 st code s0. MongoDB_init cf uri st0 = (st, Inr (code, s0)) \<and>
     rtranclp (mongodb_life cf) (owner MongoDB_members s0) f)"

text \<open>What the destructor is bound to once the pool, or the context, is gone.\<close>

lemma fate_after_the_pool:
  assumes "pool_first f" and "ow_members f = [M_operators]" and "running f"
  shows "if waiting (ow_front f) = []
    then (\<forall>f'. rtranclp (life_step shared_dtor run touch post) f f' \<longrightarrow> \<not> ow_undefined f' \<and> same_answers f f' \<and>
           (\<exists>f''. rtranclp (life_step shared_dtor run touch post) f' f'' \<and> ow_members f'' = []))
    else (\<exists>f'. life_step shared_dtor run touch post f f' \<and> ow_undefined f') \<and>
         (\<forall>f'. rtranclp (life_step shared_dtor run touch post) f f' \<longrightarrow> ow_members f' \<noteq> [])"
proof -
  from assms have d: "ow_dying f" by (simp add: pool_first_def)
  show ?thesis
  proof (cases "waiting (ow_front f) = []")
    case True
    with assms d have "closing f" by (simp add: closing_def)
    then have "\<not> ow_undefined f' \<and> same_answers f f' \<and>
        (\<exists>f''. rtranclp (life_step shared_dtor run touch post) f' f'' \<and> ow_members f'' = [])"
      if "rtranclp (life_step shared_dtor run touch post) f f'" for f'
      using closing_steps [OF that] closing_ends [of f'] by (simp add: closing_def running_def)
    with True show ?thesis by simp
  next
    case False
    from life_step.worker_dangling [OF assms(3) d _ False, of shared_dtor run touch post] assms(2)
    have "\<exists>f'. life_step shared_dtor run touch post f f' \<and> ow_undefined f'" by (intro exI conjI) auto
    moreover have "ow_members f' \<noteq> []" if "rtranclp (life_step shared_dtor run touch post) f f'" for f'
      using stuck_steps [OF that assms(2) d False] by simp
    ultimately show ?thesis using False by simp
  qed
qed

lemma lives_pool_first:
  assumes "rtranclp (life_step shared_dtor run touch post) (owner [M_operators, M_shared] s) f" and "\<not> tp_stop (ft_operators s)"
  shows "pool_first f"
  using assms by (induction rule: rtranclp_induct) (auto simp: pool_first_def dest: life_step_pool_first)

lemma sqlite_lives_pool_first: "sqlite_lives cf close f \<Longrightarrow> pool_first f"
  unfolding sqlite_lives_def sqlite_life_def Sqlite_members_def Sqlite_init_def
  by (auto intro: lives_pool_first)


text \<open>\<open>~MongoDB\<close> destroys its context first in the same way.\<close>

lemma mongodb_destructor_needs_an_empty_queue:
  assumes "mongodb_lives cf f" and "ow_members f = [M_operators]" and "running f"
  shows "if waiting (ow_front f) = []
    then (\<forall>f'. rtranclp (mongodb_life cf) f f' \<longrightarrow> \<not> ow_undefined f' \<and> same_answers f f' \<and>
           (\<exists>f''. rtranclp (mongodb_life cf) f' f'' \<and> ow_members f'' = []))
    else (\<exists>f'. mongodb_life cf f f' \<and> ow_undefined f') \<and>
         (\<forall>f'. rtranclp (mongodb_life cf) f f' \<longrightarrow> ow_members f' \<noteq> [])"
proof -
  from assms(1) obtain uri st0 st code s0 where i: "MongoDB_init cf uri st0 = (st, Inr (code, s0))"
    and r: "rtranclp (mongodb_life cf) (owner MongoDB_members s0) f" by (auto simp: mongodb_lives_def)
  from MongoDB_init_run [OF i] obtain mc where "s0 = front_start (mc, st)" by blast
  then have "\<not> tp_stop (ft_operators s0)" by simp
  with r have "pool_first f" unfolding mongodb_life_def MongoDB_members_def by (rule lives_pool_first)
  from fate_after_the_pool [OF this assms(2,3)] show ?thesis unfolding mongodb_life_def .
qed

text \<open>
  With the members declared in the other order the worker is stopped, and has run everything that waits,
  before the pool goes: nothing undefined can happen, and every request is answered in the end.
\<close>

definition worker_first :: "('s, 'j) owner \<Rightarrow> bool" where
  "worker_first f \<longleftrightarrow>
     (ow_members f = [M_shared, M_operators] \<and> \<not> ow_undefined f) \<or>
     (ow_members f = [M_shared] \<and> waiting (ow_front f) = [] \<and> ow_dying f \<and> \<not> ow_undefined f) \<or>
     (ow_members f = [] \<and> waiting (ow_front f) = [] \<and> ow_dying f \<and> \<not> ow_undefined f)"

lemma life_step_worker_first: "life_step shared_dtor run touch post f f' \<Longrightarrow> worker_first f \<Longrightarrow> worker_first f'"
  by (induction rule: life_step.induct) (auto simp: worker_first_def running_def snoc_pair)

lemma other_order_is_safe:
  assumes "rtranclp (life_step shared_dtor run touch post) (owner [M_shared, M_operators] s) f"
  shows "\<not> ow_undefined f \<and> (ow_members f = [] \<longrightarrow> waiting (ow_front f) = [])"
proof -
  from assms have "worker_first f"
    by (induction rule: rtranclp_induct) (simp add: worker_first_def, rule life_step_worker_first)
  then show ?thesis by (auto simp: worker_first_def)
qed

text \<open>The destructor of the pool closes what the pool holds, each connection once, and drops their statements.\<close>

lemma pool_closes_its_connections:
  assumes "ConnectionPool_dtor close (p, en) = (p', en')"
  shows "pl_conns p' = [] \<and> en_world en' = en_world en \<and>
    en_db en' = fold (\<lambda>h db. snd (close h db)) (pl_conns p) (en_db en) \<and>
    (\<forall>h. en_caches en' h = (if h \<in> set (pl_conns p) then Map.empty else en_caches en h))"
proof -
  have "en_world (fold (SqliteContext_dtor close) hs en) = en_world en \<and>
      en_db (fold (SqliteContext_dtor close) hs en) = fold (\<lambda>h db. snd (close h db)) hs (en_db en) \<and>
      (\<forall>h. en_caches (fold (SqliteContext_dtor close) hs en) h = (if h \<in> set hs then Map.empty else en_caches en h))" for hs
    by (induction hs arbitrary: en) (auto simp: SqliteContext_dtor_def split: prod.split)
  with assms show ?thesis by (auto simp: ConnectionPool_dtor_def)
qed

section \<open>Concrete instances\<close>

text \<open>A facade is destroyed while the write of the object at 0 waits.\<close>

lemma sample_destroyed:
  obtains f where "sqlite_lives sample_cf close f" and "ow_members f = [M_operators]" and "running f"
    and "waiting (ow_front f) \<noteq> []"
proof -
  have "list_all (write_arg_ok (en_world (snd (ft_state sample_start)))) [W_obj ComponentDB 0]"
    using sample_written by simp
  from send_write [where accepts = "\<lambda>_. True", OF _ _ _ this, of sample_cf] obtain s where
    s: "send sample_cf (\<lambda>_. True) (Req_write [W_obj ComponentDB 0]) sample_start = (s, Inr 0)"
      "waiting s \<noteq> []" "\<not> ft_terminated s" by auto
  have stop: "\<not> tp_stop (ft_operators s)" using sq.send_effect [OF _ s(1)] by (auto simp: quiet_def)
  let ?life = "sqlite_life sample_cf close" and ?f0 = "owner Sqlite_members sample_start"
  let ?f1 = "?f0\<lparr>ow_front := s\<rparr>" and ?f2 = "?f0\<lparr>ow_front := s, ow_dying := True\<rparr>"
  have run: "running ?f0" "running ?f1" "running ?f2" using s(3) by (simp_all add: running_def)
  have "?life ?f0 ?f1" unfolding sqlite_life_def
    using front_step.request [of sample_start "run_job sample_cf" user_code "send sample_cf" "\<lambda>_. True"
        "Req_write [W_obj ComponentDB 0]"] s(1) stop
    by (intro life_step.in_use [OF run(1)]) simp_all
  moreover have "?life ?f1 ?f2" unfolding sqlite_life_def
    using life_step.destructor [OF run(2), where shared_dtor = "ConnectionPool_dtor close"] by simp
  moreover have m: "ow_members ?f2 = [M_operators] @ [M_shared]" "ow_dying ?f2" by (simp_all add: Sqlite_members_def)
  note dies = life_step.shared_dies [OF run(3) m(2,1), where shared_dtor = "ConnectionPool_dtor close"]
  ultimately have "sqlite_lives sample_cf close
      (?f2\<lparr>ow_members := [M_operators], ow_front := s\<lparr>ft_state := ConnectionPool_dtor close (ft_state s)\<rparr>\<rparr>)"
    using dies [of "run_job sample_cf" user_code "send sample_cf"]
    unfolding sqlite_lives_def sample_start_def sqlite_life_def
    by (intro exI [of _ "''db''"] exI [of _ picky_engine])
      (auto intro: rtranclp.rtrancl_into_rtrancl)
  then show thesis by (rule that) (use s(2,3) in \<open>simp_all add: running_def\<close>)
qed


end
