(* ===== verification/Yan_Lifetime.thy ===== *)
theory Yan_Lifetime
  imports Yan_Events
begin

text \<open>
  The life of the unions, joins and copies (\<open>sqlite_union.h\<close>, \<open>sqlite_join.h\<close>, \<open>sqlite_copy.h\<close> and the calls
  of \<open>sqlite.h\<close> that make them).  The facade hands out a plain reference to an object that a
  \<open>shared_ptr\<close> owns, and the task that \<open>commit\<close> submits has captured \<open>this\<close>; what keeps the object alive
  is the \<open>shared_ptr\<close> to itself that \<open>hold\<close> stores in it.  The conditions are allocated with \<open>new\<close> and
  deleted by the destructors.
\<close>

section \<open>Objects and their owners\<close>

text \<open>\<open>bd_refs\<close>: the \<open>shared_ptr\<close>s to the object; \<open>bd_ptr\<close>: its member \<open>ptr_\<close> is one of them.\<close>

datatype builder_kind = B_union | B_join | B_copy

record builder =
  bd_kind :: builder_kind
  bd_refs :: nat
  bd_ptr :: bool
  bd_joincondlist :: "addr list"
  bd_condlist :: "addr list"
  bd_column :: "addr option"

definition owned_conds :: "builder \<Rightarrow> addr set" where
  "owned_conds b = set (bd_joincondlist b) \<union> set (bd_condlist b) \<union> set_option (bd_column b)"

text \<open>
  The objects, the conditions, the tasks that wait for the worker, and the references that the user has got.
\<close>

record builders =
  bs_objs :: "addr \<Rightarrow> builder option"
  bs_conds :: "addr set"
  bs_next :: addr
  bs_tasks :: "addr list"
  bs_user :: "addr list"

definition no_builders :: builders where
  "no_builders = \<lparr>bs_objs = (\<lambda>_. None), bs_conds = {}, bs_next = 0, bs_tasks = [], bs_user = []\<rparr>"

definition make_builder :: "builder_kind \<Rightarrow> builders \<Rightarrow> addr \<times> builders" where
  "make_builder k s =
     (bs_next s, s\<lparr>bs_next := bs_next s + 1, bs_objs := (bs_objs s)(bs_next s \<mapsto>
        \<lparr>bd_kind = k, bd_refs = 1, bd_ptr = False, bd_joincondlist = [], bd_condlist = [], bd_column = None\<rparr>)\<rparr>)"

definition on_builder :: "addr \<Rightarrow> (builder \<Rightarrow> builder) \<Rightarrow> builders \<Rightarrow> builders" where
  "on_builder p f s = s\<lparr>bs_objs := (bs_objs s)(p := map_option f (bs_objs s p))\<rparr>"

definition new_cond :: "builders \<Rightarrow> addr \<times> builders" where
  "new_cond s = (bs_next s, s\<lparr>bs_next := bs_next s + 1, bs_conds := insert (bs_next s) (bs_conds s)\<rparr>)"

text \<open>
  \<open>read\<close>, \<open>join\<close> and \<open>set_cond\<close>: the condition enters the list after \<open>append\<close>, which may throw; then
  nobody owns it.  \<open>to\<close> overwrites the column.
\<close>

definition add_cond :: "(addr \<Rightarrow> builder \<Rightarrow> builder) \<Rightarrow> bool \<Rightarrow> addr \<Rightarrow> builders \<Rightarrow> bool \<times> builders" where
  "add_cond put throws p s =
     (case new_cond s of (c, s') \<Rightarrow> if throws then (False, s') else (True, on_builder p (put c) s'))"

definition SqliteUnion_read :: "bool \<Rightarrow> addr \<Rightarrow> builders \<Rightarrow> bool \<times> builders" where
  "SqliteUnion_read = add_cond (\<lambda>c b. b\<lparr>bd_condlist := bd_condlist b @ [c]\<rparr>)"

definition SqliteJoinBase_join :: "bool \<Rightarrow> addr \<Rightarrow> builders \<Rightarrow> bool \<times> builders" where
  "SqliteJoinBase_join = add_cond (\<lambda>c b. b\<lparr>bd_joincondlist := bd_joincondlist b @ [c]\<rparr>)"

definition SqliteJoinBase_set_cond :: "bool \<Rightarrow> addr \<Rightarrow> builders \<Rightarrow> bool \<times> builders" where
  "SqliteJoinBase_set_cond = add_cond (\<lambda>c b. b\<lparr>bd_condlist := bd_condlist b @ [c]\<rparr>)"

definition SqliteCopy_column :: "addr \<Rightarrow> builders \<Rightarrow> builders" where
  "SqliteCopy_column p s = snd (add_cond (\<lambda>c b. b\<lparr>bd_column := Some c\<rparr>) False p s)"

text \<open>\<open>ptr_ = ptr\<close>, and what the end of the last \<open>shared_ptr\<close> does.\<close>

definition hold :: "addr \<Rightarrow> builders \<Rightarrow> builders" where
  "hold p = on_builder p (\<lambda>b. if bd_ptr b then b else b\<lparr>bd_ptr := True, bd_refs := bd_refs b + 1\<rparr>)"

definition SqliteUnion_dtor :: "builder \<Rightarrow> addr set \<Rightarrow> addr set" where
  "SqliteUnion_dtor b conds = conds - set (bd_condlist b)"

definition SqliteJoinBase_dtor :: "builder \<Rightarrow> addr set \<Rightarrow> addr set" where
  "SqliteJoinBase_dtor b conds = conds - set (bd_joincondlist b) - set (bd_condlist b)"

definition SqliteCopy_dtor :: "builder \<Rightarrow> addr set \<Rightarrow> addr set" where
  "SqliteCopy_dtor b conds = SqliteJoinBase_dtor b (conds - set_option (bd_column b))"

definition builder_dtor :: "builder \<Rightarrow> addr set \<Rightarrow> addr set" where
  "builder_dtor b =
     (case bd_kind b of B_union \<Rightarrow> SqliteUnion_dtor b | B_join \<Rightarrow> SqliteJoinBase_dtor b | B_copy \<Rightarrow> SqliteCopy_dtor b)"

definition release :: "addr \<Rightarrow> builders \<Rightarrow> builders" where
  "release p s =
     (case bs_objs s p of
        None \<Rightarrow> s
      | Some b \<Rightarrow>
          if bd_refs b = 1 then s\<lparr>bs_objs := (bs_objs s)(p := None), bs_conds := builder_dtor b (bs_conds s)\<rparr>
          else on_builder p (\<lambda>b. b\<lparr>bd_refs := bd_refs b - 1\<rparr>) s)"

text \<open>
  \<open>union_read\<close>, \<open>join_read\<close> and \<open>copy\<close> of the facade: an object, its first condition, \<open>hold\<close>, and the end of the
  local \<open>shared_ptr\<close>, also when \<open>append\<close> throws.
\<close>

definition start_builder :: "builder_kind \<Rightarrow> (bool \<Rightarrow> addr \<Rightarrow> builders \<Rightarrow> bool \<times> builders) \<Rightarrow> bool \<Rightarrow> builders \<Rightarrow> builders" where
  "start_builder k add throws s =
     (case make_builder k s of (p, s1) \<Rightarrow>
        (case add throws p s1 of
           (False, s2) \<Rightarrow> release p s2
         | (True, s2) \<Rightarrow> (let s3 = release p (hold p s2) in s3\<lparr>bs_user := bs_user s3 @ [p]\<rparr>)))"

definition Sqlite_union_read :: "bool \<Rightarrow> builders \<Rightarrow> builders" where
  "Sqlite_union_read = start_builder B_union SqliteUnion_read"

definition Sqlite_join_read :: "bool \<Rightarrow> builders \<Rightarrow> builders" where
  "Sqlite_join_read = start_builder B_join SqliteJoinBase_join"

definition Sqlite_copy :: "bool \<Rightarrow> builders \<Rightarrow> builders" where
  "Sqlite_copy = start_builder B_copy SqliteJoinBase_join"

text \<open>The task has captured \<open>this\<close>; a join needs two tables, a copy one.\<close>

definition builder_commit :: "addr \<Rightarrow> builders \<Rightarrow> builders" where
  "builder_commit p s =
     (case bs_objs s p of
        None \<Rightarrow> s
      | Some b \<Rightarrow>
          if bd_kind b = B_join \<and> length (bd_joincondlist b) < 2 \<or> bd_kind b = B_copy \<and> bd_joincondlist b = [] then s
          else s\<lparr>bs_tasks := bs_tasks s @ [p]\<rparr>)"

section \<open>What the user and the worker may do\<close>

inductive builders_step :: "builders \<Rightarrow> builders \<Rightarrow> bool" where
  union_read: "builders_step s (Sqlite_union_read throws s)"
| join_read: "builders_step s (Sqlite_join_read throws s)"
| copies: "builders_step s (Sqlite_copy throws s)"
| reads: "p \<in> set (bs_user s) \<Longrightarrow> builders_step s (snd (SqliteUnion_read throws p s))"
| joins: "p \<in> set (bs_user s) \<Longrightarrow> builders_step s (snd (SqliteJoinBase_join throws p s))"
| conds: "p \<in> set (bs_user s) \<Longrightarrow> builders_step s (snd (SqliteJoinBase_set_cond throws p s))"
| columns: "p \<in> set (bs_user s) \<Longrightarrow> builders_step s (SqliteCopy_column p s)"
| commits: "p \<in> set (bs_user s) \<Longrightarrow> builders_step s (builder_commit p s)"
| worker: "bs_tasks s = p # ps \<Longrightarrow> builders_step s (s\<lparr>bs_tasks := ps\<rparr>)"

text \<open>An object that nothing can end: the only \<open>shared_ptr\<close> to it is its own.\<close>

definition held :: "builders \<Rightarrow> addr \<Rightarrow> bool" where
  "held s p \<longleftrightarrow> (\<exists>b. bs_objs s p = Some b \<and> bd_refs b = 1 \<and> bd_ptr b \<and> owned_conds b \<subseteq> bs_conds s)"

definition builders_ok :: "builders \<Rightarrow> bool" where
  "builders_ok s \<longleftrightarrow> (\<forall>p \<in> set (bs_user s) \<union> set (bs_tasks s). held s p) \<and>
     (\<forall>p. bs_objs s p \<noteq> None \<longrightarrow> p \<in> set (bs_user s)) \<and> (\<forall>p \<in> set (bs_user s) \<union> bs_conds s. p < bs_next s)"

text \<open>Nothing that exists goes away.\<close>

definition keeps_builders :: "builders \<Rightarrow> builders \<Rightarrow> bool" where
  "keeps_builders s s' \<longleftrightarrow> (\<forall>p. held s p \<longrightarrow> held s' p) \<and> bs_conds s \<subseteq> bs_conds s' \<and> set (bs_user s) \<subseteq> set (bs_user s')"

lemma add_cond_step:
  assumes "builders_ok s" and "p \<in> set (bs_user s)" and "\<forall>c b. bd_refs (put c b) = bd_refs b \<and> bd_ptr (put c b) = bd_ptr b"
    and "\<forall>c b. owned_conds (put c b) \<subseteq> insert c (owned_conds b)"
  shows "builders_ok (snd (add_cond put throws p s)) \<and> keeps_builders s (snd (add_cond put throws p s))"
proof -
  let ?c = "bs_next s" and ?s' = "snd (add_cond put throws p s)"
  have s': "bs_user ?s' = bs_user s" "bs_tasks ?s' = bs_tasks s" "bs_conds ?s' = insert ?c (bs_conds s)" "bs_next ?s' = ?c + 1"
    "bs_objs ?s' = (if throws then bs_objs s else (bs_objs s)(p := map_option (put ?c) (bs_objs s p)))"
    by (simp_all add: add_cond_def new_cond_def on_builder_def)
  have held: "held ?s' q" if "held s q" for q
  proof -
    from that obtain b where b: "bs_objs s q = Some b" "bd_refs b = 1" "bd_ptr b" "owned_conds b \<subseteq> bs_conds s"
      by (auto simp: held_def)
    show ?thesis
    proof (cases "throws \<or> q \<noteq> p")
      case True
      with b show ?thesis by (auto simp: held_def s')
    next
      case False
      moreover have "owned_conds (put ?c b) \<subseteq> insert ?c (bs_conds s)" using assms(4) b(4) by blast
      ultimately show ?thesis unfolding held_def s' using b assms(3) by simp
    qed
  qed
  with assms(1,2) show ?thesis by (auto simp: builders_ok_def keeps_builders_def s' split: if_splits intro: less_SucI)
qed

lemma start_builder_step:
  assumes "builders_ok s" and add: "add = add_cond put"
    and put: "\<forall>c b. bd_refs (put c b) = bd_refs b \<and> bd_ptr (put c b) = bd_ptr b \<and> owned_conds (put c b) \<subseteq> insert c (owned_conds b)"
  shows "builders_ok (start_builder k add throws s) \<and> keeps_builders s (start_builder k add throws s)"
proof -
  let ?p = "bs_next s" and ?c = "bs_next s + 1" and ?s' = "start_builder k add throws s"
  let ?b = "\<lparr>bd_kind = k, bd_refs = 1, bd_ptr = False, bd_joincondlist = [], bd_condlist = [], bd_column = None\<rparr>"
  have fresh: "?p \<notin> set (bs_user s)" "bs_objs s ?p = None" "?p \<notin> bs_conds s" "\<forall>q \<in> set (bs_user s) \<union> bs_conds s. q < ?p"
    using assms(1) by (auto simp: builders_ok_def)
  show ?thesis
  proof (cases throws)
    case True
    have s': "bs_user ?s' = bs_user s" "bs_tasks ?s' = bs_tasks s" "bs_conds ?s' = insert ?c (bs_conds s)" "bs_next ?s' = ?c + 1"
      "bs_objs ?s' = bs_objs s"
      using True fresh(2)
      by (auto simp: start_builder_def make_builder_def add add_cond_def new_cond_def release_def builder_dtor_def
          SqliteUnion_dtor_def SqliteJoinBase_dtor_def SqliteCopy_dtor_def split: builder_kind.split)
    then have "held ?s' q" if "held s q" for q using that by (auto simp: held_def)
    with assms(1) fresh(4) show ?thesis by (auto simp: builders_ok_def keeps_builders_def s' intro: less_SucI)
  next
    case False
    let ?b' = "(put ?c ?b)\<lparr>bd_ptr := True, bd_refs := 1\<rparr>"
    have s': "bs_user ?s' = bs_user s @ [?p]" "bs_tasks ?s' = bs_tasks s" "bs_conds ?s' = insert ?c (bs_conds s)" "bs_next ?s' = ?c + 1"
      "bs_objs ?s' = (bs_objs s)(?p \<mapsto> ?b')"
      using False put
      by (simp_all add: start_builder_def make_builder_def add add_cond_def new_cond_def hold_def release_def on_builder_def Let_def)
    have "owned_conds ?b' = owned_conds (put ?c ?b)" by (simp add: owned_conds_def)
    also have "\<dots> \<subseteq> insert ?c (owned_conds ?b)" using put by blast
    also have "\<dots> = {?c}" by (simp add: owned_conds_def)
    finally have "held ?s' ?p" by (auto simp: held_def s')
    moreover have "held ?s' q" if "held s q" for q
    proof -
      from that fresh(2) have "q \<noteq> ?p" by (auto simp: held_def)
      with that show ?thesis by (auto simp: held_def s')
    qed
    ultimately show ?thesis using assms(1) fresh(4) by (auto simp: builders_ok_def keeps_builders_def s' intro: less_SucI)
  qed
qed

lemma builders_step_ok:
  assumes "builders_step s s'" and "builders_ok s"
  shows "builders_ok s' \<and> keeps_builders s s'"
  using assms(1)
proof cases
  case (union_read throws)
  show ?thesis unfolding union_read Sqlite_union_read_def
    by (rule start_builder_step [OF assms(2) SqliteUnion_read_def]) (auto simp: owned_conds_def)
next
  case (join_read throws)
  show ?thesis unfolding join_read Sqlite_join_read_def
    by (rule start_builder_step [OF assms(2) SqliteJoinBase_join_def]) (auto simp: owned_conds_def)
next
  case (copies throws)
  show ?thesis unfolding copies Sqlite_copy_def
    by (rule start_builder_step [OF assms(2) SqliteJoinBase_join_def]) (auto simp: owned_conds_def)
next
  case (reads p throws)
  show ?thesis unfolding reads(1) SqliteUnion_read_def
    by (rule add_cond_step [OF assms(2) reads(2)]) (auto simp: owned_conds_def)
next
  case (joins p throws)
  show ?thesis unfolding joins(1) SqliteJoinBase_join_def
    by (rule add_cond_step [OF assms(2) joins(2)]) (auto simp: owned_conds_def)
next
  case (conds p throws)
  show ?thesis unfolding conds(1) SqliteJoinBase_set_cond_def
    by (rule add_cond_step [OF assms(2) conds(2)]) (auto simp: owned_conds_def)
next
  case (columns p)
  show ?thesis unfolding columns(1) SqliteCopy_column_def
    by (rule add_cond_step [OF assms(2) columns(2)]) (auto simp: owned_conds_def)
next
  case (commits p)
  have "bs_objs s' = bs_objs s" "bs_conds s' = bs_conds s" "bs_user s' = bs_user s" "bs_next s' = bs_next s"
    "set (bs_tasks s') \<subseteq> insert p (set (bs_tasks s))"
    by (auto simp: commits(1) builder_commit_def split: option.split)
  with assms(2) commits(2) show ?thesis by (auto simp: builders_ok_def keeps_builders_def held_def)
next
  case (worker p ps)
  with assms(2) show ?thesis by (auto simp: builders_ok_def keeps_builders_def held_def)
qed

lemma builders_steps_ok:
  assumes "rtranclp builders_step s s'" and "builders_ok s"
  shows "builders_ok s' \<and> keeps_builders s s'"
  using assms(1)
proof (induction rule: rtranclp_induct)
  case base
  then show ?case using assms(2) by (auto simp: keeps_builders_def)
next
  case (step t u)
  with builders_step_ok [OF step(2)] show ?case by (auto simp: keeps_builders_def)
qed

lemma no_builders_ok: "builders_ok no_builders"
  by (simp add: builders_ok_def no_builders_def)

section \<open>Alive, and for ever\<close>

text \<open>
  C10: the union, join or copy that a task has captured exists with all its conditions whenever the worker may run the
  task, and so does every object that the user has a reference to; the price is that none of them, and no
  condition, is ever freed, in whatever follows.
\<close>

theorem builders_live_for_ever:
  assumes "rtranclp builders_step no_builders s" and "rtranclp builders_step s s'"
  shows "(\<forall>p \<in> set (bs_tasks s) \<union> set (bs_user s). \<exists>b. bs_objs s p = Some b \<and> owned_conds b \<subseteq> bs_conds s) \<and>
    dom (bs_objs s) \<subseteq> dom (bs_objs s') \<and> bs_conds s \<subseteq> bs_conds s'"
proof -
  have s: "builders_ok s" using builders_steps_ok [OF assms(1) no_builders_ok] by blast
  have keep: "keeps_builders s s'" using builders_steps_ok [OF assms(2) s] by blast
  have "p \<in> dom (bs_objs s')" if "p \<in> dom (bs_objs s)" for p
  proof -
    from that s have "held s p" by (auto simp: builders_ok_def)
    with keep show ?thesis by (auto simp: keeps_builders_def held_def)
  qed
  moreover have "\<exists>b. bs_objs s p = Some b \<and> owned_conds b \<subseteq> bs_conds s" if "p \<in> set (bs_tasks s) \<union> set (bs_user s)" for p
  proof -
    from that s have "held s p" by (auto simp: builders_ok_def)
    then show ?thesis by (auto simp: held_def)
  qed
  ultimately show ?thesis using keep by (auto simp: keeps_builders_def)
qed

text \<open>A union is made and committed, and its task is run: object 0 and its condition 1 are still there.\<close>

theorem builders_live_for_ever_witness:
  "\<exists>s s'. rtranclp builders_step no_builders s \<and> rtranclp builders_step s s' \<and> bs_tasks s = [0] \<and> bs_tasks s' = [] \<and>
     0 \<in> dom (bs_objs s) \<and> 0 \<in> dom (bs_objs s') \<and> bs_conds s = {1} \<and> 1 \<in> bs_conds s'"
proof -
  let ?s1 = "Sqlite_union_read False no_builders"
  let ?s = "builder_commit 0 ?s1" and ?s' = "(builder_commit 0 ?s1)\<lparr>bs_tasks := []\<rparr>"
  have s1: "bs_user ?s1 = [0]" "bs_tasks ?s1 = []" "bs_conds ?s1 = {1}" "\<exists>b. bs_objs ?s1 0 = Some b \<and> bd_kind b = B_union"
    by (simp_all add: Sqlite_union_read_def start_builder_def make_builder_def SqliteUnion_read_def add_cond_def new_cond_def
        on_builder_def hold_def release_def no_builders_def Let_def)
  then obtain b where "bs_objs ?s1 0 = Some b" "bd_kind b = B_union" by blast
  then have c: "?s = ?s1\<lparr>bs_tasks := bs_tasks ?s1 @ [0]\<rparr>" by (simp add: builder_commit_def)
  have s: "bs_tasks ?s = [0]" "bs_conds ?s = {1}" "0 \<in> dom (bs_objs ?s)" using s1 unfolding c by auto
  have "builders_step no_builders ?s1" by (rule builders_step.union_read)
  moreover have "builders_step ?s1 ?s" by (rule builders_step.commits) (simp add: s1(1))
  ultimately have steps: "rtranclp builders_step no_builders ?s" by auto
  have "builders_step ?s ?s'" by (rule builders_step.worker [OF s(1)])
  then have "rtranclp builders_step ?s ?s'" by auto
  note steps = steps this
  from builders_live_for_ever [OF steps] s have "0 \<in> dom (bs_objs ?s')" "1 \<in> bs_conds ?s'" by auto
  with s steps show ?thesis by (intro exI [of _ ?s] exI [of _ ?s']) simp
qed

end
