(* ===== verification/Yan_Helpers.thy ===== *)
theory Yan_Helpers
  imports Yan_Prelude
begin

text \<open>
  The header-only helpers of \<open>src/com\<close>: \<open>split\<close> (\<open>strops.h\<close>) over the two operations of
  \<open>std::string\<close> that it uses, the argument counting of \<open>macro.h\<close> with which the declaration macros
  pick a constructor, and its type traits, by which the templates decide between one object and a
  container of objects.
\<close>

section \<open>Splitting a string\<close>

text \<open>
  \<open>s.find(d, pos)\<close>: the first position from \<open>pos\<close> on at which \<open>d\<close> occurs; \<open>npos\<close> is \<open>None\<close>.
  \<open>s.substr(pos, n)\<close> throws \<open>std::out_of_range\<close> when \<open>pos\<close> is behind the end.
\<close>

definition occurs_at :: "string \<Rightarrow> string \<Rightarrow> nat \<Rightarrow> bool" where
  "occurs_at s d i \<longleftrightarrow> take (length d) (drop i s) = d"

definition find_str :: "string \<Rightarrow> string \<Rightarrow> nat \<Rightarrow> nat option" where
  "find_str s d pos = find (occurs_at s d) [pos..<Suc (length s) - length d]"

definition substr :: "string \<Rightarrow> nat \<Rightarrow> nat option \<Rightarrow> string res" where
  "substr s pos n =
     (if pos \<le> length s
      then Inr (case n of None \<Rightarrow> drop pos s | Some k \<Rightarrow> take k (drop pos s))
      else Inl (Runtime_error ''basic_string::substr''))"

text \<open>The loop need not end, so that not returning is the value \<open>None\<close>.\<close>

partial_function (option) split_loop :: "string \<Rightarrow> string \<Rightarrow> nat \<Rightarrow> string list \<Rightarrow> string list res option" where
  "split_loop s delimiter pos_start tokens =
     (case find_str s delimiter pos_start of
        Some pos_end \<Rightarrow>
          (case substr s pos_start (Some (pos_end - pos_start)) of
             Inl e \<Rightarrow> Some (Inl e)
           | Inr token \<Rightarrow> split_loop s delimiter (pos_end + length delimiter) (tokens @ [token]))
      | None \<Rightarrow>
          (case substr s pos_start None of
             Inl e \<Rightarrow> Some (Inl e)
           | Inr token \<Rightarrow> Some (Inr (tokens @ [token]))))"

definition split_str :: "string \<Rightarrow> string \<Rightarrow> string list res option" where
  "split_str s delimiter = split_loop s delimiter 0 []"

lemma find_str_Some:
  "find_str s d pos = Some e \<longleftrightarrow>
     pos \<le> e \<and> e + length d \<le> length s \<and> occurs_at s d e \<and> (\<forall>i. pos \<le> i \<longrightarrow> i < e \<longrightarrow> \<not> occurs_at s d i)"
proof -
  have "find_str s d pos = Some e \<longleftrightarrow>
      (\<exists>k < Suc (length s) - length d - pos. e = pos + k \<and> occurs_at s d (pos + k) \<and> (\<forall>j < k. \<not> occurs_at s d (pos + j)))"
    by (auto simp: find_str_def find_Some_iff)
  also have "\<dots> \<longleftrightarrow> pos \<le> e \<and> e + length d \<le> length s \<and> occurs_at s d e \<and>
      (\<forall>i. pos \<le> i \<longrightarrow> i < e \<longrightarrow> \<not> occurs_at s d i)"
  proof (intro iffI; elim exE conjE)
    fix k
    assume *: "k < Suc (length s) - length d - pos" "e = pos + k" "occurs_at s d (pos + k)"
      "\<forall>j < k. \<not> occurs_at s d (pos + j)"
    have "\<not> occurs_at s d i" if "pos \<le> i" "i < e" for i
      using *(4) [rule_format, of "i - pos"] that *(2) by simp
    with * show "pos \<le> e \<and> e + length d \<le> length s \<and> occurs_at s d e \<and>
        (\<forall>i. pos \<le> i \<longrightarrow> i < e \<longrightarrow> \<not> occurs_at s d i)" by auto
  qed (auto intro!: exI [of _ "e - pos"])
  finally show ?thesis .
qed

lemma find_str_None:
  "find_str s d pos = None \<longleftrightarrow> (\<forall>i \<ge> pos. i + length d \<le> length s \<longrightarrow> \<not> occurs_at s d i)"
  by (auto simp: find_str_def find_None_iff)

lemma occurs_at_drop: "occurs_at (drop pos s) d i \<longleftrightarrow> occurs_at s d (pos + i)"
  by (simp add: occurs_at_def add.commute)

lemma find_str_drop: "pos \<le> length s \<Longrightarrow> find_str s d pos = map_option ((+) pos) (find_str (drop pos s) d 0)"
proof (cases "find_str (drop pos s) d 0")
  case (Some e)
  assume "pos \<le> length s"
  with Some have "e + length d \<le> length s - pos" "occurs_at s d (pos + e)"
    and n: "\<And>i. i < e \<Longrightarrow> \<not> occurs_at s d (pos + i)"
    by (auto simp: find_str_Some occurs_at_drop)
  moreover have "\<not> occurs_at s d i" if "pos \<le> i" "i < pos + e" for i
    using n [of "i - pos"] that by simp
  ultimately have "find_str s d pos = Some (pos + e)"
    using \<open>pos \<le> length s\<close> by (auto simp: find_str_Some)
  with Some show ?thesis by simp
next
  case None
  assume "pos \<le> length s"
  have "\<not> occurs_at s d i" if "pos \<le> i" "i + length d \<le> length s" for i
    using None [unfolded find_str_None occurs_at_drop, rule_format, of "i - pos"] that by simp
  then have "find_str s d pos = None" by (simp add: find_str_None)
  with None show ?thesis by simp
qed

text \<open>The reference: cut the rest of the string at the leftmost occurrence.\<close>

function pieces :: "string \<Rightarrow> string \<Rightarrow> string list" where
  "pieces d t =
     (if d = '''' then [t]
      else case find_str t d 0 of None \<Rightarrow> [t] | Some e \<Rightarrow> take e t # pieces d (drop (e + length d) t))"
  by auto

termination
  by (relation "measure (\<lambda>(d, t). length t)") (auto simp: find_str_Some intro!: diff_less)

declare pieces.simps [simp del]

lemma split_loop_pieces:
  assumes "d \<noteq> ''''" and "pos \<le> length s"
  shows "split_loop s d pos acc = Some (Inr (acc @ pieces d (drop pos s)))"
  using assms
proof (induction "length s - pos" arbitrary: pos acc rule: less_induct)
  case less
  note f = find_str_drop [OF less.prems(2), of d]
  show ?case
  proof (cases "find_str (drop pos s) d 0")
    case None
    with less.prems f show ?thesis
      by (subst split_loop.simps, subst pieces.simps) (simp add: substr_def)
  next
    case (Some e)
    then have e: "e + length d \<le> length s - pos" by (auto simp: find_str_Some)
    let ?pos = "pos + e + length d"
    have "length s - ?pos < length s - pos" "?pos \<le> length s" using less.prems e by (cases d; simp)+
    from less.hyps [OF this(1) less.prems(1) this(2)]
    have "split_loop s d ?pos (acc @ [take e (drop pos s)]) =
        Some (Inr ((acc @ [take e (drop pos s)]) @ pieces d (drop ?pos s)))" .
    with less.prems f Some show ?thesis
      by (subst split_loop.simps, subst pieces.simps) (simp add: substr_def add.assoc add.left_commute add.commute)
  qed
qed

text \<open>A piece in front of a delimiter: the delimiter occurs nowhere before its end.\<close>

definition cut_piece :: "string \<Rightarrow> string \<Rightarrow> bool" where
  "cut_piece d p \<longleftrightarrow> find_str (p @ d) d 0 = Some (length p)"

definition split_of :: "string \<Rightarrow> string \<Rightarrow> string list \<Rightarrow> bool" where
  "split_of d s ps \<longleftrightarrow> ps \<noteq> [] \<and> join_with d ps = s \<and> (\<forall>p \<in> set (butlast ps). cut_piece d p) \<and>
     find_str (last ps) d 0 = None"

lemma occurs_at_prefix:
  "i + length d \<le> length p + k \<Longrightarrow> k \<le> length u \<Longrightarrow>
    occurs_at (p @ take k u) d i \<longleftrightarrow> occurs_at (p @ u) d i"
  unfolding occurs_at_def by (simp add: take_drop)

lemma find_str_cut: "find_str (p @ d @ u) d 0 = Some (length p) \<longleftrightarrow> cut_piece d p"
proof -
  have "occurs_at (p @ d) d i \<longleftrightarrow> occurs_at (p @ d @ u) d i" if "i \<le> length p" for i
    using occurs_at_prefix [of i d p "length d" "d @ u"] that by simp
  then show ?thesis by (auto simp: cut_piece_def find_str_Some)
qed

lemma pieces_split_of: "d \<noteq> '''' \<Longrightarrow> split_of d t (pieces d t)"
proof (induction d t rule: pieces.induct)
  case (1 d t)
  show ?case
  proof (cases "find_str t d 0")
    case None
    with 1 show ?thesis by (subst pieces.simps) (simp add: split_of_def)
  next
    case (Some e)
    from 1 Some have IH: "split_of d (drop (e + length d) t) (pieces d (drop (e + length d) t))" by simp
    from Some have e: "e + length d \<le> length t" "take (length d) (drop e t) = d"
      by (auto simp: find_str_Some occurs_at_def)
    then have t: "t = take e t @ d @ drop (e + length d) t"
      by (metis append_take_drop_id drop_drop add.commute)
    have "cut_piece d (take e t)"
      using find_str_cut [of "take e t" d "drop (e + length d) t"] Some e by (simp flip: t)
    with IH t Some 1 show ?thesis
      by (subst pieces.simps) (auto simp: split_of_def join_with_Cons)
  qed
qed

lemma split_of_pieces: "d \<noteq> '''' \<Longrightarrow> split_of d t ps \<Longrightarrow> ps = pieces d t"
proof (induction ps arbitrary: t)
  case Nil
  then show ?case by (simp add: split_of_def)
next
  case (Cons p ps)
  show ?case
  proof (cases "ps = []")
    case True
    with Cons.prems show ?thesis by (subst pieces.simps) (auto simp: split_of_def)
  next
    case False
    with Cons.prems have t: "t = p @ d @ join_with d ps" and c: "cut_piece d p" and "split_of d (join_with d ps) ps"
      by (auto simp: split_of_def join_with_Cons)
    with Cons have ps: "ps = pieces d (join_with d ps)" by blast
    have "find_str t d 0 = Some (length p)" using c unfolding t by (simp add: find_str_cut)
    with Cons.prems(1) t show ?thesis by (subst pieces.simps) (simp add: ps [symmetric])
  qed
qed

text \<open>
  C39: \<open>split\<close> with a non-empty delimiter always returns, and it returns exactly one list: the
  non-empty list of pieces that gives the string back when it is joined with the delimiter, in which
  every piece ends where the delimiter occurs first and the last piece does not contain it.
\<close>

theorem split_is_inverse_of_join:
  assumes "delimiter \<noteq> ''''"
  shows "split_str s delimiter = Some (Inr ps) \<longleftrightarrow> split_of delimiter s ps"
proof -
  have "split_str s delimiter = Some (Inr (pieces delimiter s))"
    using split_loop_pieces [OF assms, of 0 s "[]"] by (simp add: split_str_def)
  with assms show ?thesis using pieces_split_of split_of_pieces by auto
qed

lemma split_loop_empty: "split_loop s d pos acc = Some r \<Longrightarrow> d = '''' \<Longrightarrow> length s < pos"
proof (induction s d pos acc r rule: split_loop.raw_induct [rotated, consumes 1])
  case (1 f s d pos acc r)
  show ?case
  proof (rule ccontr)
    assume "\<not> length s < pos"
    then have "find_str s d pos = Some pos" "substr s pos (Some 0) = Inr ''''"
      using 1(3) by (auto simp: find_str_Some occurs_at_def substr_def)
    with 1(2,3) have "f s d pos (acc @ ['''']) = Some r" by simp
    from 1(1) [OF this 1(3)] \<open>\<not> length s < pos\<close> show False by simp
  qed
qed

text \<open>
  C40: with the empty delimiter \<open>split\<close> does not return, whatever the string: \<open>find\<close> reports
  the position it is asked to start at, and the loop pushes empty tokens without end.
\<close>

theorem split_empty_delimiter_diverges: "split_str s '''' = None"
  using split_loop_empty [of s "''''" 0 "[]"] by (cases "split_str s ''''") (auto simp: split_str_def)

section \<open>Counting macro arguments\<close>

text \<open>
  Tokens are their spelling.  An empty argument list is one empty argument, and the counting macro
  picks its tenth argument.
\<close>

definition COUNT_MACRO_VAR_ARGS :: "string list \<Rightarrow> string" where
  "COUNT_MACRO_VAR_ARGS args =
     ((if args = [] then [''''] else args) @
        [''9'', ''8'', ''7'', ''6'', ''5'', ''4'', ''3'', ''2'', ''1'', ''0'']) ! 9"

text \<open>The result of an expansion is a call: the name of the macro or function, and its arguments.\<close>

definition VARIADIC_MACRO_INIT :: "string \<Rightarrow> string list \<Rightarrow> string \<times> string list" where
  "VARIADIC_MACRO_INIT M args = (M @ COUNT_MACRO_VAR_ARGS args, args)"

definition MEMBER_INFO_CONSTRUCTOR :: "string list \<Rightarrow> string \<times> string list" where
  "MEMBER_INFO_CONSTRUCTOR args = VARIADIC_MACRO_INIT ''CREATE_MEMBER_INFO'' args"

definition YAN_STRUCT_CONSTRUCTOR :: "string list \<Rightarrow> string \<times> string list" where
  "YAN_STRUCT_CONSTRUCTOR args = VARIADIC_MACRO_INIT ''CREATE_YAN_STRUCT'' args"

lemma digits_nth: "n \<le> 9 \<Longrightarrow> [''9'', ''8'', ''7'', ''6'', ''5'', ''4'', ''3'', ''2'', ''1'', ''0''] ! (9 - n) = string_of_nat n"
proof -
  assume "n \<le> 9"
  then have "n \<in> {0, 1, 2, 3, 4, 5, 6, 7, 8, 9}" by auto
  then show ?thesis by (auto simp: string_of_nat.simps [of n])
qed

lemma count_args_upto_9:
  "1 \<le> length args \<Longrightarrow> length args \<le> 9 \<Longrightarrow> COUNT_MACRO_VAR_ARGS args = string_of_nat (length args)"
  by (auto simp: COUNT_MACRO_VAR_ARGS_def nth_append digits_nth)

text \<open>
  The declaration macros pick the constructor by the number of their arguments: \<open>MEMBER\<close> and its
  relatives pass three fixed arguments and up to six of the user's, \<open>STRUCT\<close> four and up to
  five, and the suffix is the number of all of them; with more than nine arguments the suffix is the tenth
  argument, whatever it spells, and with none at all it is \<open>1\<close>.
\<close>

theorem constructor_is_picked_by_arity:
  "length opts \<le> 6 \<Longrightarrow>
     fst (MEMBER_INFO_CONSTRUCTOR (n # ofs # t # opts)) = ''CREATE_MEMBER_INFO'' @ string_of_nat (3 + length opts)"
  "length opts \<le> 5 \<Longrightarrow>
     fst (YAN_STRUCT_CONSTRUCTOR (n # c # h # s # opts)) = ''CREATE_YAN_STRUCT'' @ string_of_nat (4 + length opts)"
  "9 < length args \<Longrightarrow> COUNT_MACRO_VAR_ARGS args = args ! 9"
  "COUNT_MACRO_VAR_ARGS [] = ''1''"
proof -
  show "fst (MEMBER_INFO_CONSTRUCTOR (n # ofs # t # opts)) = ''CREATE_MEMBER_INFO'' @ string_of_nat (3 + length opts)"
    if "length opts \<le> 6"
    using that count_args_upto_9 [of "n # ofs # t # opts"]
    by (simp add: MEMBER_INFO_CONSTRUCTOR_def VARIADIC_MACRO_INIT_def numeral_3_eq_3)
  show "fst (YAN_STRUCT_CONSTRUCTOR (n # c # h # s # opts)) = ''CREATE_YAN_STRUCT'' @ string_of_nat (4 + length opts)"
    if "length opts \<le> 5"
    using that count_args_upto_9 [of "n # c # h # s # opts"]
    by (simp add: YAN_STRUCT_CONSTRUCTOR_def VARIADIC_MACRO_INIT_def eval_nat_numeral)
  show "COUNT_MACRO_VAR_ARGS args = args ! 9" if "9 < length args"
    using that by (auto simp: COUNT_MACRO_VAR_ARGS_def nth_append)
  show "COUNT_MACRO_VAR_ARGS [] = ''1''"
    by (simp add: COUNT_MACRO_VAR_ARGS_def)
qed

section \<open>Type traits\<close>

text \<open>
  The types over which the templates are instantiated: numbers, strings, generated objects, and the
  containers of the standard library.  \<open>HasPushBack\<close> and \<open>HasInsert\<close> ask for the
  members \<open>void push_back(value_type)\<close> and \<open>iterator insert(const_iterator, value_type)\<close>, which a type
  without a \<open>value_type\<close> cannot have.
\<close>

datatype cxx_type =
    T_number | T_string | T_object string | T_vector cxx_type | T_list cxx_type | T_deque cxx_type
  | T_set cxx_type | T_map cxx_type cxx_type

fun HasPushBack :: "cxx_type \<Rightarrow> bool" where
  "HasPushBack T_string = True"
| "HasPushBack (T_vector t) = True"
| "HasPushBack (T_list t) = True"
| "HasPushBack (T_deque t) = True"
| "HasPushBack t = False"

fun HasInsert :: "cxx_type \<Rightarrow> bool" where
  "HasInsert T_number = False"
| "HasInsert (T_object c) = False"
| "HasInsert t = True"

definition IsSequenceContainer :: "cxx_type \<Rightarrow> bool" where
  "IsSequenceContainer t \<longleftrightarrow> HasPushBack t \<and> t \<noteq> T_string"

definition IsAssociativeContainer :: "cxx_type \<Rightarrow> bool" where
  "IsAssociativeContainer t \<longleftrightarrow> HasInsert t \<and> \<not> HasPushBack t"

definition SequenceValueType :: "cxx_type \<Rightarrow> cxx_type" where
  "SequenceValueType t =
     (if IsSequenceContainer t
      then (case t of T_vector u \<Rightarrow> u | T_list u \<Rightarrow> u | T_deque u \<Rightarrow> u | _ \<Rightarrow> t)
      else t)"

text \<open>
  No type is both; a number, a string and a generated object are neither and stand for themselves, so
  that a request for one of them is the request for one result.
\<close>

lemma container_kinds:
  "\<not> (IsSequenceContainer t \<and> IsAssociativeContainer t)"
  "t \<in> {T_number, T_string} \<union> range T_object \<Longrightarrow>
    \<not> IsSequenceContainer t \<and> \<not> IsAssociativeContainer t \<and> SequenceValueType t = t"
  by (auto simp: IsSequenceContainer_def IsAssociativeContainer_def SequenceValueType_def)

section \<open>Concrete instances\<close>

theorem split_is_inverse_of_join_witness:
  "split_str ''a,,b'' '','' = Some (Inr [''a'', '''', ''b''])"
proof -
  have "split_of '','' ''a,,b'' [''a'', '''', ''b'']"
    by (auto simp: split_of_def cut_piece_def find_str_def occurs_at_def upt_rec)
  then show ?thesis by (subst split_is_inverse_of_join) simp_all
qed

theorem constructor_is_picked_by_arity_witness:
  "fst (MEMBER_INFO_CONSTRUCTOR [''name'', ''8'', ''STRING'', ''n'', ''64'']) = ''CREATE_MEMBER_INFO'' @ string_of_nat 5 \<and>
   fst (YAN_STRUCT_CONSTRUCTOR [''tc'', ''0'', ''8'', ''16'']) = ''CREATE_YAN_STRUCT'' @ string_of_nat 4 \<and>
   COUNT_MACRO_VAR_ARGS (replicate 12 ''x'') = ''x''"
  using constructor_is_picked_by_arity(1) [of "[''n'', ''64'']" "''name''" "''8''" "''STRING''"]
    constructor_is_picked_by_arity(2) [of "[]" "''tc''" "''0''" "''8''" "''16''"]
    constructor_is_picked_by_arity(3) [of "replicate 12 ''x''"]
  by simp

end
