(* ===== verification/Yan_Cache.thy ===== *)
theory Yan_Cache
  imports Yan_Context Yan_Helpers
begin

text \<open>
  The cache of prepared statements over a whole run of requests.  \<open>sql db h\<close> is the text of the
  statement \<open>h\<close> (\<open>sqlite3_sql\<close>) in the library state \<open>db\<close>; what the SQLite documentation says about
  it is the hypothesis \<open>statement_texts\<close>.  Under it every statement in the cache is alive, is held under
  one key only, and was prepared from the text that a request with this key has.
\<close>

section \<open>Texts of statements\<close>

text \<open>
  \<open>sqlite3_prepare_v2\<close> makes a new statement that remembers its text, or leaves a null pointer (an error,
  or a text without SQL); \<open>sqlite3_finalize\<close> destroys the statement it is given; no other
  function changes the text of any statement.
\<close>

definition prepare_makes_text :: "'db sqlite_api \<Rightarrow> ('db \<Rightarrow> nat \<Rightarrow> string option) \<Rightarrow> bool" where
  "prepare_makes_text api sql \<longleftrightarrow> (\<forall>t db ret st db'. sq_prepare api t db = ((ret, st), db') \<longrightarrow>
     (case st of
        Some h \<Rightarrow> ret = SQLITE_OK \<and> sql db h = None \<and> sql db' = (sql db)(h \<mapsto> t)
      | None \<Rightarrow> sql db' = sql db \<and> (ret = SQLITE_OK \<longrightarrow> t = [] \<or> hd t \<notin> set ''CDIRSU'')))"

definition finalize_drops_text :: "'db sqlite_api \<Rightarrow> ('db \<Rightarrow> nat \<Rightarrow> string option) \<Rightarrow> bool" where
  "finalize_drops_text api sql \<longleftrightarrow> (\<forall>h db. sql (sq_finalize api (Some h) db) = (sql db)(h := None))"

definition others_keep_text :: "'db sqlite_api \<Rightarrow> ('db \<Rightarrow> nat \<Rightarrow> string option) \<Rightarrow> bool" where
  "others_keep_text api sql \<longleftrightarrow>
     (\<forall>t db. sql (snd (sq_exec api t db)) = sql db) \<and>
     (\<forall>st i v db. sql (snd (sq_bind_text api st i v db)) = sql db) \<and>
     (\<forall>st i v db. sql (snd (sq_bind_int api st i v db)) = sql db) \<and>
     (\<forall>st i v db. sql (snd (sq_bind_int64 api st i v db)) = sql db) \<and>
     (\<forall>st db. sql (snd (sq_step api st db)) = sql db) \<and>
     (\<forall>st db. sql (sq_reset api st db) = sql db) \<and>
     (\<forall>st db. sql (sq_clear_bindings api st db) = sql db)"

definition statement_texts :: "'db sqlite_api \<Rightarrow> ('db \<Rightarrow> nat \<Rightarrow> string option) \<Rightarrow> bool" where
  "statement_texts api sql \<longleftrightarrow>
     prepare_makes_text api sql \<and> finalize_drops_text api sql \<and> others_keep_text api sql"

lemma call_texts:
  assumes "statement_texts api sql"
  shows "sq_exec api t db = (ret, db') \<Longrightarrow> sql db' = sql db"
    and "sq_bind_text api st i v db = (ret, db') \<Longrightarrow> sql db' = sql db"
    and "sq_bind_int api st i v1 db = (ret, db') \<Longrightarrow> sql db' = sql db"
    and "sq_bind_int64 api st i v2 db = (ret, db') \<Longrightarrow> sql db' = sql db"
    and "sq_step api st db = (ret, db') \<Longrightarrow> sql db' = sql db"
    and "sql (sq_reset api st db) = sql db"
    and "sql (sq_clear_bindings api st db) = sql db"
    and "sql (sq_finalize api (Some h) db) = (sql db)(h := None)"
  using assms by (metis (no_types) statement_texts_def finalize_drops_text_def others_keep_text_def snd_conv)+

lemma prepare_text:
  assumes "statement_texts api sql" and "sq_prepare api t db = ((ret, Some h), db')"
  shows "sql db h = None" and "sql db' = (sql db)(h \<mapsto> t)"
  using assms by (fastforce simp: statement_texts_def prepare_makes_text_def)+

lemma prepare_null:
  assumes "statement_texts api sql" and "sq_prepare api t db = ((ret, None), db')"
  shows "sql db' = sql db" and "ret = SQLITE_OK \<Longrightarrow> t = [] \<or> hd t \<notin> set ''CDIRSU''"
  using assms unfolding statement_texts_def prepare_makes_text_def by fastforce+

section \<open>Running a statement keeps the texts\<close>

definition texts_frame :: "('db \<Rightarrow> nat \<Rightarrow> string option) \<Rightarrow> 'db sq_state \<Rightarrow> 'db sq_state \<Rightarrow> bool" where
  "texts_frame sql s s' \<longleftrightarrow> ss_stmts s' = ss_stmts s \<and> sql (ss_db s') = sql (ss_db s)"

interpretation texts: frame_rel "texts_frame sql" for sql
  by unfold_locales (simp_all add: texts_frame_def)

lemma texts_keepsI: "(\<And>s. texts_frame sql s (fst (m s))) \<Longrightarrow> keeps (texts_frame sql) m"
  by (simp add: keeps_def)

lemma texts_in_world: "keeps (texts_frame sql) (in_world m)"
  by (rule texts_keepsI) (simp add: texts_frame_def in_world_def split: prod.split)

lemma texts_raise: "keeps (texts_frame sql) (\<lambda>s. (s, f s))"
  by (rule texts_keepsI) (simp add: texts_frame_def)

lemma texts_step_stmt: "statement_texts api sql \<Longrightarrow> keeps (texts_frame sql) (step_stmt api st)"
  by (rule texts_keepsI) (auto simp: texts_frame_def step_stmt_def call_texts(5) split: prod.split)

lemma texts_fetch_value: "keeps (texts_frame sql) (fetch_value api st ro)"
proof (cases ro)
  case (R_obj c p)
  have "texts_frame sql s (fst (bindS (in_world (fetch_object api st (ss_db s) c p)) (\<lambda>_. returnS ro) s))" for s
    by (rule keepsD, intro texts.keeps_bindS texts_in_world texts.keeps_returnS)
  then show ?thesis by (simp add: texts_keepsI fetch_value_def R_obj)
qed (simp_all add: fetch_value_def texts_raise)

lemma texts_exec_row: "keeps (texts_frame sql) (exec_row api st ro)"
  by (cases ro)
    (simp_all add: exec_row_def texts.keeps_bindS texts_in_world texts_fetch_value texts.keeps_returnS
      texts.keeps_throwS texts_raise)

lemma texts_exec_rows: "statement_texts api sql \<Longrightarrow> keeps (texts_frame sql) (exec_rows n api st ro)"
proof (induction n arbitrary: ro)
  case (Suc n)
  then show ?case
    by (auto intro!: texts.keeps_bindS texts_step_stmt texts_exec_row texts.keeps_returnS texts_raise)
qed (simp add: texts.keeps_throwS)

lemma texts_exec_entity: "statement_texts api sql \<Longrightarrow> keeps (texts_frame sql) (exec_entity n api st r)"
proof (induction n arbitrary: r)
  case (Suc n)
  then show ?case
    by (auto intro!: texts.keeps_bindS texts_step_stmt texts.keeps_returnS texts_raise)
qed (simp add: texts.keeps_throwS)

lemma texts_exec: "statement_texts api sql \<Longrightarrow> keeps (texts_frame sql) (exec fuel api st ro)"
  by (cases ro)
    (auto simp: exec_def exec_one_def texts_exec_rows intro!: texts.keeps_bindS texts_step_stmt
      texts_fetch_value texts.keeps_returnS)

text \<open>Binding: the library state in which it ends, also when it throws.\<close>

definition bound_db :: "(error \<times> 'db) + 'db bind_ctx \<Rightarrow> 'db" where
  "bound_db r = (case r of Inl (e, db) \<Rightarrow> db | Inr ctx \<Rightarrow> bc_db ctx)"

lemma bind_value_text:
  "statement_texts api sql \<Longrightarrow> bind_value api st i pv db = Some (ret, db') \<Longrightarrow> sql db' = sql db"
  by (auto simp: bind_value_def call_texts split: param_value.splits yan_val.splits)

lemma bind_seq_text:
  assumes "statement_texts api sql"
  shows "sql (case bind_seq api st i items db of Inl (e, db') \<Rightarrow> db' | Inr db' \<Rightarrow> db') = sql db"
proof (induction items arbitrary: i db)
  case (Cons x items)
  obtain name t pv where x: "x = (name, t, pv)" by (cases x)
  show ?case
  proof (cases "bind_value api st (i + 1) pv db")
    case (Some r)
    obtain ret db' where r: "r = (ret, db')" by force
    with Some have "sql db' = sql db" using bind_value_text [OF assms] by blast
    with Some r Cons.IH [of "i + 1" db'] show ?thesis by (simp add: x)
  qed (simp add: x)
qed simp

lemma bound_text: "sql (case r of Inl (e, db') \<Rightarrow> db' | Inr db' \<Rightarrow> db') = x \<Longrightarrow> sql (bound_db (bound ctx n r)) = x"
  by (auto simp: bound_def bound_db_def split: sum.splits)

lemma bind_read_text:
  assumes "statement_texts api sql" and "has_cond rc \<Longrightarrow> \<exists>c ps. conds_of w rc c ps \<and> ps \<noteq> []" and "0 \<le> bc_index ctx"
  shows "sql (bound_db (bind_read api w ctx rc)) = sql (bc_db ctx)"
proof (cases "has_cond rc")
  case True
  with assms(2) obtain c ps where "conds_of w rc c ps" "ps \<noteq> []" by blast
  from bind_read_run [OF this assms(3), of api] show ?thesis
    by (simp only:) (rule bound_text, rule bind_seq_text [OF assms(1)])
qed (simp add: bind_read_def bound_db_def)

section \<open>The invariant of the cache\<close>

text \<open>
  \<open>req k t\<close>: a request with the key \<open>k\<close> has the text \<open>t\<close>.  Every cached statement is alive and has the
  text of its key, and no statement is held under two keys.
\<close>

definition cached_texts :: "('db \<Rightarrow> nat \<Rightarrow> string option) \<Rightarrow> (string \<Rightarrow> string \<Rightarrow> bool) \<Rightarrow> 'db sq_state \<Rightarrow> bool" where
  "cached_texts sql req s \<longleftrightarrow> (\<forall>k st. ss_stmts s k = Some st \<longrightarrow>
     (\<exists>h t. st = Some h \<and> req k t \<and> sql (ss_db s) h = Some (c_str (t @ '';''))))"

definition unshared :: "'db sq_state \<Rightarrow> bool" where
  "unshared s \<longleftrightarrow> (\<forall>k k' h. ss_stmts s k = Some (Some h) \<longrightarrow> ss_stmts s k' = Some (Some h) \<longrightarrow> k = k')"

definition cache_ok :: "('db \<Rightarrow> nat \<Rightarrow> string option) \<Rightarrow> (string \<Rightarrow> string \<Rightarrow> bool) \<Rightarrow> 'db sq_state \<Rightarrow> bool" where
  "cache_ok sql req s \<longleftrightarrow> cached_texts sql req s \<and> unshared s"

lemma cache_okD:
  assumes "cache_ok sql req s" and "ss_stmts s k = Some st"
  obtains h t where "st = Some h" and "req k t" and "sql (ss_db s) h = Some (c_str (t @ '';''))"
  using assms unfolding cache_ok_def cached_texts_def by blast

lemma cache_ok_frame:
  "cache_ok sql req s \<Longrightarrow> ss_stmts s' = ss_stmts s \<Longrightarrow> sql (ss_db s') = sql (ss_db s) \<Longrightarrow> cache_ok sql req s'"
  by (simp add: cache_ok_def cached_texts_def unshared_def)

lemma cache_ok_drop:
  assumes "cache_ok sql req s" and "ss_stmts s k = Some (Some h)"
    and "ss_stmts s' = (ss_stmts s)(k := None)" and "sql (ss_db s') = (sql (ss_db s))(h := None)"
  shows "cache_ok sql req s'"
  unfolding cache_ok_def
proof
  have u: "unshared s" and c: "cached_texts sql req s" using assms(1) by (simp_all add: cache_ok_def)
  from u show "unshared s'" by (auto simp: unshared_def assms(3))
  show "cached_texts sql req s'"
    unfolding cached_texts_def
  proof (intro allI impI)
    fix k' st
    assume "ss_stmts s' k' = Some st"
    then have k': "k' \<noteq> k" "ss_stmts s k' = Some st" by (auto simp: assms(3) split: if_splits)
    from cache_okD [OF assms(1) k'(2)] obtain h' t
      where "st = Some h'" "req k' t" "sql (ss_db s) h' = Some (c_str (t @ '';''))" .
    moreover from this u k' assms(2) have "h' \<noteq> h" unfolding unshared_def by blast
    ultimately show "\<exists>h t. st = Some h \<and> req k' t \<and> sql (ss_db s') h = Some (c_str (t @ '';''))"
      by (intro exI [of _ h'] exI [of _ t]) (simp add: assms(4))
  qed
qed

lemma cache_ok_add:
  assumes "cache_ok sql req s" and "sql (ss_db s) h = None" and "req k t"
    and "ss_stmts s' = (ss_stmts s)(k \<mapsto> Some h)" and "sql (ss_db s') = (sql (ss_db s))(h \<mapsto> c_str (t @ '';''))"
  shows "cache_ok sql req s'"
  unfolding cache_ok_def
proof
  have live: "h' \<noteq> h" if "ss_stmts s k' = Some (Some h')" for k' h'
    by (rule cache_okD [OF assms(1) that]) (use assms(2) in auto)
  have u: "unshared s" using assms(1) by (simp add: cache_ok_def)
  show "unshared s'"
    unfolding unshared_def
  proof (intro allI impI)
    fix k1 k2 h'
    assume "ss_stmts s' k1 = Some (Some h')" and "ss_stmts s' k2 = Some (Some h')"
    with live [of k1 h'] live [of k2 h'] u show "k1 = k2"
      unfolding unshared_def by (cases "k1 = k"; cases "k2 = k") (simp_all add: assms(4))
  qed
  show "cached_texts sql req s'"
    unfolding cached_texts_def
  proof (intro allI impI)
    fix k' st
    assume s': "ss_stmts s' k' = Some st"
    show "\<exists>h t. st = Some h \<and> req k' t \<and> sql (ss_db s') h = Some (c_str (t @ '';''))"
    proof (cases "k' = k")
      case True
      with s' assms(3) show ?thesis by (auto simp: assms(4,5))
    next
      case False
      with s' have "ss_stmts s k' = Some st" by (simp add: assms(4))
      with live cache_okD [OF assms(1) this] show ?thesis by (metis assms(5) fun_upd_apply)
    qed
  qed
qed

text \<open>What a cached operation does with the statement it has looked up, and with the cache.\<close>

definition bind_keeps :: "('db \<Rightarrow> nat \<Rightarrow> string option) \<Rightarrow> (world \<Rightarrow> 'db bind_ctx \<Rightarrow> (error \<times> 'db) + 'db bind_ctx) \<Rightarrow> world \<Rightarrow> bool" where
  "bind_keeps sql bnd w \<longleftrightarrow> (\<forall>ctx. 0 \<le> bc_index ctx \<longrightarrow> sql (bound_db (bnd w ctx)) = sql (bc_db ctx))"

lemma drop_stmt_ok:
  assumes "statement_texts api sql" and "cache_ok sql req s" and "ss_stmts s k = Some (Some h)"
    and "ss_stmts s' = ss_stmts s" and "sql (ss_db s') = sql (ss_db s)"
  shows "cache_ok sql req (fst (drop_stmt api k (Some h) e s'))"
proof (cases "exception_text e")
  case None
  from cache_ok_frame [OF assms(2,4,5)] None show ?thesis by (simp add: drop_stmt_def)
next
  case (Some what)
  show ?thesis
    by (rule cache_ok_drop [OF assms(2,3)]) (simp_all add: drop_stmt_def Some assms(4,5) call_texts(8) [OF assms(1)])
qed

lemma run_stmt_ok:
  assumes "statement_texts api sql" and "cache_ok sql req s" and "ss_stmts s k = Some (Some h)"
    and "bind_keeps sql bnd (ss_world s)" and "keeps (texts_frame sql) (exe (Some h))"
  shows "cache_ok sql req (fst (run_stmt api k (Some h) bnd exe s))"
proof -
  let ?ctx = "\<lparr>bc_stmt = Some h, bc_index = 0, bc_db = ss_db s\<rparr>"
  have bt: "sql (bound_db (bnd (ss_world s) ?ctx)) = sql (ss_db s)" using assms(4) by (simp add: bind_keeps_def)
  show ?thesis
  proof (cases "bnd (ss_world s) ?ctx")
    case (Inl f)
    obtain e db where f: "f = (e, db)" by force
    with Inl bt have "sql db = sql (ss_db s)" by (simp add: bound_db_def)
    then have "cache_ok sql req (fst (drop_stmt api k (Some h) e (s\<lparr>ss_db := db\<rparr>)))"
      by (intro drop_stmt_ok [OF assms(1-3)]) simp_all
    with Inl f show ?thesis by (simp add: run_stmt_def)
  next
    case (Inr ctx)
    with bt have b: "sql (bc_db ctx) = sql (ss_db s)" by (simp add: bound_db_def)
    obtain s' r where e: "exe (Some h) (s\<lparr>ss_db := bc_db ctx\<rparr>) = (s', r)" by force
    from keepsD [OF assms(5), of "s\<lparr>ss_db := bc_db ctx\<rparr>"] b
    have s': "ss_stmts s' = ss_stmts s" "sql (ss_db s') = sql (ss_db s)" by (simp_all add: e texts_frame_def)
    show ?thesis
    proof (cases r)
      case (Inl x)
      with drop_stmt_ok [OF assms(1-3) s'] show ?thesis by (simp add: run_stmt_def Inr e)
    next
      case [simp]: (Inr x)
      have "cache_ok sql req (s'\<lparr>ss_db := sq_clear_bindings api (Some h) (sq_reset api (Some h) (ss_db s'))\<rparr>)"
        by (rule cache_ok_frame [OF assms(2)]) (simp_all add: s' call_texts(6,7) [OF assms(1)])
      then show ?thesis by (simp add: run_stmt_def \<open>bnd _ _ = Inr ctx\<close> e)
    qed
  qed
qed

text \<open>
  An operation either fails because its text cannot be prepared, or runs a statement that has its
  text; it keeps the invariant in either case.
\<close>

definition runs_its_text where
  "runs_its_text api sql key mk t bnd exe s m \<longleftrightarrow>
     (\<exists>s' e. create_stmt api mk s = (s', Inl e) \<and> m = (s', Inl e) \<and> ss_stmts s' = ss_stmts s) \<or>
     (\<exists>s' h. m = run_stmt api key (Some h) bnd exe s' \<and> ss_world s' = ss_world s \<and>
        ss_stmts s' = (ss_stmts s)(key \<mapsto> Some h) \<and> sql (ss_db s') h = Some (c_str (t @ '';'')))"

lemma execute_ok:
  assumes "statement_texts api sql" and "cache_ok sql req s" and "\<And>t'. req key t' \<longleftrightarrow> t' = t"
    and "mk (ss_world s) = (ss_world s, Inr t)" and "t \<noteq> []" and "hd t \<in> set ''CDIRSU''"
    and "bind_keeps sql bnd (ss_world s)" and "\<And>st. keeps (texts_frame sql) (exe st)"
  shows "runs_its_text api sql key mk t bnd exe s (execute api False key mk bnd exe s)"
    and "cache_ok sql req (fst (execute api False key mk bnd exe s))"
proof -
  let ?m = "execute api False key mk bnd exe s"
  have run: "runs_its_text api sql key mk t bnd exe s ?m \<and> cache_ok sql req (fst ?m)"
    if "?m = run_stmt api key (Some h) bnd exe s'" "ss_world s' = ss_world s" "cache_ok sql req s'"
      "ss_stmts s' = (ss_stmts s)(key \<mapsto> Some h)" "sql (ss_db s') h = Some (c_str (t @ '';''))" for s' h
  proof
    show "runs_its_text api sql key mk t bnd exe s ?m"
      unfolding runs_its_text_def using that(1,2,4,5) by blast
    show "cache_ok sql req (fst ?m)"
      unfolding that(1) using that assms(7) by (intro run_stmt_ok [OF assms(1) that(3) _ _ assms(8)]) simp_all
  qed
  have "runs_its_text api sql key mk t bnd exe s ?m \<and> cache_ok sql req (fst ?m)"
  proof (cases "ss_stmts s key")
    case (Some st)
    from cache_okD [OF assms(2) Some] obtain h where
      h: "st = Some h" "sql (ss_db s) h = Some (c_str (t @ '';''))" using assms(3) by metis
    from Some h have "(ss_stmts s)(key \<mapsto> Some h) = ss_stmts s" by (simp add: fun_upd_idem)
    with Some h assms(2) show ?thesis by (intro run [of h s]) (simp_all add: execute_cached)
  next
    case None
    have key: "c_str (t @ '';'') \<noteq> []" "hd (c_str (t @ '';'')) \<in> set ''CDIRSU''"
      using assms(5,6) by (cases t; auto simp: c_str_def)+
    obtain ret st db where p: "sq_prepare api (c_str (t @ '';'')) (ss_db s) = ((ret, st), db)"
      by (metis prod.exhaust)
    have w: "in_world mk s = (s, Inr t)" using assms(4) by (simp add: in_world_def)
    note c = create_stmt_def [of api mk] bindS_apply w p
    show ?thesis
    proof (cases st)
      case [simp]: None
      note n = prepare_null [OF assms(1) p [unfolded None]]
      with key have "ret \<noteq> SQLITE_OK" by blast
      with \<open>ss_stmts s key = None\<close> cache_ok_frame [OF assms(2), of "s\<lparr>ss_db := db\<rparr>"] n(1) show ?thesis
        by (simp add: runs_its_text_def execute_def c)
    next
      case [simp]: (Some h)
      note n = prepare_text [OF assms(1) p [unfolded Some]]
      have "ret = SQLITE_OK"
        using assms(1) p unfolding statement_texts_def prepare_makes_text_def by fastforce
      let ?s = "s\<lparr>ss_db := db, ss_stmts := (ss_stmts s)(key \<mapsto> Some h)\<rparr>"
      have "cache_ok sql req ?s" using assms(3) by (intro cache_ok_add [OF assms(2) n(1), of key t]) (simp_all add: n fun_eq_iff)
      with \<open>ss_stmts s key = None\<close> \<open>ret = SQLITE_OK\<close> n(2) show ?thesis
        by (intro run [of h ?s]) (simp_all add: execute_def c)
    qed
  qed
  then show "runs_its_text api sql key mk t bnd exe s ?m" "cache_ok sql req (fst ?m)" by simp_all
qed

section \<open>The requests for one table\<close>

text \<open>
  The read requests of one result type on one table, and the delete requests (which are requests for a
  count) on it.  \<open>request_text\<close> relates the keys of these requests to their texts.
\<close>

definition table_request :: "world \<Rightarrow> ret_type \<Rightarrow> class_decl \<Rightarrow> read_cond \<Rightarrow> bool" where
  "table_request w ret c rc \<longleftrightarrow>
     rc_ret rc = ret \<and> rc_cys rc = Some c \<and> read_request_ok w rc \<and> request_hash_ok w rc"

definition delete_text :: "world \<Rightarrow> read_cond \<Rightarrow> string" where
  "delete_text w rc = ''DELETE FROM '' @ table_of w rc @ where_clause w rc"

inductive request_text :: "registry \<Rightarrow> ret_type \<Rightarrow> class_decl \<Rightarrow> string \<Rightarrow> string \<Rightarrow> bool" for reg ret c where
  reads: "w_reg w = reg \<Longrightarrow> table_request w ret c rc \<Longrightarrow>
    request_text reg ret c (rc_hash_value w rc) (select_text w rc)"
| deletes: "w_reg w = reg \<Longrightarrow> ret = Ret_int64 \<Longrightarrow> table_request w ret c rc \<Longrightarrow>
    request_text reg ret c (rc_hash_value w rc @ ''D'') (delete_text w rc)"

lemma table_requestD:
  assumes "table_request w ret c rc"
  shows "conds_ok w rc" "request_hash_ok w rc" "rc_ret rc = ret" "rc_cys rc = Some c" "read_request_ok w rc"
  using assms by (auto simp: table_request_def read_request_ok_def conds_ok_def)

lemma hash_length: "table_request w ret c rc \<Longrightarrow> length (rc_hash rc) mod 4 = 0"
proof -
  assume t: "table_request w ret c rc"
  have "length (concat (map hash_entry ps)) = 4 * length ps" for ps
    by (induction ps) simp_all
  then show ?thesis using table_requestD(2) [OF t] by (simp add: request_hash_ok_def)
qed

lemma count_key: "table_request w Ret_int64 c rc \<Longrightarrow> rc_hash_value w rc = class_name w c @ rc_hash rc"
  using table_requestD(3,4) [of w Ret_int64 c rc] by (simp add: rc_hash_value_def)

lemma read_key_no_delete_key:
  assumes "table_request w Ret_int64 c rc" and "table_request w' Ret_int64 c rc'" and "w_reg w = w_reg w'"
  shows "rc_hash_value w rc \<noteq> rc_hash_value w' rc' @ ''D''"
proof
  assume "rc_hash_value w rc = rc_hash_value w' rc' @ ''D''"
  then have "length (rc_hash rc) = Suc (length (rc_hash rc'))"
    by (simp add: count_key [OF assms(1)] count_key [OF assms(2)] same_registry(1) [OF assms(3)])
  with hash_length [OF assms(1)] hash_length [OF assms(2)] show False by presburger
qed

lemma delete_texts_equal:
  assumes "table_request w Ret_int64 c rc" and "table_request w' Ret_int64 c rc'" and "w_reg w = w_reg w'"
    and "rc_hash_value w rc = rc_hash_value w' rc'"
  shows "delete_text w rc = delete_text w' rc'"
proof -
  note r = table_requestD [OF assms(1)] and r' = table_requestD [OF assms(2)]
  have "rc_hash rc = rc_hash rc'"
    using assms(4) by (simp add: count_key [OF assms(1)] count_key [OF assms(2)] same_registry(1) [OF assms(3)])
  from equal_hashes_equal_conds [OF assms(3) r(4) r'(4) r(1) r'(1) r(2) r'(2) this] r r' show ?thesis
    by (simp add: delete_text_def same_registry(6) [OF assms(3)])
qed

lemma request_text_unique:
  assumes "request_text reg ret c k t" and "request_text reg ret c k t'"
  shows "t = t'"
  using assms(1)
proof cases
  case 1: (reads w rc)
  from assms(2) show ?thesis
  proof cases
    case 2: (reads w' rc')
    have reg: "w_reg w = w_reg w'" and key: "rc_hash_value w rc = rc_hash_value w' rc'" using 1 2 by simp_all
    note r = table_requestD [OF 1(4)] and r' = table_requestD [OF 2(4)]
    from equal_keys_equal_text_run [OF reg _ r(4) r'(4) r(1) r'(1) r(2) r'(2) key] r(3) r'(3) 1 2 show ?thesis by simp
  next
    case 2: (deletes w' rc')
    with 1 read_key_no_delete_key [of w c rc w' rc'] show ?thesis by simp
  qed
next
  case 1: (deletes w rc)
  from assms(2) show ?thesis
  proof cases
    case 2: (reads w' rc')
    with 1 read_key_no_delete_key [of w' c rc' w rc] show ?thesis by simp
  next
    case 2: (deletes w' rc')
    with 1 delete_texts_equal [of w c rc w' rc'] show ?thesis by simp
  qed
qed

lemma request_text_iff: "request_text reg ret c k t \<Longrightarrow> request_text reg ret c k t' \<longleftrightarrow> t' = t"
  using request_text_unique by blast

lemma table_bind_keeps:
  assumes "statement_texts api sql" and "table_request w ret c rc"
  shows "bind_keeps sql (\<lambda>w ctx. bind_read api w ctx rc) w"
  unfolding bind_keeps_def
proof (intro allI impI bind_read_text [OF assms(1)])
  assume "has_cond rc"
  with table_requestD(1) [OF assms(2)] show "\<exists>c ps. conds_of w rc c ps \<and> ps \<noteq> []"
    by (auto simp: conds_ok_def first_is_field_def)
qed

lemma ctx_read_ok:
  assumes "statement_texts api sql" and "w_reg (ss_world s) = reg" and "table_request (ss_world s) ret c rc"
    and "cache_ok sql (request_text reg ret c) s"
  shows "runs_its_text api sql (rc_hash_value (ss_world s) rc) (query_text (query_make rc))
      (select_text (ss_world s) rc) (\<lambda>w ctx. bind_read api w ctx rc) (\<lambda>st. exec fuel api st ro) s
      (ctx_read fuel api False ro rc s)"
    and "cache_ok sql (request_text reg ret c) (fst (ctx_read fuel api False ro rc s))"
proof -
  note t = request_text_iff [OF reads [OF assms(2,3)]]
  note q = query_text_run [OF table_requestD(5) [OF assms(3)]]
  have "select_text (ss_world s) rc \<noteq> []" "hd (select_text (ss_world s) rc) \<in> set ''CDIRSU''"
    by (simp_all add: select_text_def)
  from execute_ok [where mk = "query_text (query_make rc)" and exe = "\<lambda>st. exec fuel api st ro"
      and bnd = "\<lambda>w ctx. bind_read api w ctx rc" and req = "request_text reg ret c"
      and key = "rc_hash_value (ss_world s) rc" and t = "select_text (ss_world s) rc", OF assms(1,4) t q this table_bind_keeps [OF assms(1,3)]
      texts_exec [OF assms(1)]]
  show "runs_its_text api sql (rc_hash_value (ss_world s) rc) (query_text (query_make rc))
      (select_text (ss_world s) rc) (\<lambda>w ctx. bind_read api w ctx rc) (\<lambda>st. exec fuel api st ro) s
      (ctx_read fuel api False ro rc s)"
    "cache_ok sql (request_text reg ret c) (fst (ctx_read fuel api False ro rc s))"
    by (simp_all add: ctx_read_def)
qed

lemma delete_make_run:
  assumes "table_request w ret c rc"
  shows "delete_make w rc = Inr (delete_text w rc)"
proof -
  note r = table_requestD [OF assms]
  have "has_cond rc \<longrightarrow> (\<exists>ps. conds_of w rc c ps \<and> first_is_field ps)"
    using r(1,4) by (auto simp: conds_ok_def conds_of_def)
  from delete_make_text [OF r(4) this] r(4) show ?thesis by (simp add: delete_text_def table_of_def)
qed

lemma ctx_del_ok:
  assumes "statement_texts api sql" and "w_reg (ss_world s) = reg" and "table_request (ss_world s) Ret_int64 c rc"
    and "cache_ok sql (request_text reg Ret_int64 c) s"
  shows "runs_its_text api sql (rc_hash_value (ss_world s) rc @ ''D'') (\<lambda>w. (w, delete_make w rc))
      (delete_text (ss_world s) rc) (\<lambda>w ctx. bind_read api w ctx rc) (\<lambda>st. exec_entity fuel api st 0) s
      (ctx_del fuel api False rc s)"
    and "cache_ok sql (request_text reg Ret_int64 c) (fst (ctx_del fuel api False rc s))"
proof -
  note t = request_text_iff [OF deletes [OF assms(2) refl assms(3)]]
  have "delete_text (ss_world s) rc \<noteq> []" "hd (delete_text (ss_world s) rc) \<in> set ''CDIRSU''"
    by (simp_all add: delete_text_def)
  note e = execute_ok [where mk = "\<lambda>w. (w, delete_make w rc)" and exe = "\<lambda>st. exec_entity fuel api st 0",
      OF assms(1,4) t _ this table_bind_keeps [OF assms(1,3)] texts_exec_entity [OF assms(1)]]
  show "runs_its_text api sql (rc_hash_value (ss_world s) rc @ ''D'') (\<lambda>w. (w, delete_make w rc))
      (delete_text (ss_world s) rc) (\<lambda>w ctx. bind_read api w ctx rc) (\<lambda>st. exec_entity fuel api st 0) s
      (ctx_del fuel api False rc s)"
    "cache_ok sql (request_text reg Ret_int64 c) (fst (ctx_del fuel api False rc s))"
    using e by (simp_all add: ctx_del_def delete_make_run [OF assms(3)])
qed

section \<open>Runs of a connection\<close>

text \<open>
  Between the requests that a connection serves, clients change their objects in any way; plain
  statements (inserts, create table) do not use the cache.
\<close>

inductive cache_step ::
  "nat \<Rightarrow> 'db sqlite_api \<Rightarrow> registry \<Rightarrow> ret_type \<Rightarrow> class_decl \<Rightarrow> 'db sq_state \<Rightarrow> 'db sq_state \<Rightarrow> bool"
  for fuel api reg ret c where
  client: "cache_step fuel api reg ret c s (s\<lparr>ss_world := w\<rparr>)"
| writes: "cache_step fuel api reg ret c s (fst (ctx_write api sql s))"
| reads_rows: "w_reg (ss_world s) = reg \<Longrightarrow> table_request (ss_world s) ret c rc \<Longrightarrow>
    cache_step fuel api reg ret c s (fst (ctx_read fuel api False ro rc s))"
| deletes_rows: "w_reg (ss_world s) = reg \<Longrightarrow> ret = Ret_int64 \<Longrightarrow> table_request (ss_world s) ret c rc \<Longrightarrow>
    cache_step fuel api reg ret c s (fst (ctx_del fuel api False rc s))"

lemma conn_step_ok:
  assumes "statement_texts api sql" and "cache_step fuel api reg ret c s s'"
    and "cache_ok sql (request_text reg ret c) s"
  shows "cache_ok sql (request_text reg ret c) s'"
  using assms(2)
proof cases
  case (client w)
  with cache_ok_frame [OF assms(3)] show ?thesis by simp
next
  case (writes t)
  obtain code db where "sq_exec api (c_str t) (ss_db s) = (code, db)" by force
  with writes call_texts(1) [OF assms(1)] cache_ok_frame [OF assms(3)] show ?thesis by (simp add: ctx_write_def)
next
  case (reads_rows rc ro)
  with ctx_read_ok(2) [OF assms(1) _ _ assms(3)] show ?thesis by blast
next
  case (deletes_rows rc)
  with ctx_del_ok(2) [OF assms(1)] assms(3) show ?thesis by blast
qed

lemma conn_run_ok:
  assumes "statement_texts api sql" and "(cache_step fuel api reg ret c)\<^sup>*\<^sup>* s s'"
    and "cache_ok sql (request_text reg ret c) s"
  shows "cache_ok sql (request_text reg ret c) s'"
  using assms(2,3) by (induction rule: rtranclp_induct) (auto intro: conn_step_ok [OF assms(1)])

lemma empty_cache_ok: "ss_stmts s = Map.empty \<Longrightarrow> cache_ok sql req s"
  by (simp add: cache_ok_def cached_texts_def unshared_def)



section \<open>One result or a container of results\<close>

text \<open>The C++ type of the result object that a caller passes; containers are vectors here.\<close>

fun result_type :: "result \<Rightarrow> cxx_type" where
  "result_type (R_int v) = T_number"
| "result_type (R_obj c p) = T_object (cd_name c)"
| "result_type (R_ints vs) = T_vector T_number"
| "result_type (R_objs c ps) = T_vector (T_object (cd_name c))"

text \<open>The two overloads of \<open>exec\<close> are told apart by \<open>IsSequenceContainer\<close>.\<close>

lemma exec_overload:
  "exec fuel api st ro =
     (if IsSequenceContainer (result_type ro) then exec_rows fuel api st ro else exec_one api st ro)"
  by (cases ro) (simp_all add: exec_def IsSequenceContainer_def)

section \<open>A concrete library\<close>

text \<open>A library whose state is the list of the texts of its statements; no statement yields a row.\<close>

definition texts_api :: "string option list sqlite_api" where
  "texts_api =
     \<lparr>sq_prepare = (\<lambda>t db. ((0, Some (length db)), db @ [Some t])), sq_exec = (\<lambda>s db. (0, db)),
      sq_bind_text = (\<lambda>st i s db. (0, db)), sq_bind_int = (\<lambda>st i x db. (0, db)),
      sq_bind_int64 = (\<lambda>st i x db. (0, db)),
      sq_step = (\<lambda>st db. (101, db)), sq_reset = (\<lambda>st db. db), sq_clear_bindings = (\<lambda>st db. db),
      sq_finalize = (\<lambda>st db. case st of None \<Rightarrow> db | Some h \<Rightarrow> db[h := None]),
      sq_column_text = (\<lambda>st i db. None), sq_column_int = (\<lambda>st i db. 0), sq_column_int64 = (\<lambda>st i db. 0),
      sq_errstr = (\<lambda>i. ''error''), sq_errmsg = (\<lambda>db. ''error'')\<rparr>"

definition texts_sql :: "string option list \<Rightarrow> nat \<Rightarrow> string option" where
  "texts_sql db h = (if h < length db then db ! h else None)"

lemma texts_api_texts: "statement_texts texts_api texts_sql"
proof -
  have "texts_sql (db @ [Some t]) = (texts_sql db)(length db \<mapsto> t)" for db t
    by (auto simp: fun_eq_iff texts_sql_def nth_append)
  moreover have "texts_sql (db[h := None]) = (texts_sql db)(h := None)" for db h
    by (auto simp: fun_eq_iff texts_sql_def)
  ultimately show ?thesis
    by (simp add: statement_texts_def prepare_makes_text_def finalize_drops_text_def others_keep_text_def
        texts_api_def SQLITE_OK_def) (simp add: texts_sql_def)
qed

definition texts_state :: "string option list sq_state" where
  "texts_state = \<lparr>ss_world = sample_world, ss_db = [], ss_stmts = Map.empty\<rparr>"

lemma sample_count_request: "table_request sample_world Ret_int64 ComponentDB sample_count"
proof -
  have "class_members sample_world ComponentDB \<noteq> []"
    using sample_count_member by auto
  then show ?thesis
    by (simp add: table_request_def read_request_ok_def request_hash_ok_def ret_ok_def has_cond_def sample_count_def
        rc_append_table_def ReadCondImpl_def)
qed

lemma sample_count_key: "rc_hash_value sample_world sample_count = ''tc''"
  using sample_key by (simp add: sample_state_def)

lemma sample_count_text: "select_text sample_world sample_count = ''SELECT COUNT(c) FROM tc''"
  using query_text_run [OF table_requestD(5) [OF sample_count_request]]
    read_and_count_run [OF sample_ret_ok sample_count_member]
  by (simp add: sample_count_def mi_get_name_def)

lemma texts_count_run:
  "ctx_read 2 texts_api False (R_int None) sample_count texts_state =
     (texts_state\<lparr>ss_db := [Some ''SELECT COUNT(c) FROM tc;''], ss_stmts := [''tc'' \<mapsto> Some 0]\<rparr>, Inr (R_int None))"
proof -
  have nb: "\<not> has_cond sample_count"
    by (simp add: sample_count_def rc_append_table_def ReadCondImpl_def has_cond_def)
  have "query_text (query_make sample_count) sample_world = (sample_world, Inr ''SELECT COUNT(c) FROM tc'')"
    using query_text_run [OF table_requestD(5) [OF sample_count_request]] by (simp add: sample_count_text)
  then show ?thesis
    by (simp add: ctx_read_def texts_state_def sample_count_key execute_def create_stmt_def bindS_apply in_world_def
        texts_api_def c_str_def SQLITE_OK_def run_stmt_def bind_read_def nb exec_def exec_one_def step_stmt_def
        SQLITE_ROW_def)
qed

definition texts_after :: "string option list sq_state" where
  "texts_after = texts_state\<lparr>ss_db := [Some ''SELECT COUNT(c) FROM tc;''], ss_stmts := [''tc'' \<mapsto> Some 0]\<rparr>"

lemma texts_after_reached:
  "(cache_step 2 texts_api (w_reg sample_world) Ret_int64 ComponentDB)\<^sup>*\<^sup>* texts_state texts_after"
proof -
  have w: "ss_world texts_state = sample_world" by (simp add: texts_state_def)
  have "cache_step 2 texts_api (w_reg sample_world) Ret_int64 ComponentDB texts_state
      (fst (ctx_read 2 texts_api False (R_int None) sample_count texts_state))"
    by (rule cache_step.reads_rows) (simp_all add: w sample_count_request)
  then show ?thesis unfolding texts_count_run fst_conv texts_after_def by (rule r_into_rtranclp)
qed



end
