(* ===== verification/Yan_Read.thy ===== *)
theory Yan_Read
  imports Yan_Facade Yan_Cache
begin

text \<open>
  A read from the user's call to the objects in the future: the request's text and operands, the statement
  (cached or new), the rows, and one fresh object per row.
\<close>

section \<open>One object per row\<close>

text \<open>A known table class whose members can be fetched.\<close>

definition row_class :: "class_decl \<Rightarrow> world \<Rightarrow> bool" where
  "row_class c w \<longleftrightarrow> registry_ok (w_reg w) \<and> table_class c \<and> class_ready (w_reg w) c \<and>
     w_reg w (cd_name c) \<noteq> None \<and> list_all fetchable (cd_members c)"

text \<open>
  The object holds the current row: the i-th declared member has the i-th column and is flagged, unless
  the column is a NULL text; no member counts as assigned by the user.
\<close>

definition holds_row :: "'db sqlite_api \<Rightarrow> stmt \<Rightarrow> class_decl \<Rightarrow> 'db \<Rightarrow> yan_obj \<Rightarrow> bool" where
  "holds_row api st c db ob \<longleftrightarrow> ob_class ob = c \<and> ob_seqset ob = [] \<and> ob_conds ob = None \<and>
     (\<forall>i < length (cd_members c). \<exists>m.
        ob_mems ob (member_decl_name (cd_members c ! i)) = Some (MO_value m) \<and>
        (case column_value api st db (decl_ctype (cd_members c ! i)) (int i) of
           None \<Rightarrow> \<not> vm_flag m
         | Some v \<Rightarrow> vm_flag m \<and> vm_value m = Some v))"

lemma fetch_new_object:
  assumes "row_class c w"
  shows "\<exists>w' ob. bindS (new_object c []) (\<lambda>p. bindS (fetch_object api st db c p) (\<lambda>_. returnS p)) w = (w', Inr (w_next w)) \<and>
    w_objs w' = (w_objs w)(w_next w \<mapsto> ob) \<and> holds_row api st c db ob \<and>
    w_next w' = w_next w + 1 \<and> w_reg w' = w_reg w \<and> w_plists w' = w_plists w"
proof -
  note c = assms [unfolded row_class_def]
  obtain w1 ob where new: "new_object c [] w = (w1, Inr (w_next w))" "w_objs w1 (w_next w) = Some ob"
    "table_ok w1 (w_next w) ob" "ob_class ob = c" "ob_seqset ob = []" "ob_conds ob = None"
    "w_objs w1 = (w_objs w)(w_next w \<mapsto> ob)" "w_plists w1 = w_plists w" "w_next w1 = w_next w + 1" "w_reg w1 = w_reg w"
    using new_table_object_run [of w c] c by blast
  let ?g = "fetched_members api st db (-1) (cd_members c)"
  let ?ob = "ob\<lparr>ob_mems := ?g (ob_mems ob)\<rparr>"
  have member: "\<exists>m. ob_mems ob (member_decl_name (cd_members c ! i)) = Some (MO_value m) \<and> \<not> vm_flag m"
    if "i < length (cd_members c)" for i
  proof -
    from new(3) that new(4) obtain mem t args m where "cd_members c ! i = MEMBER mem t args"
      "ob_mems ob mem = Some (MO_value m)" "value_member_ok (w_next w) t (of_nat i \<in> set (ob_seqset ob)) m"
      unfolding table_ok_def by metis
    then show ?thesis by (simp add: new(5) value_member_ok_def)
  qed
  have "\<exists>m. ob_mems ob (member_decl_name d) = Some (MO_value m)" if "d \<in> set (cd_members c)" for d
    using member that by (metis in_set_conv_nth)
  then have mems: "\<forall>d \<in> set (cd_members c). \<exists>m. ob_mems ob (member_decl_name d) = Some (MO_value m)" by blast
  have "class_ready (w_reg w1) c" "list_all fetchable (cd_members c)" using c new(10) by simp_all
  from fetch_object_run [OF this new(2) mems]
  have run: "fetch_object api st db c (w_next w) w1 = (put_obj (w_next w) ?ob w1, Inr ())" .
  have "distinct (map member_decl_name (cd_members c))" using c by (simp add: class_ready_def)
  note at = fetched_members_at [OF this, of _ "ob_mems ob" _ api st db "-1"]
  have "holds_row api st c db ?ob"
    unfolding holds_row_def
  proof (intro conjI allI impI)
    fix i
    assume i: "i < length (cd_members c)"
    from member [OF this] obtain m where
      m: "ob_mems ob (member_decl_name (cd_members c ! i)) = Some (MO_value m)" "\<not> vm_flag m" by blast
    from at [OF i m(1)] m(2)
    show "\<exists>m. ob_mems ?ob (member_decl_name (cd_members c ! i)) = Some (MO_value m) \<and>
        (case column_value api st db (decl_ctype (cd_members c ! i)) (int i) of
           None \<Rightarrow> \<not> vm_flag m
         | Some v \<Rightarrow> vm_flag m \<and> vm_value m = Some v)"
      by (auto simp: fetched_def split: option.split)
  qed (use new in simp_all)
  with run new show ?thesis
    by (intro exI [of _ "put_obj (w_next w) ?ob w1"] exI [of _ ?ob]) (simp add: bindS_apply)
qed

lemma exec_row_new_object:
  assumes "row_class c (ss_world s)"
  shows "\<exists>w' ob. exec_row api st (R_objs c ps) s = (s\<lparr>ss_world := w'\<rparr>, Inr (R_objs c (ps @ [w_next (ss_world s)]))) \<and>
    w_objs w' = (w_objs (ss_world s))(w_next (ss_world s) \<mapsto> ob) \<and> holds_row api st c (ss_db s) ob \<and>
    w_next w' = w_next (ss_world s) + 1 \<and> w_reg w' = w_reg (ss_world s) \<and> w_plists w' = w_plists (ss_world s)"
proof -
  from fetch_new_object [OF assms, of api st "ss_db s"] obtain w' ob where
    run: "bindS (new_object c []) (\<lambda>p. bindS (fetch_object api st (ss_db s) c p) (\<lambda>_. returnS p)) (ss_world s) =
      (w', Inr (w_next (ss_world s)))"
    and w': "w_objs w' = (w_objs (ss_world s))(w_next (ss_world s) \<mapsto> ob)" "holds_row api st c (ss_db s) ob"
      "w_next w' = w_next (ss_world s) + 1" "w_reg w' = w_reg (ss_world s)" "w_plists w' = w_plists (ss_world s)" by blast
  have "exec_row api st (R_objs c ps) s = (s\<lparr>ss_world := w'\<rparr>, Inr (R_objs c (ps @ [w_next (ss_world s)])))"
    using run by (auto simp: exec_row_def bindS_apply in_world_def fetch_value_def split: prod.splits sum.splits)
  with w' show ?thesis by blast
qed

text \<open>The world after a read: the result's objects are new, and everything else is as it was.\<close>

definition adds_rows :: "'db sqlite_api \<Rightarrow> stmt \<Rightarrow> class_decl \<Rightarrow> 'db list \<Rightarrow> world \<Rightarrow> world \<Rightarrow> addr list \<Rightarrow> bool" where
  "adds_rows api st c rs w w' qs \<longleftrightarrow>
     list_all2 (\<lambda>row q. \<exists>ob. w_objs w' q = Some ob \<and> holds_row api st c row ob) rs qs \<and>
     (\<forall>q \<in> set qs. w_next w \<le> q \<and> q < w_next w') \<and> w_next w \<le> w_next w' \<and>
     (\<forall>a < w_next w. w_objs w' a = w_objs w a) \<and> w_reg w' = w_reg w \<and> w_plists w' = w_plists w"

lemma adds_rows_Cons:
  assumes "adds_rows api st c rs w1 w' qs" and "holds_row api st c r ob"
    and "w_objs w1 = (w_objs w)(w_next w \<mapsto> ob)" and "w_next w1 = w_next w + 1"
    and "w_reg w1 = w_reg w" and "w_plists w1 = w_plists w"
  shows "adds_rows api st c (r # rs) w w' (w_next w # qs)"
proof -
  from assms(1) have "w_objs w' (w_next w) = w_objs w1 (w_next w)" by (simp add: adds_rows_def assms(4))
  then have "w_objs w' (w_next w) = Some ob" by (simp add: assms(3))
  moreover have "w_objs w' a = w_objs w a" if "a < w_next w" for a
    using assms(1) that by (simp add: adds_rows_def assms(3,4))
  ultimately show ?thesis
    using assms(1,2) by (auto simp: adds_rows_def assms(4-6))
qed

lemma row_class_same: "row_class c w \<Longrightarrow> w_reg w' = w_reg w \<Longrightarrow> row_class c w'"
  by (simp add: row_class_def)

lemma exec_rows_objects:
  assumes "row_class c (ss_world s)" and "rows_then api st code d (ss_db s) rs" and "code \<noteq> SQLITE_ROW"
    and "length rs < fuel"
  shows "\<exists>w' qs. adds_rows api st c rs (ss_world s) w' qs \<and>
    exec_rows fuel api st (R_objs c ps) s = (s\<lparr>ss_world := w', ss_db := d\<rparr>,
      if code = SQLITE_DONE then Inr (R_objs c (ps @ qs))
      else Inl (errmsg api d ''sqlite query multi-value failed: '' code))"
  using assms(1,2,4)
proof (induction rs arbitrary: s ps fuel)
  case Nil
  from Nil.prems(3) obtain n where "fuel = Suc n" by (cases fuel) simp_all
  with Nil.prems(2) assms(3) show ?case
    by (intro exI [of _ "ss_world s"] exI [of _ "[]"]) (auto simp: adds_rows_def bindS_apply step_stmt_run)
next
  case (Cons r rs)
  from Cons.prems(3) obtain n where f: "fuel = Suc n" "length rs < n" by (cases fuel) simp_all
  let ?s = "s\<lparr>ss_db := r\<rparr>"
  from Cons.prems(2) have step: "step_stmt api st s = (?s, Inr SQLITE_ROW)" by (auto intro: step_stmt_run)
  from exec_row_new_object [of c ?s api st ps] Cons.prems(1) obtain w1 ob where
    row: "exec_row api st (R_objs c ps) ?s = (?s\<lparr>ss_world := w1\<rparr>, Inr (R_objs c (ps @ [w_next (ss_world s)])))"
    and w1: "w_objs w1 = (w_objs (ss_world s))(w_next (ss_world s) \<mapsto> ob)" "holds_row api st c r ob"
      "w_next w1 = w_next (ss_world s) + 1" "w_reg w1 = w_reg (ss_world s)" "w_plists w1 = w_plists (ss_world s)" by auto
  let ?t = "?s\<lparr>ss_world := w1\<rparr>"
  have "row_class c (ss_world ?t)" using Cons.prems(1) w1(4) by (simp add: row_class_same)
  moreover have "rows_then api st code d (ss_db ?t) rs" using Cons.prems(2) by simp
  ultimately obtain w' qs where IH: "adds_rows api st c rs w1 w' qs"
    "exec_rows n api st (R_objs c (ps @ [w_next (ss_world s)])) ?t = (?t\<lparr>ss_world := w', ss_db := d\<rparr>,
      if code = SQLITE_DONE then Inr (R_objs c ((ps @ [w_next (ss_world s)]) @ qs))
      else Inl (errmsg api d ''sqlite query multi-value failed: '' code))"
    using Cons.IH [of ?t n "ps @ [w_next (ss_world s)]"] f(2) by auto
  have "exec_rows fuel api st (R_objs c ps) s = exec_rows n api st (R_objs c (ps @ [w_next (ss_world s)])) ?t"
    by (simp add: f(1) bindS_apply step row)
  with IH(2) adds_rows_Cons [OF IH(1) w1(2,1,3-5)] show ?case
    by (intro exI [of _ w'] exI [of _ "w_next (ss_world s) # qs"]) simp
qed

section \<open>The statement of a request\<close>

text \<open>The statement in the cache, or a new one made from the request's text.\<close>

definition statement_for ::
  "'db sqlite_api \<Rightarrow> (string \<Rightarrow> stmt option) \<Rightarrow> string \<Rightarrow> string \<Rightarrow> 'db \<Rightarrow> 'db \<times> stmt res" where
  "statement_for api cache key t db =
     (case cache key of
        Some st \<Rightarrow> (db, Inr st)
      | None \<Rightarrow>
          (case sq_prepare api (c_str (t @ '';'')) db of
             ((ret, st), db') \<Rightarrow>
               (db', if ret \<noteq> SQLITE_OK then Inl (errmsg api db' ''sqlite create prepared statement failed'' ret)
                     else Inr st)))"

lemma execute_statement:
  assumes "statement_for api (ss_stmts s) key t (ss_db s) = (db1, Inr st)"
    and "mk (ss_world s) = (ss_world s, Inr t)"
  shows "execute api kf key mk bnd exe s =
    run_stmt api key st bnd exe (s\<lparr>ss_db := db1, ss_stmts := (ss_stmts s)(key \<mapsto> st)\<rparr>)"
proof (cases "ss_stmts s key")
  case None
  then show ?thesis
    using assms by (auto simp: statement_for_def execute_def create_stmt_def bindS_apply in_world_def split: prod.splits if_splits)
next
  case (Some st')
  with assms(1) have "st' = st" "db1 = ss_db s" by (simp_all add: statement_for_def)
  moreover have "s\<lparr>ss_db := ss_db s, ss_stmts := ss_stmts s\<rparr> = s" by simp
  ultimately show ?thesis using Some by (simp add: execute_cached fun_upd_idem)
qed

text \<open>The conditions of a request are bound one after the other.\<close>

lemma bind_read_db:
  assumes "conds_ok w rc" and "bind_seq api st 0 (cond_operands w rc) db1 = Inr db2"
  shows "\<exists>ctx. bind_read api w \<lparr>bc_stmt = st, bc_index = 0, bc_db = db1\<rparr> rc = Inr ctx \<and> bc_db ctx = db2"
proof (cases "has_cond rc")
  case False
  with assms(2) show ?thesis by (simp add: bind_read_def cond_operands_def)
next
  case True
  with assms(1) obtain c ps where "conds_of w rc c ps" "ps \<noteq> []" by (auto simp: conds_ok_def first_is_field_def)
  from bind_read_run [OF this, of "\<lparr>bc_stmt = st, bc_index = 0, bc_db = db1\<rparr>" api] assms(2) show ?thesis
    by (simp add: bound_def)
qed

text \<open>A request whose statement is had, whose values are bound and whose run succeeds or fails.\<close>

lemma request_served:
  assumes "statement_for api (ss_stmts s) key t (ss_db s) = (db1, Inr st)"
    and "mk (ss_world s) = (ss_world s, Inr t)"
    and "bnd (ss_world s) \<lparr>bc_stmt = st, bc_index = 0, bc_db = db1\<rparr> = Inr ctx"
    and "exe st (s\<lparr>ss_stmts := (ss_stmts s)(key \<mapsto> st), ss_db := bc_db ctx\<rparr>) = (s', r)"
  shows "execute api kf key mk bnd exe s =
    (case r of
       Inr x \<Rightarrow> (s'\<lparr>ss_db := sq_clear_bindings api st (sq_reset api st (ss_db s'))\<rparr>, Inr x)
     | Inl e \<Rightarrow> drop_stmt api key st e s')"
  using assms(3,4) by (simp add: execute_statement [where mk = mk, OF assms(1,2)] run_stmt_def split: sum.split)

text \<open>
  A read of a container on a connection: when the statement is had, its operands are taken and the
  rows come, the result holds one new object per row, the statement stays in the cache, and it is reset.
\<close>

lemma ctx_read_objects:
  assumes ok: "read_request_ok (ss_world s) rc" and c: "row_class c (ss_world s)"
    and st: "statement_for api (ss_stmts s) (rc_hash_value (ss_world s) rc) (select_text (ss_world s) rc) (ss_db s) = (db1, Inr st)"
    and bnd: "bind_seq api st 0 (cond_operands (ss_world s) rc) db1 = Inr db2"
    and rows: "rows_then api st SQLITE_DONE d db2 rs" "length rs < fuel"
  shows "\<exists>w' qs. adds_rows api st c rs (ss_world s) w' qs \<and>
    ctx_read fuel api kf (R_objs c []) rc s =
      (s\<lparr>ss_world := w', ss_db := sq_clear_bindings api st (sq_reset api st d),
         ss_stmts := (ss_stmts s)(rc_hash_value (ss_world s) rc \<mapsto> st)\<rparr>, Inr (R_objs c qs))"
proof -
  let ?key = "rc_hash_value (ss_world s) rc"
  let ?s = "s\<lparr>ss_stmts := (ss_stmts s)(?key \<mapsto> st), ss_db := db2\<rparr>"
  have "conds_ok (ss_world s) rc" using ok by (simp add: read_request_ok_def conds_ok_def)
  from bind_read_db [OF this bnd] obtain ctx where
    ctx: "bind_read api (ss_world s) \<lparr>bc_stmt = st, bc_index = 0, bc_db = db1\<rparr> rc = Inr ctx" "bc_db ctx = db2" by blast
  have "row_class c (ss_world ?s)" "rows_then api st SQLITE_DONE d (ss_db ?s) rs" using c rows(1) by simp_all
  from exec_rows_objects [OF this _ rows(2), of "[]"] obtain w' qs where
    rs: "adds_rows api st c rs (ss_world s) w' qs"
      "exec fuel api st (R_objs c []) ?s = (?s\<lparr>ss_world := w', ss_db := d\<rparr>, Inr (R_objs c qs))"
    by (auto simp: exec_def)
  note served = request_served [where mk = "query_text (query_make rc)" and bnd = "\<lambda>w ctx. bind_read api w ctx rc" and exe = "\<lambda>st. exec fuel api st (R_objs c [])",
      OF st query_text_run [OF ok] ctx(1), unfolded ctx(2), OF rs(2)]
  with rs(1) show ?thesis by (intro exI [of _ w'] exI [of _ qs]) (simp add: ctx_read_def)
qed

section \<open>A read from the user's call to the future\<close>

text \<open>
  A read into a container through the facade, with the connection open and nothing else waiting.  When
  the request's statement is cached or its text is accepted, its operands are taken and the statement
  delivers its rows, then after the worker's next turn the future holds a container with one new object per
  row, in the order of the rows, each holding its row; no object, registry entry or condition list of the
  user has changed; the statement is reset and stays in the cache.
\<close>

theorem read_end_to_end:
  fixes s :: "'db sqlite"
  assumes "sqlite_reachable cf s" and "\<not> tp_stop (ft_operators s)" and "accepts []" and "waiting s = []"
    and "ft_state s = (p, en)" and "pl_conns p = [h]"
    and "read_prehandle (en_world en) (Many (Ret_class c)) args = Inr rc"
    and "read_request_ok (en_world en) rc" and "row_class c (en_world en)"
  defines "api \<equiv> lib_conn (cf_lib cf) h" and "key \<equiv> rc_hash_value (en_world en) rc"
  assumes "statement_for api (en_caches en h) key (select_text (en_world en) rc) (en_db en) = (db1, Inr st)"
    and "bind_seq api st 0 (cond_operands (en_world en) rc) db1 = Inr db2"
    and "rows_then api st SQLITE_DONE d db2 rs" and "length rs < cf_fuel cf"
  shows "\<exists>s1 w' qs. send cf accepts (Req_read (Many (Ret_class c)) args) s = (s1, Inr (ft_next s)) \<and>
    adds_rows api st c rs (en_world en) w' qs \<and>
    (let s2 = worker_turn (run_job cf) s1 in
       ft_promises s2 (ft_next s) = Value_set (Re_result (R_objs c qs)) \<and>
       ft_state s2 = (p, en\<lparr>en_world := w', en_db := sq_clear_bindings api st (sq_reset api st d),
         en_caches := (en_caches en)(h := (en_caches en h)(key \<mapsto> st))\<rparr>))"
proof -
  let ?k = "Many (Ret_class c)" and ?t = "\<lparr>ss_world = en_world en, ss_db = en_db en, ss_stmts = en_caches en h\<rparr>"
  let ?m = "\<lambda>api. ctx_read (cf_fuel cf) api (cf_key_first cf) (R_objs c []) rc"
  have t: "read_request_ok (ss_world ?t) rc" "row_class c (ss_world ?t)"
    "statement_for api (ss_stmts ?t) (rc_hash_value (ss_world ?t) rc) (select_text (ss_world ?t) rc) (ss_db ?t) = (db1, Inr st)"
    "bind_seq api st 0 (cond_operands (ss_world ?t) rc) db1 = Inr db2"
    using assms(8,9,12,13) by (simp_all add: key_def)
  from ctx_read_objects [OF t assms(14,15), of "cf_key_first cf"] obtain w' qs where
    w': "adds_rows api st c rs (en_world en) w' qs"
    and run: "?m api ?t =
      (?t\<lparr>ss_world := w', ss_db := sq_clear_bindings api st (sq_reset api st d), ss_stmts := (en_caches en h)(key \<mapsto> st)\<rparr>,
       Inr (R_objs c qs))"
    by (auto simp: key_def)
  have job: "bindS (prepare cf (Req_read ?k args)) (\<lambda>pre. pre) (en_world en) = (en_world en, Inr (J_read ?k rc))"
    by (simp add: prepare_def bindS_apply assms(7))
  have handler: "run_job cf (J_read ?k rc) x = answered Re_result (handle (cf_lib cf) ?m x)" for x
    by (cases x) (simp add: read_handle_def ret_in_yan_def)
  from job_turn [where accepts = accepts, OF assms(1-6) _ job handler run [unfolded api_def]] w' show ?thesis
    by (simp add: Let_def api_def) blast
qed

section \<open>A concrete run\<close>

text \<open>The objects of \<open>ComponentDB\<close> with the name of the object at 0: one row, a new object at 7.\<close>

lemma sample_row_class: "row_class ComponentDB sample_world"
  by (simp add: row_class_def sample_fetchable sample_registry_ok) (simp add: sample_reg_def ComponentDB_def)

definition sample_named :: read_cond where
  "sample_named = \<lparr>rc_ret = Ret_class ComponentDB, rc_cys = Some ComponentDB, rc_params = Some 1,
     rc_hash = concat (map hash_entry sample_conds0)\<rparr>"

lemma sample_named_request:
  "read_prehandle sample_world (Many (Ret_class ComponentDB)) [(ComponentDB, 0)] = Inr sample_named"
  "conds_of sample_world sample_named ComponentDB sample_conds0"
  "read_request_ok sample_world sample_named"
proof -
  have ob: "ob_conds (sample_obj 0) = Some 1" "ob_hashv (sample_obj 0) = concat (map hash_entry sample_conds0)"
    by (simp_all add: sample_obj_def with_conds_def)
  then show "read_prehandle sample_world (Many (Ret_class ComponentDB)) [(ComponentDB, 0)] = Inr sample_named"
    by (simp add: read_prehandle_def rc_append_def rc_append1_def sample_named_def ReadCondImpl_def)
  show c: "conds_of sample_world sample_named ComponentDB sample_conds0"
    by (simp add: conds_of_def sample_named_def rc_param_list_def)
  have "ret_ok sample_world sample_named"
    using sample_ret_ok by (simp add: ret_ok_def sample_named_def ReadCondImpl_def)
  with c sample_first(2) show "read_request_ok sample_world sample_named" by (auto simp: read_request_ok_def)
qed

lemma sample_named_operands:
  "cond_operands sample_world sample_named = [(''n'', T_val C_string, PV (V_string ''MySQL''))]"
  using conds_of_unique [OF sample_named_request(2)]
  by (simp add: cond_operands_def sample_class_members)
    (simp add: sample_conds0_def cond_bind_item_def make_param_def ComponentDB_def mi_get_name_def)

theorem read_end_to_end_witness:
  "\<exists>s1 w' q ob m. send sample_cf (\<lambda>_. True) (Req_read (Many (Ret_class ComponentDB)) [(ComponentDB, 0)]) sample_opened = (s1, Inr 1) \<and>
     ft_promises (worker_turn (run_job sample_cf) s1) 1 = Value_set (Re_result (R_objs ComponentDB [q])) \<and>
     en_world (snd (ft_state (worker_turn (run_job sample_cf) s1))) = w' \<and> w_objs w' q = Some ob \<and>
     ob_mems ob ''name'' = Some (MO_value m) \<and> vm_value m = Some (V_string ''cell'')"
proof -
  let ?en = "picky_engine\<lparr>en_db := pragma_log\<rparr>" and ?api = "lib_conn (cf_lib sample_cf) 0"
  let ?key = "rc_hash_value (en_world ?en) sample_named" and ?row = "pragma_log @ [''row'']"
  have w: "en_world ?en = sample_world" by simp
  note req = sample_named_request [folded w] and c = sample_row_class [folded w]
  have st: "statement_for ?api (en_caches ?en 0) ?key (select_text (en_world ?en) sample_named) (en_db ?en) = (pragma_log, Inr (Some 1))"
    by (simp add: statement_for_def picky_engine_def sample_cf_def picky_lib_def SQLITE_OK_def)
  have bnd: "bind_seq ?api (Some 1) 0 (cond_operands (en_world ?en) sample_named) pragma_log = Inr pragma_log"
    by (simp add: sample_named_operands bindable_def bind_value_def sample_cf_def picky_lib_def SQLITE_OK_def)
  have last: "pragma_log \<noteq> []" "last pragma_log \<noteq> ''row''" by (simp_all add: pragma_log_def)
  then have rows: "rows_then ?api (Some 1) SQLITE_DONE pragma_log pragma_log [?row]"
    by (simp add: sample_cf_def picky_lib_def SQLITE_ROW_def SQLITE_DONE_def)
  have fuel: "length [?row] < cf_fuel sample_cf" by (simp add: sample_cf_def)
  from read_end_to_end [where accepts = "\<lambda>_. True" and h = 0, OF sample_opened_run(1,3) _ sample_opened_run(2,4) _ req(1,3) c st
      bnd rows fuel] obtain s1 w' qs where
    s1: "send sample_cf (\<lambda>_. True) (Req_read (Many (Ret_class ComponentDB)) [(ComponentDB, 0)]) sample_opened = (s1, Inr 1)"
      "ft_promises (worker_turn (run_job sample_cf) s1) 1 = Value_set (Re_result (R_objs ComponentDB qs))"
      "en_world (snd (ft_state (worker_turn (run_job sample_cf) s1))) = w'"
    and add: "adds_rows ?api (Some 1) ComponentDB [?row] sample_world w' qs"
    by (auto simp: Let_def sample_opened_run)
  from add obtain q ob where q: "qs = [q]" "w_objs w' q = Some ob" "holds_row ?api (Some 1) ComponentDB ?row ob"
    by (auto simp: adds_rows_def list_all2_Cons1)
  have "2 < length (cd_members ComponentDB)" "cd_members ComponentDB ! 2 = MEMBER ''name'' YT_STRING (Args1 ''n'')"
    by (simp_all add: ComponentDB_def)
  with q(3) obtain m where "ob_mems ob ''name'' = Some (MO_value m)" "vm_value m = Some (V_string (c_str ''cell''))"
    unfolding holds_row_def by (fastforce simp: sample_cf_def picky_lib_def)
  with s1 q(1,2) show ?thesis by (auto simp: c_str_def)
qed

end
