(* ===== verification/Yan_Change.thy ===== *)
theory Yan_Change
  imports Yan_Read
begin

text \<open>
  Deletes and updates from the user's call to the number in the future: the statement of the request's
  text, its operands, what the library does with it, and what the library's user is told.
\<close>

section \<open>On a connection\<close>

text \<open>A delete counts the rows that its statement yields; a code other than \<open>SQLITE_DONE\<close> ends it.\<close>

lemma ctx_del_counts:
  assumes "rc_cys rc = Some c" and ok: "conds_ok (ss_world s) rc"
    and st: "statement_for api (ss_stmts s) (rc_hash_value (ss_world s) rc @ ''D'') (delete_text (ss_world s) rc) (ss_db s) = (db1, Inr st)"
    and bnd: "bind_seq api st 0 (cond_operands (ss_world s) rc) db1 = Inr db2"
    and rows: "rows_then api st code d db2 rs" "length rs < fuel" "code \<noteq> SQLITE_ROW"
  defines "key \<equiv> rc_hash_value (ss_world s) rc @ ''D''"
  shows "ctx_del fuel api kf rc s =
    (let s' = s\<lparr>ss_stmts := (ss_stmts s)(key \<mapsto> st), ss_db := d\<rparr> in
     if code = SQLITE_DONE
     then (s'\<lparr>ss_db := sq_clear_bindings api st (sq_reset api st d)\<rparr>, Inr (of_nat (length rs)))
     else drop_stmt api key st (errmsg api d ''sqlite update/delete value failed'' code) s')"
proof -
  let ?s = "s\<lparr>ss_stmts := (ss_stmts s)(key \<mapsto> st), ss_db := db2\<rparr>"
  from bind_read_db [OF ok bnd] obtain ctx where
    ctx: "bind_read api (ss_world s) \<lparr>bc_stmt = st, bc_index = 0, bc_db = db1\<rparr> rc = Inr ctx" "bc_db ctx = db2" by blast
  have "rows_then api st code d (ss_db ?s) rs" using rows(1) by simp
  note run = exec_entity_run [OF this rows(2,3), of 0]
  have "has_cond rc \<longrightarrow> (\<exists>ps. conds_of (ss_world s) rc c ps \<and> first_is_field ps)"
    using ok assms(1) by (auto simp: conds_ok_def conds_of_def)
  from delete_make_text [OF assms(1) this]
  have made: "delete_make (ss_world s) rc = Inr (delete_text (ss_world s) rc)"
    by (simp add: delete_text_def table_of_def assms(1))
  note served = request_served [where mk = "\<lambda>w. (w, delete_make w rc)" and bnd = "\<lambda>w ctx. bind_read api w ctx rc"
      and exe = "\<lambda>st. exec_entity fuel api st 0", OF st _ ctx(1), unfolded ctx(2), folded key_def, OF _ run, of kf]
  show ?thesis using served made by (simp add: ctx_del_def key_def Let_def)
qed

text \<open>An update takes one step and does not look at its result.\<close>

lemma ctx_update_steps_once:
  assumes "update_request_ok (ss_world s) uc p ob" and "ob_seqset ob \<noteq> []"
    and key: "uc_hash_value (ss_world s) uc = Inr h"
    and st: "statement_for api (ss_stmts s) (h @ ''U'')
      (update_text (class_name (ss_world s) (ob_class ob)) (row_of (ss_world s) p) @
       where_clause (ss_world s) (read_cond.truncate uc)) (ss_db s) = (db1, Inr st)"
    and bnd: "bind_seq api st 0
      (map row_bind_item (row_of (ss_world s) p) @ cond_operands (ss_world s) (read_cond.truncate uc)) db1 = Inr db2"
    and step: "sq_step api st db2 = (code, d)"
  shows "ctx_update api kf raw_size uc s =
    (s\<lparr>ss_stmts := (ss_stmts s)(h @ ''U'' \<mapsto> st), ss_db := sq_clear_bindings api st (sq_reset api st d)\<rparr>, Inr ())"
proof -
  let ?s = "s\<lparr>ss_stmts := (ss_stmts s)(h @ ''U'' \<mapsto> st), ss_db := db2\<rparr>"
  let ?ctx = "\<lparr>bc_stmt = st, bc_index = 0, bc_db = db1\<rparr>"
  have "0 \<le> bc_index ?ctx" by simp
  from bind_update_run [OF assms(1,2) this, of api raw_size] bnd
  obtain ctx where ctx: "bind_update api raw_size (ss_world s) ?ctx uc = Inr ctx" "bc_db ctx = db2"
    by (simp add: bound_def Let_def)
  have run: "bindS (step_stmt api st) (\<lambda>_. returnS ()) ?s = (?s\<lparr>ss_db := d\<rparr>, Inr ())"
    using step by (simp add: bindS_apply step_stmt_run)
  have made: "update_make raw_size (ss_world s) uc = Inr (update_text (class_name (ss_world s) (ob_class ob))
      (row_of (ss_world s) p) @ where_clause (ss_world s) (read_cond.truncate uc))"
    using update_make_text_run [OF assms(1)] assms(2) by blast
  note served = request_served [where mk = "\<lambda>w. (w, update_make raw_size w uc)" and bnd = "\<lambda>w ctx. bind_update api raw_size w ctx uc"
      and exe = "\<lambda>st. bindS (step_stmt api st) (\<lambda>_. returnS ())", OF st _ ctx(1), unfolded ctx(2), OF _ run, of kf]
  show ?thesis using served made by (simp add: ctx_update_def key)
qed

section \<open>From the user's call to the future\<close>

text \<open>
  A delete through the facade, with the connection open and nothing else waiting.  Its statement, of
  the delete text of its conditions, is run with their operands until no row comes; the future holds the
  number of rows the statement yielded.  That is the number of rows a query would have returned: a DELETE of
  SQLite without a RETURNING clause yields none, so that the answer is 0 however many rows were deleted.
\<close>

theorem delete_end_to_end:
  fixes s :: "'db sqlite"
  assumes "sqlite_reachable cf s" and "\<not> tp_stop (ft_operators s)" and "accepts []" and "waiting s = []"
    and "ft_state s = (p, en)" and "pl_conns p = [h]"
    and "delete_prehandle (en_world en) [(c, a)] = Inr rc" and "rc_cys rc = Some c" and "conds_ok (en_world en) rc"
  defines "api \<equiv> lib_conn (cf_lib cf) h" and "key \<equiv> rc_hash_value (en_world en) rc @ ''D''"
  assumes "statement_for api (en_caches en h) key (delete_text (en_world en) rc) (en_db en) = (db1, Inr st)"
    and "bind_seq api st 0 (cond_operands (en_world en) rc) db1 = Inr db2"
    and "rows_then api st SQLITE_DONE d db2 rs" and "length rs < cf_fuel cf"
  shows "\<exists>s1. send cf accepts (Req_del c a) s = (s1, Inr (ft_next s)) \<and>
    (let s2 = worker_turn (run_job cf) s1 in
       ft_promises s2 (ft_next s) = Value_set (Re_int (of_nat (length rs))) \<and>
       ft_state s2 = (p, en\<lparr>en_db := sq_clear_bindings api st (sq_reset api st d),
         en_caches := (en_caches en)(h := (en_caches en h)(key \<mapsto> st))\<rparr>))"
proof -
  let ?t = "\<lparr>ss_world = en_world en, ss_db = en_db en, ss_stmts = en_caches en h\<rparr>"
  let ?m = "\<lambda>api. ctx_del (cf_fuel cf) api (cf_key_first cf) rc"
  have t: "conds_ok (ss_world ?t) rc"
    "statement_for api (ss_stmts ?t) (rc_hash_value (ss_world ?t) rc @ ''D'') (delete_text (ss_world ?t) rc) (ss_db ?t) = (db1, Inr st)"
    "bind_seq api st 0 (cond_operands (ss_world ?t) rc) db1 = Inr db2"
    using assms(9,12,13) by (simp_all add: key_def)
  have run: "?m (lib_conn (cf_lib cf) h) ?t =
      (?t\<lparr>ss_stmts := (en_caches en h)(key \<mapsto> st), ss_db := sq_clear_bindings api st (sq_reset api st d)\<rparr>,
       Inr (of_nat (length rs)))"
    using ctx_del_counts [OF assms(8) t assms(14,15), of "cf_key_first cf"] by (simp add: Let_def key_def api_def)
  have job: "bindS (prepare cf (Req_del c a)) (\<lambda>pre. pre) (en_world en) = (en_world en, Inr (J_delete rc))"
    by (simp add: prepare_def bindS_apply assms(7))
  have handler: "run_job cf (J_delete rc) x = answered Re_int (handle (cf_lib cf) ?m x)" for x
    by (simp add: delete_handle_def)
  from job_turn [where accepts = accepts, OF assms(1-6) _ job handler run] show ?thesis
    by (simp add: Let_def) blast
qed

lemma same_conds:
  assumes "w_reg w' = w_reg w" and "w_plists w' = w_plists w"
  shows "where_clause w' rc = where_clause w rc" and "cond_operands w' rc = cond_operands w rc"
    and "rc_hash_value w' rc = rc_hash_value w rc"
proof -
  have "params_of w' rc = params_of w rc" using assms(2) by (simp add: params_of_def rc_param_list_def cong: option.case_cong)
  then show "where_clause w' rc = where_clause w rc" "cond_operands w' rc = cond_operands w rc"
    using same_registry(2) [OF assms(1)] by (simp_all add: where_clause_def cond_operands_def)
  show "rc_hash_value w' rc = rc_hash_value w rc" using same_registry(1) [OF assms(1)] by (simp add: rc_hash_value_def cong: option.case_cong ret_type.case_cong)
qed

text \<open>What the worker gets for an update of a consistent object, in the world after the call.\<close>

lemma update_job:
  assumes "addrs_ok w" and "registry_ok (w_reg w)" and "table_class (ob_class ob)"
    and "w_objs w a = Some ob" and "table_ok w a ob" and "ob_seqset ob \<noteq> []"
    and "ob_conds ob \<noteq> None \<longrightarrow> first_is_field (obj_params w ob)"
  obtains w1 uc lob where "bindS (prepare cf (Req_update (ob_class ob) a)) (\<lambda>pre. pre) w = (w1, Inr (J_update uc))"
    and "update_request_ok w1 uc (w_next w) lob" and "ob_seqset lob \<noteq> []" and "w_objs w1 a = Some ob"
    and "class_name w1 (ob_class lob) = class_name w (ob_class ob)" and "row_of w1 (w_next w) = row_of w a"
    and "read_cond.truncate uc = obj_cond ob" and "w_reg w1 = w_reg w" and "w_plists w1 = w_plists w"
    and "uc_hash_value w1 uc = Inr (rc_hash_value w (obj_cond ob) @ concat (map (\<lambda>s. string_of_nat (unat s)) (ob_seqset ob)))"
proof -
  let ?c = "ob_class ob"
  from update_prehandle_run [OF assms(1-6)] obtain w1 uc lob where
    pre: "update_prehandle ?c a w = (w1, Inr uc)" and uc: "uc_laddr uc = Some (w_next w)" "rc_cys uc = Some ?c"
      "uc_lco uc = w_next w" "read_cond.truncate uc = obj_cond ob"
    and lob: "w_objs w1 (w_next w) = Some lob" "table_ok w1 (w_next w) lob" "ob_class lob = ?c" "ob_seqset lob = ob_seqset ob"
      "row_of w1 (w_next w) = row_of w a"
    and w1: "w_objs w1 a = Some ob" "table_ok w1 a ob" "w_reg w1 = w_reg w" "w_plists w1 = w_plists w" by blast
  have "\<exists>ps. conds_of w1 (obj_cond ob) ?c ps \<and> first_is_field ps" if "has_cond (obj_cond ob)"
  proof -
    from that obtain l where l: "ob_conds ob = Some l" by (auto simp: has_cond_def obj_cond_def)
    with w1(2) obtain ps where ps: "w_plists w1 l = Some ps" "\<forall>prm \<in> set ps. param_of_class ?c prm" "class_ready (w_reg w1) ?c"
      by (auto simp: table_ok_def obj_params_def)
    with assms(7) l w1(4) have "first_is_field ps" by (simp add: obj_params_def)
    with ps l show ?thesis by (intro exI [of _ ps]) (simp add: conds_of_def rc_param_list_def obj_cond_def)
  qed
  with uc lob have ok: "update_request_ok w1 uc (w_next w) lob" by (simp add: update_request_ok_def)
  have "uc_hash_value w1 uc = Inr (rc_hash_value w (obj_cond ob) @ concat (map (\<lambda>s. string_of_nat (unat s)) (ob_seqset ob)))"
    using uc(3,4) lob(1,4) same_conds(3) [OF w1(3,4)] by (simp add: uc_hash_value_def seqs_of_def)
  moreover have "class_name w1 (ob_class lob) = class_name w ?c" using w1(3) lob(3) by (simp add: class_name_def)
  moreover have "bindS (prepare cf (Req_update ?c a)) (\<lambda>pre. pre) w = (w1, Inr (J_update uc))"
    using pre by (auto simp: prepare_def update_prehandle_def bindS_apply split: prod.splits sum.splits)
  ultimately show ?thesis using ok lob w1 uc(4) assms(6) by (intro that [of w1 uc lob]) simp_all
qed

text \<open>
  An update through the facade, with the connection open and nothing else waiting, of a consistent object
  with assigned members.  The statement that sets the object's assigned values where its conditions hold
  is run with the values and then the operands of the conditions, and takes one step; whatever the code of
  that step, a failure included, the future holds 1, and the user's object is as it was.
\<close>

theorem update_end_to_end:
  fixes s :: "'db sqlite"
  assumes "sqlite_reachable cf s" and "\<not> tp_stop (ft_operators s)" and "accepts []" and "waiting s = []"
    and "ft_state s = (p, en)" and "pl_conns p = [h]" and world: "w = en_world en"
    and object: "addrs_ok w" "registry_ok (w_reg w)" "table_class (ob_class ob)" "w_objs w a = Some ob" "table_ok w a ob"
      "ob_seqset ob \<noteq> []" "ob_conds ob \<noteq> None \<longrightarrow> first_is_field (obj_params w ob)"
  defines "api \<equiv> lib_conn (cf_lib cf) h"
    and "key \<equiv> rc_hash_value w (obj_cond ob) @ concat (map (\<lambda>s. string_of_nat (unat s)) (ob_seqset ob)) @ ''U''"
  assumes st: "statement_for api (en_caches en h) key
      (update_text (class_name w (ob_class ob)) (row_of w a) @ where_clause w (obj_cond ob)) (en_db en) = (db1, Inr st)"
    and bnd: "bind_seq api st 0 (map row_bind_item (row_of w a) @ cond_operands w (obj_cond ob)) db1 = Inr db2"
    and step: "sq_step api st db2 = (code, d)"
  shows "\<exists>s1 w1. send cf accepts (Req_update (ob_class ob) a) s = (s1, Inr (ft_next s)) \<and> w_objs w1 a = Some ob \<and>
    (let s2 = worker_turn (run_job cf) s1 in
       ft_promises s2 (ft_next s) = Value_set (Re_int 1) \<and>
       ft_state s2 = (p, en\<lparr>en_world := w1, en_db := sq_clear_bindings api st (sq_reset api st d),
         en_caches := (en_caches en)(h := (en_caches en h)(key \<mapsto> st))\<rparr>))"
proof -
  from update_job [OF object, of cf] obtain w1 uc lob where
    job: "bindS (prepare cf (Req_update (ob_class ob) a)) (\<lambda>pre. pre) w = (w1, Inr (J_update uc))"
    and ok: "update_request_ok w1 uc (w_next w) lob" "ob_seqset lob \<noteq> []" and ob: "w_objs w1 a = Some ob"
    and same: "class_name w1 (ob_class lob) = class_name w (ob_class ob)" "row_of w1 (w_next w) = row_of w a"
      "read_cond.truncate uc = obj_cond ob" and w1: "w_reg w1 = w_reg w" "w_plists w1 = w_plists w"
    and hash: "uc_hash_value w1 uc = Inr (rc_hash_value w (obj_cond ob) @ concat (map (\<lambda>s. string_of_nat (unat s)) (ob_seqset ob)))"
    by blast
  let ?m = "\<lambda>api. bindS (ctx_update api (cf_key_first cf) (cf_raw_size cf) uc) (\<lambda>_. returnS 1)"
  have handler: "run_job cf (J_update uc) x = answered Re_int (handle (cf_lib cf) ?m x)" for x
    by (simp add: update_handle_def)
  let ?t = "\<lparr>ss_world = w1, ss_db = en_db en, ss_stmts = en_caches en h\<rparr>"
  have "update_request_ok (ss_world ?t) uc (w_next w) lob"
    "uc_hash_value (ss_world ?t) uc = Inr (rc_hash_value w (obj_cond ob) @ concat (map (\<lambda>s. string_of_nat (unat s)) (ob_seqset ob)))"
    using ok hash by simp_all
  note upd = ctx_update_steps_once [OF this(1) ok(2) this(2), of api db1 st db2 code d "cf_key_first cf" "cf_raw_size cf"]
  have "?m (lib_conn (cf_lib cf) h) ?t =
      (?t\<lparr>ss_stmts := (en_caches en h)(key \<mapsto> st), ss_db := sq_clear_bindings api st (sq_reset api st d)\<rparr>, Inr 1)"
    using upd st bnd step by (simp add: bindS_apply same same_conds [OF w1] api_def key_def)
  from job_turn [where accepts = accepts, OF assms(1-6) _ job [unfolded world] handler this] ob show ?thesis
    by (simp add: Let_def) blast
qed

section \<open>Concrete runs\<close>

text \<open>The objects with the name of the object at 0 are deleted; the library of the example yields one row.\<close>

theorem delete_end_to_end_witness:
  "\<exists>s1. send sample_cf (\<lambda>_. True) (Req_del ComponentDB 0) sample_opened = (s1, Inr 1) \<and>
     ft_promises (worker_turn (run_job sample_cf) s1) 1 = Value_set (Re_int 1)"
proof -
  let ?en = "picky_engine\<lparr>en_db := pragma_log\<rparr>" and ?api = "lib_conn (cf_lib sample_cf) 0"
  let ?rc = "sample_named\<lparr>rc_ret := Ret_int64\<rparr>" and ?row = "pragma_log @ [''row'']"
  have ob: "ob_conds (sample_obj 0) = Some 1" "ob_hashv (sample_obj 0) = concat (map hash_entry sample_conds0)"
    by (simp_all add: sample_obj_def with_conds_def)
  have pre: "delete_prehandle (en_world ?en) [(ComponentDB, 0)] = Inr ?rc"
    by (simp add: delete_prehandle_def rc_append_def rc_append1_def sample_named_def ReadCondImpl_def ob)
  have "conds_of sample_world ?rc ComponentDB sample_conds0"
    using sample_named_request(2) by (simp add: conds_of_def rc_param_list_def)
  then have rc: "rc_cys ?rc = Some ComponentDB" "conds_ok (en_world ?en) ?rc"
    using sample_first(2) by (auto simp: conds_ok_def sample_named_def)
  have ops: "cond_operands sample_world ?rc = [(''n'', T_val C_string, PV (V_string ''MySQL''))]"
    using sample_named_operands
    by (simp add: cond_operands_def has_cond_def params_of_def rc_param_list_def sample_named_def)
  have st: "statement_for ?api (en_caches ?en 0) (rc_hash_value (en_world ?en) ?rc @ ''D'') (delete_text (en_world ?en) ?rc)
      (en_db ?en) = (pragma_log, Inr (Some 1))"
    by (simp add: statement_for_def picky_engine_def sample_cf_def picky_lib_def SQLITE_OK_def)
  have bnd: "bind_seq ?api (Some 1) 0 (cond_operands (en_world ?en) ?rc) pragma_log = Inr pragma_log"
    by (simp add: ops bindable_def bind_value_def sample_cf_def picky_lib_def SQLITE_OK_def)
  have last: "pragma_log \<noteq> []" "last pragma_log \<noteq> ''row''" by (simp_all add: pragma_log_def)
  then have rows: "rows_then ?api (Some 1) SQLITE_DONE pragma_log pragma_log [?row]"
    by (simp add: sample_cf_def picky_lib_def SQLITE_ROW_def SQLITE_DONE_def)
  have fuel: "length [?row] < cf_fuel sample_cf" by (simp add: sample_cf_def)
  from delete_end_to_end [where accepts = "\<lambda>_. True" and h = 0, OF sample_opened_run(1,3) _ sample_opened_run(2,4) _ pre rc st
      bnd rows fuel]
  show ?thesis by (auto simp: Let_def sample_opened_run)
qed

text \<open>The object at 0 is updated.\<close>

theorem update_end_to_end_witness:
  "\<exists>s1. send sample_cf (\<lambda>_. True) (Req_update ComponentDB 0) sample_opened = (s1, Inr 1) \<and>
     ft_promises (worker_turn (run_job sample_cf) s1) 1 = Value_set (Re_int 1)"
proof -
  let ?en = "picky_engine\<lparr>en_db := pragma_log\<rparr>" and ?api = "lib_conn (cf_lib sample_cf) 0"
  have a: "addrs_ok sample_world" by (auto simp: addrs_ok_def sample_world_def split: if_splits)
  have w: "sample_world = en_world ?en" by simp
  have ob: "ob_class (sample_obj 0) = ComponentDB" "ob_seqset (sample_obj 0) \<noteq> []"
    by (simp_all add: sample_obj_def sample_object_with_def fresh_obj_def with_conds_def)
  have o: "table_class (ob_class (sample_obj 0))" "w_objs sample_world 0 = Some (sample_obj 0)"
    "table_ok sample_world 0 (sample_obj 0)" by simp_all
  have r: "registry_ok (w_reg sample_world)" by (simp add: sample_registry_ok)
  have first: "ob_conds (sample_obj 0) \<noteq> None \<longrightarrow> first_is_field (obj_params sample_world (sample_obj 0))"
    by (simp add: sample_first)
  have ops: "cond_operands sample_world (obj_cond (sample_obj 0)) = [(''n'', T_val C_string, PV (V_string ''MySQL''))]"
    using sample_named_operands
    by (simp add: cond_operands_def has_cond_def params_of_def rc_param_list_def sample_named_def obj_cond_def ob(1))
  have st: "statement_for ?api (en_caches ?en 0) key t (en_db ?en) = (pragma_log, Inr (Some 1))" for key t
    by (simp add: statement_for_def picky_engine_def sample_cf_def picky_lib_def SQLITE_OK_def)
  have bnd: "bind_seq ?api (Some 1) 0 (map row_bind_item (row_of sample_world 0) @
      cond_operands sample_world (obj_cond (sample_obj 0))) pragma_log = Inr pragma_log"
    by (simp add: ops sample_rows row_bind_item_def bindable_def bind_value_def sample_cf_def picky_lib_def SQLITE_OK_def)
  have step: "sq_step ?api (Some 1) pragma_log = (100, pragma_log @ [''row''])"
    by (simp add: sample_cf_def picky_lib_def pragma_log_def)
  from update_end_to_end [where accepts = "\<lambda>_. True" and h = 0 and cf = sample_cf,
      OF sample_opened_run(1,3) _ sample_opened_run(2,4) _ w a r o ob(2) first st bnd step]
  show ?thesis by (auto simp: Let_def sample_opened_run ob(1))
qed

end
