(* ===== verification/Yan_Sql_Meaning.thy ===== *)
theory Yan_Sql_Meaning
  imports Yan_Bind
begin

text \<open>
  What the emitted SQL says.  Two readers for the fragment of SQL that the builders emit, written from
  the grammar of SQL and not from the builders: one for the condition clause (words, \<open>AND\<close> binding
  stronger than \<open>OR\<close>, one operand per placeholder), one for the insert statement.  The
  properties compare what they read with what the user's objects say.
\<close>

section \<open>Words\<close>

definition blank :: "char \<Rightarrow> bool" where
  "blank ch \<longleftrightarrow> ch = CHR '' ''"

lemma dropWhile_length: "length (dropWhile P s) \<le> length s"
  by (induction s) auto

lemma dropWhile_shorter: "s \<noteq> [] \<Longrightarrow> P (hd s) \<Longrightarrow> length (dropWhile P s) < length s"
  by (cases s) (auto intro: le_less_trans [OF dropWhile_length])

function sql_words :: "string \<Rightarrow> string list" where
  "sql_words s =
     (let t = dropWhile blank s in
      if t = [] then [] else takeWhile (Not \<circ> blank) t # sql_words (dropWhile (Not \<circ> blank) t))"
  by auto

termination
proof (relation "measure length", simp)
  fix s :: string and t
  assume "t = dropWhile blank s" "t \<noteq> []"
  then have "\<not> blank (hd t)" by (metis hd_dropWhile)
  with \<open>t \<noteq> []\<close> have "length (dropWhile (Not \<circ> blank) t) < length t" by (simp add: dropWhile_shorter)
  then show "(dropWhile (Not \<circ> blank) t, s) \<in> measure length"
    using \<open>t = _\<close> dropWhile_length [of blank s] by simp
qed

declare sql_words.simps [simp del]

text \<open>A word of SQL text.\<close>

definition is_word :: "string \<Rightarrow> bool" where
  "is_word s \<longleftrightarrow> s \<noteq> [] \<and> (\<forall>ch \<in> set s. \<not> blank ch)"

lemma sql_words_Nil [simp]: "sql_words [] = []"
  by (simp add: sql_words.simps)

lemma sql_words_blank [simp]: "sql_words (CHR '' '' # s) = sql_words s"
  by (subst (1 2) sql_words.simps) (simp add: blank_def)

lemma sql_words_word:
  assumes "is_word s"
  shows "sql_words (s @ CHR '' '' # t) = s # sql_words t" and "sql_words s = [s]"
proof -
  have d: "dropWhile blank (s @ u) = s @ u" for u
    using assms by (cases s) (auto simp: is_word_def)
  have t: "takeWhile (Not \<circ> blank) (s @ CHR '' '' # t) = s" "dropWhile (Not \<circ> blank) (s @ CHR '' '' # t) = CHR '' '' # t"
    using assms by (simp_all add: is_word_def takeWhile_append2 dropWhile_append2 blank_def)
  have e: "takeWhile (Not \<circ> blank) s = s" "dropWhile (Not \<circ> blank) s = []"
    using assms by (simp_all add: is_word_def comp_def)
  show "sql_words (s @ CHR '' '' # t) = s # sql_words t"
    using assms d t by (subst sql_words.simps) (simp add: Let_def)
  show "sql_words s = [s]"
    using assms d [of "[]"] by (subst sql_words.simps) (simp add: Let_def e, simp add: is_word_def)
qed

section \<open>The condition clause\<close>

subsection \<open>The reader\<close>

text \<open>
  A clause is a disjunction of conjunctions of comparisons \<open>column operator ?\<close>; the words that
  follow it are returned.
\<close>

type_synonym sql_cond = "string \<times> string"

fun read_conds :: "string list \<Rightarrow> (sql_cond list list \<times> string list) option" where
  "read_conds (column # operator # q # ws) =
     (if q \<noteq> ''?'' then None
      else case ws of
        [] \<Rightarrow> Some ([[(column, operator)]], [])
      | k # ws' \<Rightarrow>
          if k = ''AND'' then
            (case read_conds ws' of
               Some (conjunct # tree, rest) \<Rightarrow> Some (((column, operator) # conjunct) # tree, rest)
             | _ \<Rightarrow> None)
          else if k = ''OR'' then
            (case read_conds ws' of
               Some (tree, rest) \<Rightarrow> Some ([(column, operator)] # tree, rest)
             | None \<Rightarrow> None)
          else Some ([[(column, operator)]], ws))"
| "read_conds _ = None"

text \<open>Its meaning on a row without null values; the i-th placeholder stands for the i-th operand.\<close>

definition sql_cond_holds :: "(string \<Rightarrow> 'v::linorder) \<Rightarrow> sql_cond \<Rightarrow> 'v \<Rightarrow> bool" where
  "sql_cond_holds row c v =
     (case sql_comparison ('' '' @ snd c @ '' '') of None \<Rightarrow> False | Some f \<Rightarrow> f (row (fst c)) v)"

fun sql_conj_holds :: "(string \<Rightarrow> 'v::linorder) \<Rightarrow> sql_cond list \<Rightarrow> 'v list \<Rightarrow> bool" where
  "sql_conj_holds row (c # cs) (v # vs) \<longleftrightarrow> sql_cond_holds row c v \<and> sql_conj_holds row cs vs"
| "sql_conj_holds row [] vs \<longleftrightarrow> True"
| "sql_conj_holds row (c # cs) [] \<longleftrightarrow> False"

fun sql_where_holds :: "(string \<Rightarrow> 'v::linorder) \<Rightarrow> sql_cond list list \<Rightarrow> 'v list \<Rightarrow> bool" where
  "sql_where_holds row [] vs \<longleftrightarrow> False"
| "sql_where_holds row (conjunct # tree) vs \<longleftrightarrow>
     sql_conj_holds row conjunct vs \<or> sql_where_holds row tree (drop (length conjunct) vs)"

subsection \<open>The meaning of the user's conditions\<close>

fun op_holds :: "ops_type \<Rightarrow> 'v::linorder \<Rightarrow> 'v \<Rightarrow> bool" where
  "op_holds OT_EQUAL a b \<longleftrightarrow> a = b"
| "op_holds OT_LARGE a b \<longleftrightarrow> a > b"
| "op_holds OT_LARGE_OR_EQUAL a b \<longleftrightarrow> a \<ge> b"
| "op_holds OT_LESS a b \<longleftrightarrow> a < b"
| "op_holds OT_LESS_OR_EQUAL a b \<longleftrightarrow> a \<le> b"
| "op_holds _ a b \<longleftrightarrow> False"

fun item_holds :: "(string \<Rightarrow> 'v::linorder) \<Rightarrow> cond_item \<Rightarrow> 'v \<Rightarrow> bool" where
  "item_holds row (name, ct, ot) v \<longleftrightarrow> (if ct = CT_NOT then \<not> op_holds ot (row name) v else op_holds ot (row name) v)"

fun is_or :: "cond_item \<Rightarrow> bool" where
  "is_or (name, ct, ot) \<longleftrightarrow> ct = CT_OR"

text \<open>An \<open>OR\<close> condition opens a new alternative; the others join the alternative before them.\<close>

fun alternatives :: "('a \<Rightarrow> bool) \<Rightarrow> 'a list \<Rightarrow> 'a list list" where
  "alternatives opens [] = []"
| "alternatives opens (c # cs) =
     (case alternatives opens cs of
        [] \<Rightarrow> [[c]]
      | g # gs \<Rightarrow> if opens (hd g) then [c] # g # gs else (c # g) # gs)"

definition conds_hold :: "(string \<Rightarrow> 'v::linorder) \<Rightarrow> (cond_item \<times> 'v) list \<Rightarrow> bool" where
  "conds_hold row cs \<longleftrightarrow>
     (\<exists>g \<in> set (alternatives (\<lambda>c. is_or (fst c)) cs). \<forall>c \<in> set g. item_holds row (fst c) (snd c))"

subsection \<open>The reader reads the builder's text\<close>

definition plain_field :: "cond_item \<Rightarrow> bool" where
  "plain_field i \<longleftrightarrow> is_word (fst i) \<and> field_cond (fst (snd i)) \<and> comparison_op (snd (snd i))"

definition plain_order :: "cond_item \<Rightarrow> bool" where
  "plain_order i \<longleftrightarrow> is_word (fst i) \<and> order_cond (fst (snd i))"

fun op_word :: "ops_type \<Rightarrow> bool \<Rightarrow> string" where
  "op_word OT_EQUAL n = (if \<not> n then ''=='' else ''!='')"
| "op_word OT_LARGE n = (if \<not> n then ''>'' else ''<='')"
| "op_word OT_LARGE_OR_EQUAL n = (if \<not> n then ''>='' else ''<'')"
| "op_word OT_LESS n = (if \<not> n then ''<'' else ''>='')"
| "op_word OT_LESS_OR_EQUAL n = (if \<not> n then ''<='' else ''>'')"
| "op_word _ n = ''''"

fun cond_words :: "cond_item \<Rightarrow> string list" where
  "cond_words (name, ct, ot) =
     (if field_cond ct then [name, op_word ot (ct = CT_NOT), ''?'']
      else if ct = CT_GROUP then [''GROUP'', ''BY'', name]
      else if ct = CT_ORDER_ASC then [''ORDER'', ''BY'', name]
      else [''ORDER'', ''BY'', name, ''DESC''])"

fun connective :: "cond_item \<Rightarrow> string list" where
  "connective (name, ct, ot) = (if ct = CT_OR then [''OR''] else if field_cond ct then [''AND''] else [])"

lemma op_word_text: "comparison_op ot \<Longrightarrow> get_yan_ops_str ot n = '' '' @ op_word ot n @ '' '' \<and> is_word (op_word ot n)"
  by (cases n) (auto simp: comparison_op_def is_word_def blank_def)

definition item_words :: "cond_item list \<Rightarrow> string list" where
  "item_words is = concat (map (\<lambda>i. connective i @ cond_words i) is)"

text \<open>A text that begins at a word boundary: empty, or with a blank in front.\<close>

definition at_gap :: "string \<Rightarrow> bool" where
  "at_gap s \<longleftrightarrow> s = [] \<or> hd s = CHR '' ''"

lemma word_before_gap: "is_word s \<Longrightarrow> at_gap t \<Longrightarrow> sql_words (s @ t) = s # sql_words t"
  by (cases t) (auto simp: at_gap_def sql_words_word)

lemma is_word_simps [simp]: "is_word ''?''" "is_word ''AND''" "is_word ''OR''" "is_word ''ORDER''" "is_word ''GROUP''"
  "is_word ''BY''" "is_word ''DESC''"
  by (simp_all add: is_word_def blank_def)

lemma sep_text: "sql_words (cond_sep i @ t) = connective i @ sql_words t"
proof -
  obtain name ct ot where i: "i = (name, ct, ot)" by (cases i)
  have "sql_words ('' OR '' @ t) = ''OR'' # sql_words t" "sql_words ('' AND '' @ t) = ''AND'' # sql_words t"
    using sql_words_word(1) [of "''OR''" t] sql_words_word(1) [of "''AND''" t] by simp_all
  then show ?thesis by (simp add: i)
qed

lemma cond_text_words:
  assumes "plain_field i \<or> plain_order i" and "at_gap t"
  shows "sql_words (cond_text i @ t) = cond_words i @ sql_words t"
proof -
  obtain name ct ot where i: "i = (name, ct, ot)" by (cases i)
  show ?thesis
  proof (cases "field_cond ct")
    case True
    with assms(1) have n: "is_word name" "comparison_op ot"
      by (auto simp: i plain_field_def plain_order_def order_cond_def field_cond_def)
    note w = op_word_text [OF n(2), of "ct = CT_NOT"]
    have "sql_words (name @ '' '' @ op_word ot (ct = CT_NOT) @ '' '' @ ''?'' @ t) =
        [name, op_word ot (ct = CT_NOT), ''?''] @ sql_words t"
      using sql_words_word(1) [OF n(1)] sql_words_word(1) [of "op_word ot (ct = CT_NOT)"] w
        word_before_gap [OF is_word_simps(1) assms(2)] by simp
    with True w show ?thesis by (simp add: i)
  next
    case False
    with assms(1) have n: "is_word name" by (auto simp: i plain_field_def plain_order_def)
    have k: "sql_words (k @ '' '' @ u) = k # sql_words u" if "is_word k" for k u
      using sql_words_word(1) [OF that] by simp
    have a: "sql_words ('' GROUP BY '' @ name @ t) = [''GROUP'', ''BY'', name] @ sql_words t"
      "sql_words ('' ORDER BY '' @ name @ t) = [''ORDER'', ''BY'', name] @ sql_words t"
      using k [of "''GROUP''" "''BY '' @ name @ t"] k [of "''ORDER''" "''BY '' @ name @ t"] k [of "''BY''" "name @ t"]
        word_before_gap [OF n assms(2)] by simp_all
    have "sql_words ('' ORDER BY '' @ name @ '' DESC '' @ t) = [''ORDER'', ''BY'', name, ''DESC''] @ sql_words t"
      using k [of "''ORDER''" "''BY '' @ name @ '' DESC '' @ t"] k [of "''BY''" "name @ '' DESC '' @ t"]
        k [of name "''DESC '' @ t"] k [of "''DESC''" t] n by simp
    with False a show ?thesis by (simp add: i)
  qed
qed

lemma emit_gap: "\<forall>i \<in> set is. plain_field i \<or> plain_order i \<Longrightarrow> at_gap (emit cond_sep cond_text False is)"
  by (cases "is") (auto simp: at_gap_def plain_field_def plain_order_def order_cond_def field_cond_def)

lemma emit_words:
  assumes "\<forall>i \<in> set is. plain_field i \<or> plain_order i"
  shows "sql_words (emit cond_sep cond_text False is) = item_words is"
  using assms
proof (induction "is")
  case (Cons i "is")
  then show ?case
    by (simp add: sep_text cond_text_words emit_gap item_words_def)
qed (simp add: item_words_def)

lemma read_item:
  assumes "plain_field i"
  shows "read_conds (cond_words i @ ws) =
    (let c = (fst i, op_word (snd (snd i)) (fst (snd i) = CT_NOT)) in
     case ws of
        [] \<Rightarrow> Some ([[c]], [])
      | k # ws' \<Rightarrow>
          if k = ''AND'' then
            (case read_conds ws' of Some (cj # tree, rest) \<Rightarrow> Some ((c # cj) # tree, rest) | _ \<Rightarrow> None)
          else if k = ''OR'' then
            (case read_conds ws' of Some (tree, rest) \<Rightarrow> Some ([c] # tree, rest) | None \<Rightarrow> None)
          else Some ([[c]], ws))"
  using assms by (cases i) (auto simp: plain_field_def Let_def split: list.split option.split prod.split)

text \<open>The tree that the reader builds has the shape of the alternatives.\<close>

definition cond_pair :: "cond_item \<Rightarrow> sql_cond" where
  "cond_pair i = (fst i, op_word (snd (snd i)) (fst (snd i) = CT_NOT))"

lemma alternatives_head: "alternatives opens (c # cs) \<noteq> [] \<and> hd (hd (alternatives opens (c # cs))) = c"
  by (auto split: list.split)

lemma alternatives_nonempty: "[] \<notin> set (alternatives opens cs)"
  by (induction cs) (auto split: list.splits if_splits)

lemma alternatives_map: "alternatives opens (map f cs) = map (map f) (alternatives (\<lambda>c. opens (f c)) cs)"
proof (induction cs)
  case (Cons c cs)
  then show ?case
    using alternatives_nonempty [of "\<lambda>c. opens (f c)" cs] by (auto simp: hd_map split: list.split)
qed simp

lemma read_items:
  assumes "\<forall>j \<in> set (i # is). plain_field j" and "rest = [] \<or> hd rest \<notin> {''AND'', ''OR''}"
  shows "read_conds (cond_words i @ item_words is @ rest) =
    Some (map (map cond_pair) (alternatives is_or (i # is)), rest)"
  using assms(1)
proof (induction "is" arbitrary: i)
  case Nil
  then show ?case
    using assms(2) read_item [of i rest] by (cases rest) (auto simp: item_words_def cond_pair_def Let_def)
next
  case (Cons j js)
  from Cons have IH: "read_conds (cond_words j @ item_words js @ rest) =
      Some (map (map cond_pair) (alternatives is_or (j # js)), rest)" by simp
  from alternatives_head [of is_or j js] obtain g gs where g: "alternatives is_or (j # js) = g # gs" "hd g = j"
    by (metis hd_Cons_tl)
  have w: "item_words (j # js) @ rest = connective j @ cond_words j @ item_words js @ rest"
    by (simp add: item_words_def)
  have c: "connective j = (if is_or j then [''OR''] else [''AND''])"
    using Cons.prems by (cases j) (auto simp: plain_field_def)
  have step: "alternatives is_or (i # j # js) = (if is_or j then [i] # g # gs else (i # g) # gs)"
    by (subst alternatives.simps(2)) (simp only: g list.case)
  show ?case
    unfolding step w using Cons.prems
    by (simp only: list.set ball_simps insert_iff read_item c) (simp add: Let_def IH [unfolded g(1)] g(2) cond_pair_def)
qed

subsection \<open>The meaning of the text is the meaning of the conditions\<close>

lemma op_word_comparison:
  "comparison_op ot \<Longrightarrow>
    sql_comparison (CHR '' '' # op_word ot n @ '' '') = Some (\<lambda>a b. if n then \<not> op_holds ot a b else op_holds ot a (b :: 'v::linorder))"
  by (cases n) (auto simp: comparison_op_def sql_comparison_def fun_eq_iff not_less not_le)

lemma item_meaning: "plain_field i \<Longrightarrow> sql_cond_holds row (cond_pair i) v = item_holds row i v"
  by (cases i) (auto simp: plain_field_def sql_cond_holds_def cond_pair_def op_word_comparison)

lemma conj_meaning:
  "\<forall>c \<in> set g. plain_field (fst c) \<Longrightarrow>
    sql_conj_holds row (map (cond_pair \<circ> fst) g) (map snd g @ vs) \<longleftrightarrow> (\<forall>c \<in> set g. item_holds row (fst c) (snd c))"
  by (induction g) (auto simp: item_meaning)

lemma where_meaning:
  "\<forall>g \<in> set gs. \<forall>c \<in> set g. plain_field (fst c) \<Longrightarrow>
    sql_where_holds row (map (map (cond_pair \<circ> fst)) gs) (map snd (concat gs)) \<longleftrightarrow>
      (\<exists>g \<in> set gs. \<forall>c \<in> set g. item_holds row (fst c) (snd c))"
  by (induction gs) (simp_all add: conj_meaning)

lemma concat_alternatives: "concat (alternatives opens cs) = cs"
  by (induction cs) (auto split: list.splits if_splits)

lemma tree_meaning:
  assumes "\<forall>c \<in> set cs. plain_field (fst c)"
  shows "sql_where_holds row (map (map cond_pair) (alternatives is_or (map fst cs))) (map snd cs) \<longleftrightarrow> conds_hold row cs"
proof -
  let ?gs = "alternatives (\<lambda>c. is_or (fst c)) cs"
  have c: "concat ?gs = cs" by (rule concat_alternatives)
  have "\<forall>g \<in> set ?gs. \<forall>c \<in> set g. plain_field (fst c)"
  proof (intro ballI)
    fix g x
    assume "g \<in> set ?gs" and "x \<in> set g"
    then have "x \<in> set (concat ?gs)" by auto
    with assms show "plain_field (fst x)" by (simp only: c)
  qed
  from where_meaning [OF this, of row] show ?thesis
    by (simp add: alternatives_map conds_hold_def c)
qed

lemma where_meaning_run:
  assumes "conds_of w rc c ps" and "ps \<noteq> []"
    and "\<forall>prm \<in> set ps. plain_field (cond_item_of (class_members w c) prm)"
  shows "\<exists>text tree. where_clause w rc = '' WHERE '' @ text \<and> read_conds (sql_words text) = Some (tree, []) \<and>
    concat tree = map (cond_pair \<circ> cond_item_of (class_members w c)) ps \<and>
    (\<forall>row (val :: param_value \<Rightarrow> 'v::linorder).
       sql_where_holds row tree (map (\<lambda>(name, t, pv). val pv) (cond_operands w rc)) \<longleftrightarrow>
       conds_hold row (map (\<lambda>prm. (cond_item_of (class_members w c) prm, val (param_val prm))) ps))"
proof -
  let ?ms = "class_members w c"
  let ?items = "map (cond_item_of ?ms) ps"
  have u: "rc_cys rc = Some c" "params_of w rc = ps" "has_cond rc" using conds_of_unique [OF assms(1)] by auto
  from assms(2) obtain p qs where ps: "ps = p # qs" by (cases ps) auto
  have plain: "\<forall>i \<in> set ?items. plain_field i" using assms(3) by simp
  have "sql_words (where_text ?ms ps) = cond_words (cond_item_of ?ms p) @ item_words (map (cond_item_of ?ms) qs) @ []"
    using plain by (simp add: where_text_def ps cond_text_words emit_gap emit_words)
  with read_items [of "cond_item_of ?ms p" "map (cond_item_of ?ms) qs" "[]"] plain
  have read: "read_conds (sql_words (where_text ?ms ps)) = Some (map (map cond_pair) (alternatives is_or ?items), [])"
    by (simp add: ps)
  have ops: "map (\<lambda>(name, t, pv). val pv) (cond_operands w rc) = map (\<lambda>prm. val (param_val prm)) ps"
    for val :: "param_value \<Rightarrow> 'v"
    by (simp add: cond_operands_def u cond_bind_item_def)
  have mean: "sql_where_holds row (map (map cond_pair) (alternatives is_or ?items)) (map (\<lambda>prm. val (param_val prm)) ps) \<longleftrightarrow>
      conds_hold row (map (\<lambda>prm. (cond_item_of ?ms prm, val (param_val prm))) ps)"
    for row and val :: "param_value \<Rightarrow> 'v"
    using tree_meaning [of "map (\<lambda>prm. (cond_item_of ?ms prm, val (param_val prm))) ps" row] plain
    by (simp add: comp_def)
  have "where_clause w rc = '' WHERE '' @ where_text ?ms ps" by (simp add: where_clause_def u)
  moreover have "concat (map (map cond_pair) (alternatives is_or ?items)) = map (cond_pair \<circ> cond_item_of ?ms) ps"
    by (simp add: concat_alternatives flip: map_concat)
  ultimately show ?thesis using read
    by (intro exI [of _ "where_text ?ms ps"] exI [of _ "map (map cond_pair) (alternatives is_or ?items)"])
      (simp add: ops mean)
qed

text \<open>
  For every class and every sequence of comparisons recorded on its object, the condition text of
  the request, read as SQL reads it (\<open>AND\<close> before \<open>OR\<close>, placeholders numbered from left to
  right) and evaluated on any row with the operands that are bound, selects exactly the rows that
  the conditions describe: an \<open>OR\<close> condition opens an alternative, \<open>NOT\<close> complements its comparison.
\<close>

theorem where_text_means_its_conditions:
  assumes "conds_of w rc c ps" and "ps \<noteq> []"
    and "\<forall>prm \<in> set ps. plain_field (cond_item_of (class_members w c) prm)"
  shows "\<exists>text tree. where_clause w rc = '' WHERE '' @ text \<and> read_conds (sql_words text) = Some (tree, []) \<and>
    (\<forall>row (val :: param_value \<Rightarrow> 'v::linorder).
       sql_where_holds row tree (map (\<lambda>(name, t, pv). val pv) (cond_operands w rc)) \<longleftrightarrow>
       conds_hold row (map (\<lambda>prm. (cond_item_of (class_members w c) prm, val (param_val prm))) ps))"
  using where_meaning_run [where 'v = 'v, OF assms] by blast

section \<open>The insert statement\<close>

subsection \<open>The reader\<close>

text \<open>The rest of a text behind a prefix.\<close>

definition after_prefix :: "string \<Rightarrow> string \<Rightarrow> string option" where
  "after_prefix p s = (if take (length p) s = p then Some (drop (length p) s) else None)"

lemma after_prefix_simps [simp]:
  "after_prefix [] s = Some s"
  "after_prefix (a # p) (b # s) = (if a = b then after_prefix p s else None)"
  "after_prefix (a # p) [] = None"
  by (auto simp: after_prefix_def)

lemma after_prefix_append [simp]: "after_prefix p (p @ s) = Some s"
  by (simp add: after_prefix_def)

text \<open>A list of elements, separated by commas and closed by a parenthesis.\<close>

function read_list :: "(string \<Rightarrow> ('a \<times> string) option) \<Rightarrow> string \<Rightarrow> ('a list \<times> string) option" where
  "read_list elem s =
     (case elem s of
        None \<Rightarrow> None
      | Some (x, r) \<Rightarrow>
          (case after_prefix '')'' r of
             Some t \<Rightarrow> Some ([x], t)
           | None \<Rightarrow>
               (case after_prefix '', '' r of
                  None \<Rightarrow> None
                | Some t \<Rightarrow>
                    if length t < length s then map_option (\<lambda>(xs, u). (x # xs, u)) (read_list elem t) else None)))"
  by auto

termination
  by (relation "measure (\<lambda>(elem, s). length s)") auto

declare read_list.simps [simp del]

definition ends_item :: "char \<Rightarrow> bool" where
  "ends_item ch \<longleftrightarrow> ch = CHR '','' \<or> ch = CHR '')''"

text \<open>A name, and a value: a quoted string, or the spelling of a number.\<close>

definition read_name :: "string \<Rightarrow> (string \<times> string) option" where
  "read_name s = Some (takeWhile (Not \<circ> ends_item) s, dropWhile (Not \<circ> ends_item) s)"

datatype sql_value = Sql_text string | Sql_number string

definition read_value :: "string \<Rightarrow> (sql_value \<times> string) option" where
  "read_value s =
     (if s \<noteq> [] \<and> hd s = CHR 0x27 then map_option (\<lambda>(v, r). (Sql_text v, r)) (read_literal s)
      else map_option (\<lambda>(n, r). (Sql_number n, r)) (read_name s))"

definition read_tuple :: "(string \<Rightarrow> ('a \<times> string) option) \<Rightarrow> string \<Rightarrow> ('a list \<times> string) option" where
  "read_tuple elem s = Option.bind (after_prefix ''('' s) (read_list elem)"

function read_tuples :: "(string \<Rightarrow> ('a \<times> string) option) \<Rightarrow> string \<Rightarrow> ('a list list \<times> string) option" where
  "read_tuples elem s =
     (case read_tuple elem s of
        None \<Rightarrow> None
      | Some (vs, r) \<Rightarrow>
          (case after_prefix '', '' r of
             Some t \<Rightarrow>
               if length t < length s then map_option (\<lambda>(rows, u). (vs # rows, u)) (read_tuples elem t) else None
           | None \<Rightarrow> Some ([vs], r)))"
  by auto

termination
  by (relation "measure (\<lambda>(elem, s). length s)") auto

declare read_tuples.simps [simp del]

text \<open>\<open>INSERT INTO table (columns) VALUES (values), ...\<close>: the table, the columns, the rows, and the rest.\<close>

definition read_insert :: "string \<Rightarrow> (string \<times> string list \<times> sql_value list list \<times> string) option" where
  "read_insert s =
     Option.bind (after_prefix ''INSERT INTO '' s) (\<lambda>t.
     Option.bind (after_prefix '' '' (dropWhile (Not \<circ> blank) t)) (\<lambda>u.
     Option.bind (read_tuple read_name u) (\<lambda>(columns, v).
     Option.bind (after_prefix '' VALUES '' v) (\<lambda>x.
     Option.bind (read_tuples read_value x) (\<lambda>(rows, rest).
       Some (takeWhile (Not \<circ> blank) t, columns, rows, rest))))))"

subsection \<open>The reader reads the builder's text\<close>

definition plain_name :: "string \<Rightarrow> bool" where
  "plain_name s \<longleftrightarrow> (\<forall>ch \<in> set s. \<not> ends_item ch)"

fun plain_value :: "yan_val \<Rightarrow> bool" where
  "plain_value (V_string s) \<longleftrightarrow> CHR 0x27 \<notin> set s"
| "plain_value _ \<longleftrightarrow> True"

fun stored_value :: "yan_val \<Rightarrow> sql_value" where
  "stored_value (V_string s) = Sql_text s"
| "stored_value v = Sql_number (sql_literal v)"

lemma read_list_items:
  assumes "xs \<noteq> []"
    and "\<And>x t. x \<in> set xs \<Longrightarrow> t \<noteq> [] \<Longrightarrow> ends_item (hd t) \<Longrightarrow> elem (f x @ t) = Some (g x, t)"
  shows "read_list elem (join_with '', '' (map f xs) @ '')'' @ rest) = Some (map g xs, rest)"
  using assms
proof (induction xs)
  case (Cons x xs)
  show ?case
  proof (cases "xs = []")
    case True
    with Cons.prems(2) [of x "'')'' @ rest"] show ?thesis
      by (subst read_list.simps) (simp add: ends_item_def)
  next
    case False
    let ?t = "join_with '', '' (map f xs) @ '')'' @ rest"
    have "elem (f x @ '', '' @ ?t) = Some (g x, '', '' @ ?t)"
      using Cons.prems(2) [of x "'', '' @ ?t"] by (simp add: ends_item_def)
    moreover have "read_list elem ?t = Some (map g xs, rest)" using Cons False by simp
    ultimately show ?thesis
      using False by (subst read_list.simps) (simp add: join_with_Cons)
  qed
qed simp

lemma read_name_plain: "plain_name s \<Longrightarrow> t \<noteq> [] \<Longrightarrow> ends_item (hd t) \<Longrightarrow> read_name (s @ t) = Some (s, t)"
  by (cases t) (simp_all add: read_name_def plain_name_def takeWhile_append2 dropWhile_append2)

definition number_chars :: "char set" where
  "number_chars = digits \<union> set ''-.infa''"

lemma number_chars: "\<not> (\<exists>s. v = V_string s) \<Longrightarrow> set (sql_literal v) \<subseteq> number_chars \<and> sql_literal v \<noteq> []"
proof -
  have i: "set (string_of_int k) \<subseteq> number_chars" for k
    using string_of_int_chars [of k] by (auto simp: number_chars_def)
  have n: "set (string_of_nat k) \<subseteq> number_chars" for k
    using string_of_nat_digits [of k] by (auto simp: number_chars_def)
  have z: "{CHR ''0'', CHR ''1'', CHR ''-'', CHR ''.''} \<union> set ''inf'' \<union> set ''nan'' \<subseteq> number_chars"
    by (auto simp: number_chars_def digits_def)
  have f: "set (fp_to_string x) \<subseteq> number_chars \<and> fp_to_string x \<noteq> []" for x
    using n z by (cases x) (auto simp: Let_def pad6_def)
  assume "\<not> (\<exists>s. v = V_string s)"
  then show ?thesis using i f z by (cases v) auto
qed

lemma number_char_plain: "ch \<in> number_chars \<Longrightarrow> \<not> ends_item ch \<and> ch \<noteq> CHR 0x27"
  by (auto simp: number_chars_def digits_def ends_item_def)

lemma read_value_plain:
  assumes "plain_value v" and "t \<noteq> []" and "ends_item (hd t)"
  shows "read_value (sql_literal v @ t) = Some (stored_value v, t)"
proof (cases "\<exists>s. v = V_string s")
  case True
  then obtain s where v: "v = V_string s" by blast
  have "hd t \<noteq> CHR 0x27" using assms(3) by (auto simp: ends_item_def)
  with assms(1) v read_quoted_plain [of s t] show ?thesis by (simp add: read_value_def)
next
  case False
  note n = number_chars [OF False]
  then have "hd (sql_literal v @ t) \<noteq> CHR 0x27" "plain_name (sql_literal v)"
    using number_char_plain by (cases "sql_literal v"; auto simp: plain_name_def)+
  moreover have "stored_value v = Sql_number (sql_literal v)" using False by (cases v) auto
  ultimately show ?thesis using assms(2,3) by (simp add: read_value_def read_name_plain)
qed

definition plain_row :: "row_item list \<Rightarrow> bool" where
  "plain_row row \<longleftrightarrow> row \<noteq> [] \<and> (\<forall>i \<in> set row. plain_name (fst i) \<and> plain_value (snd i))"

definition stored_row :: "row_item list \<Rightarrow> sql_value list" where
  "stored_row row = map (\<lambda>i. stored_value (snd i)) row"

lemma read_row:
  "plain_row row \<Longrightarrow>
    read_tuple read_value (''('' @ join_with '', '' (map (\<lambda>i. sql_literal (snd i)) row) @ '')'' @ rest) =
      Some (stored_row row, rest)"
  using read_list_items [of row read_value "\<lambda>i. sql_literal (snd i)" "\<lambda>i. stored_value (snd i)" rest]
  by (simp add: read_tuple_def plain_row_def stored_row_def read_value_plain)

lemma read_columns:
  "plain_row row \<Longrightarrow>
    read_tuple read_name (''('' @ join_with '', '' (map fst row) @ '')'' @ rest) = Some (map fst row, rest)"
  using read_list_items [of row read_name fst fst rest]
  by (simp add: read_tuple_def plain_row_def read_name_plain)

lemma read_rows:
  assumes "plain_row row" and "\<forall>r \<in> set rows. plain_row r" and "rest = [] \<or> hd rest \<noteq> CHR '',''"
  shows "read_tuples read_value
      (''('' @ join_with '', '' (map (\<lambda>i. sql_literal (snd i)) row) @ '')'' @ concat (map values_text rows) @ rest) =
    Some (map stored_row (row # rows), rest)"
  using assms(1,2)
proof (induction rows arbitrary: row)
  case Nil
  have "after_prefix '', '' rest = None" using assms(3) by (cases rest) auto
  then show ?case
    using read_row [OF Nil.prems(1), of rest] by (subst read_tuples.simps) simp
next
  case (Cons r rows)
  let ?t = "''('' @ join_with '', '' (map (\<lambda>i. sql_literal (snd i)) r) @ '')'' @ concat (map values_text rows) @ rest"
  have IH: "read_tuples read_value ?t = Some (map stored_row (r # rows), rest)"
    using Cons by simp
  have t: "concat (map values_text (r # rows)) @ rest = '', '' @ ?t" by (simp add: values_text_def)
  show ?case
    unfolding t
    by (subst read_tuples.simps, subst read_row [OF Cons.prems(1)]) (simp add: IH [simplified])
qed

lemma read_insert_run:
  assumes "is_word name" and "plain_row row" and "\<forall>r \<in> set rows. plain_row r" and "rest = [] \<or> hd rest \<noteq> CHR '',''"
  shows "read_insert (insert_text name row @ concat (map values_text rows) @ rest) =
    Some (name, map fst row, map stored_row (row # rows), rest)"
proof -
  have w: "takeWhile (Not \<circ> blank) (name @ '' '' @ t) = name" "dropWhile (Not \<circ> blank) (name @ '' '' @ t) = '' '' @ t" for t
    using assms(1) by (simp_all add: is_word_def takeWhile_append2 dropWhile_append2 blank_def)
  let ?v = "''('' @ join_with '', '' (map (\<lambda>i. sql_literal (snd i)) row) @ '')'' @ concat (map values_text rows) @ rest"
  have i: "insert_text name row @ concat (map values_text rows) @ rest =
      ''INSERT INTO '' @ name @ '' '' @ ''('' @ join_with '', '' (map fst row) @ '')'' @ '' VALUES '' @ ?v"
    by (simp add: insert_text_def)
  show ?thesis
    unfolding i read_insert_def after_prefix_append bind.bind_lunit w read_columns [OF assms(2)] prod.case
      read_rows [OF assms(2-4)] ..
qed


section \<open>Concrete instances\<close>

text \<open>Two comparisons on the second object, the second one added with \<open>OR\<close>.\<close>

definition either_conds :: "param list" where
  "either_conds = [make_param ''data'' YT_INT32 (set_mem_cond_type 1 OT_LARGE) 4 (PV (V_int32 7)),
                   make_param ''point'' YT_INT32 (set_mem_cond_type 2 OT_EQUAL) 3 (PV (V_int32 0))]"

definition either_world :: world where
  "either_world = sample_world\<lparr>w_plists := [6 \<mapsto> either_conds]\<rparr>"

fun int_operand :: "param_value \<Rightarrow> int" where
  "int_operand (PV (V_int32 x)) = sint x"
| "int_operand _ = 0"

lemma either_members: "class_members either_world MaintainDB = map decl_info (cd_members MaintainDB)"
  using sample_class_members by (simp add: class_members_def either_world_def)

lemma either_conds_of: "conds_of either_world (sample_read ret) MaintainDB either_conds"
proof -
  have "param_of_class MaintainDB (make_param ''data'' YT_INT32 (set_mem_cond_type 1 OT_LARGE) 4 (PV (V_int32 7)))"
    by (rule param_of_classI [where i = 4]) (simp_all add: sample_members valid_cond_code)
  moreover have "param_of_class MaintainDB (make_param ''point'' YT_INT32 (set_mem_cond_type 2 OT_EQUAL) 3 (PV (V_int32 0)))"
    by (rule param_of_classI [where i = 3]) (simp_all add: sample_members valid_cond_code)
  ultimately show ?thesis
    using sample_conds_of [of ret]
    by (auto simp: conds_of_def either_world_def either_conds_def sample_read_def rc_param_list_def)
qed

lemma either_items:
  "map (cond_item_of (class_members either_world MaintainDB)) either_conds =
     [(''d'', CT_AND, OT_LARGE), (''p'', CT_OR, OT_EQUAL)]"
  unfolding either_members
  by (simp add: either_conds_def cond_item_of_def make_param_def MaintainDB_def mi_get_name_def base_member_info_def)

lemma either_plain: "\<forall>prm \<in> set either_conds. plain_field (cond_item_of (class_members either_world MaintainDB) prm)"
proof -
  have "plain_field i" if "i \<in> set (map (cond_item_of (class_members either_world MaintainDB)) either_conds)" for i
    using that unfolding either_items
    by (auto simp: plain_field_def is_word_def blank_def field_cond_def comparison_op_def)
  then show ?thesis by simp
qed

lemma either_mean:
  "conds_hold row (map (\<lambda>prm. (cond_item_of (class_members either_world MaintainDB) prm,
      int_operand (param_val prm))) either_conds) \<longleftrightarrow> row ''d'' > 7 \<or> row ''p'' = 0"
proof -
  have "map (\<lambda>prm. (cond_item_of (class_members either_world MaintainDB) prm, int_operand (param_val prm))) either_conds =
      zip (map (cond_item_of (class_members either_world MaintainDB)) either_conds)
        (map (\<lambda>prm. int_operand (param_val prm)) either_conds)"
    by (simp add: zip_map_map zip_same_conv_map)
  also have "\<dots> = [((''d'', CT_AND, OT_LARGE), 7), ((''p'', CT_OR, OT_EQUAL), 0)]"
    unfolding either_items by (simp add: either_conds_def make_param_def)
  finally show ?thesis by (simp add: conds_hold_def)
qed

theorem where_text_means_its_conditions_witness:
  "\<exists>text tree. where_clause either_world (sample_read Ret_int64) = '' WHERE '' @ text \<and>
     read_conds (sql_words text) = Some (tree, []) \<and>
     (\<forall>row. sql_where_holds row tree
        (map (\<lambda>(name, t, pv). int_operand pv) (cond_operands either_world (sample_read Ret_int64))) \<longleftrightarrow>
        row ''d'' > 7 \<or> row ''p'' = 0)"
proof -
  have ne: "either_conds \<noteq> []" by (simp add: either_conds_def)
  from where_text_means_its_conditions [where 'v = int, OF either_conds_of ne either_plain, of Ret_int64] obtain u tree where
    t: "where_clause either_world (sample_read Ret_int64) = '' WHERE '' @ u" "read_conds (sql_words u) = Some (tree, [])"
    and all: "\<forall>row val. sql_where_holds row tree
        (map (\<lambda>(name, t, pv). val pv) (cond_operands either_world (sample_read Ret_int64))) \<longleftrightarrow>
        conds_hold row (map (\<lambda>prm. (cond_item_of (class_members either_world MaintainDB) prm,
          (val (param_val prm) :: int))) either_conds)"
    by blast
  show ?thesis
    by (intro exI [of _ u] exI [of _ tree] conjI t allI, subst all [rule_format], rule either_mean)
qed


end
