(* ===== verification/Yan_Sql_Effect.thy ===== *)
theory Yan_Sql_Effect
  imports Yan_Sql_Meaning
begin

text \<open>
  The effect of the emitted statements on a table.  A statement is read from its words and executed on a
  list of rows with the operands that the binding supplies; the properties compare the effect
  with what the request says about the rows.
\<close>

section \<open>Statements and their effect\<close>

datatype sql_stmt =
    Sql_select "string list" string "sql_cond list list option"
  | Sql_update string "string list" "sql_cond list list option"
  | Sql_delete string "sql_cond list list option"

fun read_where :: "string list \<Rightarrow> sql_cond list list option option" where
  "read_where [] = Some None"
| "read_where (k # ws) =
     (if k = ''WHERE'' then
        (case read_conds ws of Some (tree, []) \<Rightarrow> Some (Some tree) | _ \<Rightarrow> None)
      else None)"

text \<open>The assignments of an update; all but the last placeholder have a comma at their end.\<close>

fun read_sets :: "string list \<Rightarrow> (string list \<times> string list) option" where
  "read_sets (column # e # q # ws) =
     (if e \<noteq> ''='' then None
      else if q = ''?,'' then map_option (\<lambda>(columns, rest). (column # columns, rest)) (read_sets ws)
      else if q = ''?'' then Some ([column], ws)
      else None)"
| "read_sets _ = None"

fun read_words :: "string list \<Rightarrow> sql_stmt option" where
  "read_words (k # ws) =
     (if k = ''SELECT'' then
        (case dropWhile (\<lambda>x. x \<noteq> ''FROM'') ws of
           from # table # rest \<Rightarrow>
             map_option (Sql_select (takeWhile (\<lambda>x. x \<noteq> ''FROM'') ws) table) (read_where rest)
         | _ \<Rightarrow> None)
      else if k = ''UPDATE'' then
        (case ws of
           table # s # rest \<Rightarrow>
             if s \<noteq> ''SET'' then None
             else (case read_sets rest of
                     Some (columns, rest') \<Rightarrow> map_option (Sql_update table columns) (read_where rest')
                   | None \<Rightarrow> None)
         | _ \<Rightarrow> None)
      else if k = ''DELETE'' then
        (case ws of
           from # table # rest \<Rightarrow> if from \<noteq> ''FROM'' then None else map_option (Sql_delete table) (read_where rest)
         | _ \<Rightarrow> None)
      else None)"
| "read_words [] = None"

definition read_stmt :: "string \<Rightarrow> sql_stmt option" where
  "read_stmt t = read_words (sql_words t)"

fun sql_table :: "sql_stmt \<Rightarrow> string" where
  "sql_table (Sql_select columns table wh) = table"
| "sql_table (Sql_update table columns wh) = table"
| "sql_table (Sql_delete table wh) = table"

text \<open>The columns that a statement compares or sets, one for each placeholder.\<close>

definition where_columns :: "sql_cond list list option \<Rightarrow> string list" where
  "where_columns wh = (case wh of None \<Rightarrow> [] | Some tree \<Rightarrow> map fst (concat tree))"

definition where_operators :: "sql_cond list list option \<Rightarrow> string set" where
  "where_operators wh = (case wh of None \<Rightarrow> {} | Some tree \<Rightarrow> snd ` set (concat tree))"

definition comparison_words :: "string set" where
  "comparison_words = {''=='', ''!='', ''>'', ''>='', ''<'', ''<=''}"

fun sql_columns :: "sql_stmt \<Rightarrow> string list" where
  "sql_columns (Sql_select columns table wh) = where_columns wh"
| "sql_columns (Sql_update table columns wh) = columns @ where_columns wh"
| "sql_columns (Sql_delete table wh) = where_columns wh"

fun sql_operators :: "sql_stmt \<Rightarrow> string set" where
  "sql_operators (Sql_select columns table wh) = where_operators wh"
| "sql_operators (Sql_update table columns wh) = where_operators wh"
| "sql_operators (Sql_delete table wh) = where_operators wh"

definition where_selects :: "sql_cond list list option \<Rightarrow> 'v::linorder list \<Rightarrow> (string \<Rightarrow> 'v) \<Rightarrow> bool" where
  "where_selects wh vs row \<longleftrightarrow> (case wh of None \<Rightarrow> True | Some tree \<Rightarrow> sql_where_holds row tree vs)"

definition assign_columns :: "(string \<times> 'v) list \<Rightarrow> (string \<Rightarrow> 'v) \<Rightarrow> string \<Rightarrow> 'v" where
  "assign_columns cvs row = fold (\<lambda>(c, v) r. r(c := v)) cvs row"

text \<open>The rows a select yields; the rows of the table after an update or a delete.\<close>

fun sql_effect :: "sql_stmt \<Rightarrow> 'v::linorder list \<Rightarrow> (string \<Rightarrow> 'v) list \<Rightarrow> (string \<Rightarrow> 'v) list" where
  "sql_effect (Sql_select columns table wh) vs rows = filter (where_selects wh vs) rows"
| "sql_effect (Sql_update table columns wh) vs rows =
     map (\<lambda>row. if where_selects wh (drop (length columns) vs) row
                then assign_columns (zip columns (take (length columns) vs)) row else row) rows"
| "sql_effect (Sql_delete table wh) vs rows = filter (\<lambda>row. \<not> where_selects wh vs row) rows"

section \<open>What a request says\<close>

text \<open>A request on the class \<open>c\<close> whose conditions are comparisons of plainly named columns.\<close>

definition plain_request :: "world \<Rightarrow> read_cond \<Rightarrow> class_decl \<Rightarrow> bool" where
  "plain_request w rc c \<longleftrightarrow> rc_cys rc = Some c \<and> is_word (class_name w c) \<and>
     (has_cond rc \<longrightarrow> (\<exists>ps. conds_of w rc c ps \<and> ps \<noteq> [] \<and>
        (\<forall>prm \<in> set ps. plain_field (cond_item_of (class_members w c) prm))))"

text \<open>The rows the request is about; \<open>val\<close> places the operands among the values of the table.\<close>

definition request_matches :: "world \<Rightarrow> read_cond \<Rightarrow> (param_value \<Rightarrow> 'v::linorder) \<Rightarrow> (string \<Rightarrow> 'v) \<Rightarrow> bool" where
  "request_matches w rc val row \<longleftrightarrow>
     (has_cond rc \<longrightarrow>
        conds_hold row (map (\<lambda>prm. (cond_item_of (class_members w (the (rc_cys rc))) prm, val (param_val prm))) (params_of w rc)))"

definition operand_values :: "(param_value \<Rightarrow> 'v) \<Rightarrow> bind_item list \<Rightarrow> 'v list" where
  "operand_values val items = map (\<lambda>(name, t, pv). val pv) items"

lemma plain_field_first: "ps \<noteq> [] \<Longrightarrow> \<forall>prm \<in> set ps. plain_field (cond_item_of ms prm) \<Longrightarrow> first_is_field ps"
  by (cases ps) (auto simp: first_is_field_def plain_field_def cond_item_of_def)

lemma plain_request_conds:
  "plain_request w rc c \<Longrightarrow> has_cond rc \<longrightarrow> (\<exists>ps. conds_of w rc c ps \<and> first_is_field ps)"
  unfolding plain_request_def using plain_field_first by blast

text \<open>The columns that the conditions of a request name.\<close>

definition cond_columns :: "world \<Rightarrow> read_cond \<Rightarrow> string list" where
  "cond_columns w rc =
     (if has_cond rc then map (fst \<circ> cond_item_of (class_members w (the (rc_cys rc)))) (params_of w rc) else [])"

lemma op_word_known: "comparison_op ot \<Longrightarrow> op_word ot n \<in> comparison_words"
  by (cases ot) (auto simp: comparison_words_def comparison_op_def)

lemma where_reads:
  assumes "plain_request w rc c"
  shows "\<exists>wh. read_where (sql_words (where_clause w rc)) = Some wh \<and>
    where_columns wh = cond_columns w rc \<and> where_operators wh \<subseteq> comparison_words \<and>
    (\<forall>val :: param_value \<Rightarrow> 'v::linorder.
       where_selects wh (operand_values val (cond_operands w rc)) = request_matches w rc val)"
proof (cases "has_cond rc")
  case False
  then show ?thesis
    by (intro exI [of _ None]) (simp add: where_clause_def where_selects_def request_matches_def cond_columns_def
        where_columns_def where_operators_def fun_eq_iff)
next
  case True
  with assms obtain ps where ps: "conds_of w rc c ps" "ps \<noteq> []"
    "\<forall>prm \<in> set ps. plain_field (cond_item_of (class_members w c) prm)" by (auto simp: plain_request_def)
  from where_meaning_run [where 'v = 'v, OF ps] obtain u tree where
    u: "where_clause w rc = '' WHERE '' @ u" "read_conds (sql_words u) = Some (tree, [])"
      "concat tree = map (cond_pair \<circ> cond_item_of (class_members w c)) ps"
    and mean: "\<forall>row (val :: param_value \<Rightarrow> 'v). sql_where_holds row tree (operand_values val (cond_operands w rc)) \<longleftrightarrow>
       conds_hold row (map (\<lambda>prm. (cond_item_of (class_members w c) prm, val (param_val prm))) ps)"
    unfolding operand_values_def by blast
  have "sql_words ('' WHERE '' @ u) = ''WHERE'' # sql_words u"
    using sql_words_word(1) [of "''WHERE''" u] by (simp add: is_word_def blank_def)
  moreover have "snd (cond_pair i) \<in> comparison_words" if "plain_field i" for i
    using that op_word_known by (cases i) (simp add: plain_field_def cond_pair_def)
  then have "\<forall>prm \<in> set ps. snd (cond_pair (cond_item_of (class_members w c) prm)) \<in> comparison_words" using ps(3) by blast
  then have "where_operators (Some tree) \<subseteq> comparison_words"
    unfolding where_operators_def option.case set_concat [symmetric] u(3) by (simp add: image_subset_iff)
  moreover have "where_columns (Some tree) = map (\<lambda>prm. fst (cond_item_of (class_members w c) prm)) ps"
    unfolding where_columns_def option.case u(3) by (simp add: cond_pair_def)
  ultimately show ?thesis
    using u(1,2) mean True conds_of_unique [OF ps(1)]
    by (intro exI [of _ "Some tree"])
      (simp add: where_selects_def request_matches_def cond_columns_def comp_def fun_eq_iff)
qed

section \<open>The texts as words\<close>

lemma word_split:
  "takeWhile (Not \<circ> blank) (d @ CHR '' '' # t) = takeWhile (Not \<circ> blank) d"
  "sql_words (dropWhile (Not \<circ> blank) (d @ CHR '' '' # t)) = sql_words (dropWhile (Not \<circ> blank) d @ CHR '' '' # t)"
  by (induction d) (auto simp: blank_def)

lemma sql_words_append: "sql_words (s @ CHR '' '' # t) = sql_words s @ sql_words t"
proof (induction s rule: sql_words.induct)
  case (1 s)
  let ?d = "dropWhile blank s"
  show ?case
  proof (cases "?d = []")
    case True
    then have "\<forall>ch \<in> set s. blank ch" by simp
    then have "dropWhile blank (s @ CHR '' '' # t) = dropWhile blank (CHR '' '' # t)" by (intro dropWhile_append2) blast
    then have "sql_words (s @ CHR '' '' # t) = sql_words (CHR '' '' # t)"
      by (subst (1 2) sql_words.simps) simp
    moreover have "sql_words s = []" using True by (simp add: sql_words.simps)
    ultimately show ?thesis by simp
  next
    case False
    let ?w = "takeWhile (Not \<circ> blank) ?d" and ?r = "dropWhile (Not \<circ> blank) ?d"
    have d: "dropWhile blank (s @ CHR '' '' # t) = ?d @ CHR '' '' # t" using False by (auto simp: dropWhile_append)
    have w: "takeWhile (Not \<circ> blank) (?d @ CHR '' '' # t) = ?w"
      and r: "sql_words (dropWhile (Not \<circ> blank) (?d @ CHR '' '' # t)) = sql_words (?r @ CHR '' '' # t)"
      using word_split [of ?d t] by simp_all
    with 1 [of ?d] False d w r show ?thesis
      by (subst (1 2) sql_words.simps) (simp add: Let_def)
  qed
qed

lemma where_gap: "at_gap (where_clause w rc)"
  by (simp add: where_clause_def at_gap_def)

lemma word_then_where: "is_word name \<Longrightarrow> sql_words (name @ where_clause w rc) = name # sql_words (where_clause w rc)"
  by (rule word_before_gap [OF _ where_gap])

lemma keyword_words [simp]:
  "is_word ''SELECT''" "is_word ''UPDATE''" "is_word ''DELETE''" "is_word ''FROM''" "is_word ''SET''" "is_word ''=''"
  "is_word ''?,''"
  by (simp_all add: is_word_def blank_def)

lemma delete_words:
  assumes "is_word name"
  shows "sql_words (''DELETE FROM '' @ name @ where_clause w rc) = ''DELETE'' # ''FROM'' # name # sql_words (where_clause w rc)"
  using sql_words_word(1) [of "''DELETE''" "''FROM '' @ name @ where_clause w rc"]
    sql_words_word(1) [of "''FROM''" "name @ where_clause w rc"] word_then_where [OF assms] by simp

lemma select_words:
  assumes "is_word name"
  shows "sql_words (''SELECT '' @ columns @ '' FROM '' @ name @ where_clause w rc) =
    ''SELECT'' # sql_words columns @ ''FROM'' # name # sql_words (where_clause w rc)"
  using sql_words_word(1) [of "''SELECT''" "columns @ '' FROM '' @ name @ where_clause w rc"]
    sql_words_append [of columns "''FROM '' @ name @ where_clause w rc"]
    sql_words_word(1) [of "''FROM''" "name @ where_clause w rc"] word_then_where [OF assms] by simp

text \<open>The words of an assignment list, which end where the clause begins.\<close>

fun set_words :: "string list \<Rightarrow> string list" where
  "set_words [] = []"
| "set_words [c] = [c, ''='', ''?'']"
| "set_words (c # cs) = [c, ''='', ''?,''] @ set_words cs"

lemma sets_words:
  assumes "cs \<noteq> []" and "\<forall>c \<in> set cs. is_word c" and "at_gap t"
  shows "sql_words (join_with '', '' (map (\<lambda>c. c @ '' = ?'') cs) @ t) = set_words cs @ sql_words t"
  using assms(1,2)
proof (induction cs rule: set_words.induct)
  case (2 c)
  then show ?case
    using sql_words_word(1) [of c "''= ?'' @ t"] sql_words_word(1) [of "''=''" "''?'' @ t"]
      word_before_gap [OF is_word_simps(1) assms(3)] by simp
next
  case (3 c d cs)
  let ?t = "join_with '', '' (map (\<lambda>c. c @ '' = ?'') (d # cs)) @ t"
  have "sql_words ?t = set_words (d # cs) @ sql_words t" using 3 by simp
  then show ?case
    using 3(3) sql_words_word(1) [of c "''= ?, '' @ ?t"] sql_words_word(1) [of "''=''" "''?, '' @ ?t"]
      sql_words_word(1) [of "''?,''" ?t] by simp
qed simp

lemma read_sets_words: "cs \<noteq> [] \<Longrightarrow> read_sets (set_words cs @ ws) = Some (cs, ws)"
  by (induction cs rule: set_words.induct) auto

lemma update_words:
  assumes "is_word name" and "row \<noteq> []" and "\<forall>i \<in> set row. is_word (fst i)"
  shows "sql_words (update_text name row @ where_clause w rc) =
    ''UPDATE'' # name # ''SET'' # set_words (map fst row) @ sql_words (where_clause w rc)"
proof -
  let ?sets = "join_with '', '' (map (\<lambda>c. c @ '' = ?'') (map fst row)) @ where_clause w rc"
  have t: "update_text name row @ where_clause w rc = ''UPDATE '' @ name @ '' SET '' @ ?sets"
    by (simp add: update_text_def comp_def)
  have "sql_words ?sets = set_words (map fst row) @ sql_words (where_clause w rc)"
    by (rule sets_words) (use assms(2,3) where_gap in auto)
  then show ?thesis
    unfolding t
    using sql_words_word(1) [of "''UPDATE''" "name @ '' SET '' @ ?sets"] sql_words_word(1) [OF assms(1), of "''SET '' @ ?sets"]
      sql_words_word(1) [of "''SET''" ?sets] by simp
qed

section \<open>The effect of the builders' texts\<close>

lemma up_to_from:
  "''FROM'' \<notin> set cs \<Longrightarrow> takeWhile (\<lambda>x. x \<noteq> ''FROM'') (cs @ ''FROM'' # ws) = cs"
  "''FROM'' \<notin> set cs \<Longrightarrow> dropWhile (\<lambda>x. x \<noteq> ''FROM'') (cs @ ''FROM'' # ws) = ''FROM'' # ws"
  by (induction cs) auto

text \<open>A statement that a request makes: its operands and columns are the request's.\<close>

lemma cond_columns_length: "length (cond_columns w rc) = length (cond_operands w rc)"
  by (simp add: cond_columns_def cond_operands_def)

lemma select_effect:
  assumes "plain_request w rc c" and "''FROM'' \<notin> set (sql_words (ret_columns_text w rc))"
  obtains wh where "read_stmt (select_text w rc) = Some (Sql_select (sql_words (ret_columns_text w rc)) (class_name w c) wh)"
    and "sql_columns (Sql_select cs (class_name w c) wh) = cond_columns w rc"
    and "sql_operators (Sql_select cs (class_name w c) wh) \<subseteq> comparison_words"
    and "\<And>(val :: param_value \<Rightarrow> 'v::linorder) rows. sql_effect (Sql_select cs (class_name w c) wh)
      (operand_values val (cond_operands w rc)) rows = filter (request_matches w rc val) rows"
proof -
  have c: "rc_cys rc = Some c" "is_word (class_name w c)" using assms(1) by (simp_all add: plain_request_def)
  from where_reads [where 'v = 'v, OF assms(1)] obtain wh where
    wh: "read_where (sql_words (where_clause w rc)) = Some wh"
      "where_columns wh = cond_columns w rc" "where_operators wh \<subseteq> comparison_words"
      "\<And>val :: param_value \<Rightarrow> 'v.
         where_selects wh (operand_values val (cond_operands w rc)) = request_matches w rc val" by blast
  have sel: "select_text w rc = ''SELECT '' @ ret_columns_text w rc @ '' FROM '' @ class_name w c @ where_clause w rc"
    by (simp add: select_text_def table_of_def c(1))
  have "read_stmt (select_text w rc) = Some (Sql_select (sql_words (ret_columns_text w rc)) (class_name w c) wh)"
    unfolding read_stmt_def sel select_words [OF c(2)] by (simp add: up_to_from [OF assms(2)] wh(1))
  with wh(2-4) show ?thesis by (intro that [of wh]) simp_all
qed

lemma delete_effect:
  assumes "plain_request w rc c"
  obtains wh where "read_stmt (''DELETE FROM '' @ class_name w c @ where_clause w rc) = Some (Sql_delete (class_name w c) wh)"
    and "sql_columns (Sql_delete (class_name w c) wh) = cond_columns w rc"
    and "sql_operators (Sql_delete (class_name w c) wh) \<subseteq> comparison_words"
    and "\<And>(val :: param_value \<Rightarrow> 'v::linorder) rows. sql_effect (Sql_delete (class_name w c) wh)
      (operand_values val (cond_operands w rc)) rows = filter (\<lambda>row. \<not> request_matches w rc val row) rows"
proof -
  have c: "is_word (class_name w c)" using assms(1) by (simp add: plain_request_def)
  from where_reads [where 'v = 'v, OF assms(1)] obtain wh where
    wh: "read_where (sql_words (where_clause w rc)) = Some wh"
      "where_columns wh = cond_columns w rc" "where_operators wh \<subseteq> comparison_words"
      "\<And>val :: param_value \<Rightarrow> 'v.
         where_selects wh (operand_values val (cond_operands w rc)) = request_matches w rc val" by blast
  have "read_stmt (''DELETE FROM '' @ class_name w c @ where_clause w rc) = Some (Sql_delete (class_name w c) wh)"
    unfolding read_stmt_def delete_words [OF c] by (simp add: wh(1))
  with wh(2-4) show ?thesis by (intro that [of wh]) simp_all
qed

text \<open>
  A read and a delete are about exactly the rows that their conditions describe.  Their texts, read as
  SQL and executed on any table with the operands that are bound, yield, or remove, the rows matching
  the request, in the table of its class; without conditions that is every row.
\<close>

theorem reads_and_deletes_address_matching_rows:
  assumes "plain_request w rc c" and "read_request_ok w rc" and "''FROM'' \<notin> set (sql_words (ret_columns_text w rc))"
  shows "\<exists>sel del. (\<exists>ctx. query_make rc query_ctx0 w = (w, Inr ctx) \<and> read_stmt (qc_sql ctx) = Some sel) \<and>
    sql_table sel = class_name w c \<and>
    (\<exists>t. delete_make w rc = Inr t \<and> read_stmt t = Some del) \<and> sql_table del = class_name w c \<and>
    (\<forall>(val :: param_value \<Rightarrow> 'v::linorder) rows.
       sql_effect sel (operand_values val (cond_operands w rc)) rows = filter (request_matches w rc val) rows \<and>
       sql_effect del (operand_values val (cond_operands w rc)) rows = filter (\<lambda>row. \<not> request_matches w rc val row) rows)"
proof -
  obtain ctx where ctx: "query_make rc query_ctx0 w = (w, Inr ctx)" "qc_sql ctx = select_text w rc"
    using query_make_run [OF assms(2), of query_ctx0] by auto
  have "rc_cys rc = Some c" using assms(1) by (simp add: plain_request_def)
  from delete_make_text [OF this plain_request_conds [OF assms(1)]]
  have del: "delete_make w rc = Inr (''DELETE FROM '' @ class_name w c @ where_clause w rc)" .
  obtain wh where sel: "read_stmt (select_text w rc) = Some (Sql_select (sql_words (ret_columns_text w rc)) (class_name w c) wh)"
    "\<And>(val :: param_value \<Rightarrow> 'v) rows. sql_effect (Sql_select [] (class_name w c) wh)
      (operand_values val (cond_operands w rc)) rows = filter (request_matches w rc val) rows"
    by (rule select_effect [where 'v = 'v, OF assms(1,3)]) blast
  obtain wh' where "read_stmt (''DELETE FROM '' @ class_name w c @ where_clause w rc) = Some (Sql_delete (class_name w c) wh')"
    "\<And>(val :: param_value \<Rightarrow> 'v) rows. sql_effect (Sql_delete (class_name w c) wh')
      (operand_values val (cond_operands w rc)) rows = filter (\<lambda>row. \<not> request_matches w rc val row) rows"
    by (rule delete_effect [where 'v = 'v, OF assms(1)]) blast
  with ctx del sel show ?thesis
    by (intro exI [of _ "Sql_select (sql_words (ret_columns_text w rc)) (class_name w c) wh"]
        exI [of _ "Sql_delete (class_name w c) wh'"]) simp
qed

text \<open>The values an object assigns, as a change of a row.\<close>

definition assigns :: "world \<Rightarrow> addr \<Rightarrow> (param_value \<Rightarrow> 'v) \<Rightarrow> (string \<Rightarrow> 'v) \<Rightarrow> string \<Rightarrow> 'v" where
  "assigns w p val row = assign_columns (map (\<lambda>i. (fst i, val (PV (snd i)))) (row_of w p)) row"

lemma update_effect:
  assumes "plain_request w rc c" and "row_of w p \<noteq> []" and "\<forall>i \<in> set (row_of w p). is_word (fst i)"
  obtains wh where "read_stmt (update_text (class_name w c) (row_of w p) @ where_clause w rc) =
      Some (Sql_update (class_name w c) (map fst (row_of w p)) wh)"
    and "sql_columns (Sql_update (class_name w c) (map fst (row_of w p)) wh) = map fst (row_of w p) @ cond_columns w rc"
    and "sql_operators (Sql_update (class_name w c) (map fst (row_of w p)) wh) \<subseteq> comparison_words"
    and "\<And>(val :: param_value \<Rightarrow> 'v::linorder) rows. sql_effect (Sql_update (class_name w c) (map fst (row_of w p)) wh)
      (operand_values val (map row_bind_item (row_of w p) @ cond_operands w rc)) rows =
      map (\<lambda>row. if request_matches w rc val row then assigns w p val row else row) rows"
proof -
  let ?row = "row_of w p" and ?name = "class_name w c"
  have name: "is_word ?name" using assms(1) by (simp add: plain_request_def)
  from where_reads [where 'v = 'v, OF assms(1)] obtain wh where
    wh: "read_where (sql_words (where_clause w rc)) = Some wh"
      "where_columns wh = cond_columns w rc" "where_operators wh \<subseteq> comparison_words"
      "\<And>val :: param_value \<Rightarrow> 'v.
         where_selects wh (operand_values val (cond_operands w rc)) = request_matches w rc val" by blast
  let ?stmt = "Sql_update ?name (map fst ?row) wh"
  have read: "read_stmt (update_text ?name ?row @ where_clause w rc) = Some ?stmt"
    unfolding read_stmt_def update_words [OF name assms(2,3)] by (simp add: read_sets_words assms(2) wh(1))
  have sets: "zip (map fst ?row) (map (\<lambda>i. val (PV (snd i))) ?row) = map (\<lambda>i. (fst i, val (PV (snd i)))) ?row"
    for val :: "param_value \<Rightarrow> 'v"
    by (simp add: zip_map_map zip_same_conv_map)
  have ops: "operand_values val (map row_bind_item ?row @ cond_operands w rc) =
      map (\<lambda>i. val (PV (snd i))) ?row @ operand_values val (cond_operands w rc)" for val :: "param_value \<Rightarrow> 'v"
    by (simp add: operand_values_def row_bind_item_def)
  have "sql_effect ?stmt (operand_values val (map row_bind_item ?row @ cond_operands w rc)) rows =
      map (\<lambda>row. if request_matches w rc val row then assigns w p val row else row) rows"
    for val :: "param_value \<Rightarrow> 'v" and rows
    by (simp add: ops wh(4) sets assigns_def)
  with read wh(2,3) show ?thesis by (intro that [of wh]) simp_all
qed


section \<open>Concrete instances\<close>

lemma either_request: "plain_request either_world (sample_read ret) MaintainDB"
proof -
  have "class_name either_world MaintainDB = ''tm''"
    using sample_class_names(2) by (simp add: class_name_def either_world_def)
  moreover have "either_conds \<noteq> []" by (simp add: either_conds_def)
  ultimately show ?thesis
    using either_conds_of [of ret] either_plain
    by (auto simp: plain_request_def sample_read_def is_word_def blank_def)
qed

lemma either_read_ok: "read_request_ok either_world (sample_read (Ret_class MaintainDB))"
proof -
  have "class_members either_world = class_members sample_world" "from_name either_world = from_name sample_world"
    by (rule ext, simp add: class_members_def from_name_def either_world_def cong: option.case_cong)+
  moreover have "ret_ok sample_world (sample_read (Ret_class MaintainDB))"
    using sample_request_ok [of "Ret_class MaintainDB"] by (simp add: read_request_ok_def)
  ultimately have "ret_ok either_world (sample_read (Ret_class MaintainDB))"
    by (simp add: ret_ok_def sample_read_def)
  with plain_request_conds [OF either_request [of "Ret_class MaintainDB"]] show ?thesis
    unfolding read_request_ok_def by blast
qed

lemma either_matches:
  "request_matches either_world (sample_read ret) int_operand = (\<lambda>row. row ''d'' > 7 \<or> row ''p'' = 0)"
  using conds_of_unique [OF either_conds_of [of ret]] by (simp add: fun_eq_iff request_matches_def either_mean)

text \<open>The delete of the rows with \<open>d > 7 OR p == 0\<close>.\<close>

theorem reads_and_deletes_address_matching_rows_witness:
  "\<exists>del t. delete_make either_world (sample_read (Ret_class MaintainDB)) = Inr t \<and> read_stmt t = Some del \<and>
     (\<forall>rows. sql_effect del
        (operand_values int_operand (cond_operands either_world (sample_read (Ret_class MaintainDB)))) rows =
        filter (\<lambda>row. \<not> (row ''d'' > 7 \<or> row ''p'' = 0)) rows)"
proof -
  have "ret_columns_text either_world (sample_read (Ret_class MaintainDB)) = ''*''"
    by (simp add: ret_columns_text_def sample_read_def)
  then have from_free: "''FROM'' \<notin> set (sql_words (ret_columns_text either_world (sample_read (Ret_class MaintainDB))))"
    using sql_words_word(2) [of "''*''"] by (simp add: is_word_def blank_def)
  from reads_and_deletes_address_matching_rows [where 'v = int, OF either_request either_read_ok from_free]
  obtain del t where "delete_make either_world (sample_read (Ret_class MaintainDB)) = Inr t" "read_stmt t = Some del"
    and eff: "\<forall>(val :: param_value \<Rightarrow> int) rows.
      sql_effect del (operand_values val (cond_operands either_world (sample_read (Ret_class MaintainDB)))) rows =
        filter (\<lambda>row. \<not> request_matches either_world (sample_read (Ret_class MaintainDB)) val row) rows" by blast
  moreover have "sql_effect del
      (operand_values int_operand (cond_operands either_world (sample_read (Ret_class MaintainDB)))) rows =
      filter (\<lambda>row. \<not> (row ''d'' > 7 \<or> row ''p'' = 0)) rows" for rows
    by (simp only: eff either_matches)
  ultimately show ?thesis by blast
qed

text \<open>The update of \<open>n\<close> and \<open>v\<close> where \<open>n == MySQL\<close>; strings are counted by their length.\<close>

fun string_operand :: "param_value \<Rightarrow> nat" where
  "string_operand (PV (V_string s)) = length s"
| "string_operand _ = 0"

lemma sample_update_matches:
  "plain_request sample_world (read_cond.truncate sample_update3) ComponentDB"
  "request_matches sample_world (read_cond.truncate sample_update3) string_operand = (\<lambda>row. row ''n'' = 5)"
proof -
  have c: "conds_of sample_world (read_cond.truncate sample_update3) ComponentDB sample_conds0"
    using sample_update3_ok
    by (simp add: sample_update3_def conds_of_def rc_param_list_def read_cond.truncate_def)
  have i: "map (cond_item_of (class_members sample_world ComponentDB)) sample_conds0 = [(''n'', CT_AND, OT_EQUAL)]"
    unfolding sample_class_members
    by (simp add: sample_conds0_def cond_item_of_def make_param_def ComponentDB_def mi_get_name_def)
  have "plain_field j" if "j \<in> set (map (cond_item_of (class_members sample_world ComponentDB)) sample_conds0)" for j
    using that unfolding i by (simp add: plain_field_def is_word_def blank_def field_cond_def comparison_op_def)
  then have "\<forall>prm \<in> set sample_conds0. plain_field (cond_item_of (class_members sample_world ComponentDB) prm)" by simp
  moreover have "sample_conds0 \<noteq> []" by (simp add: sample_conds0_def)
  ultimately show "plain_request sample_world (read_cond.truncate sample_update3) ComponentDB"
    using c conds_of_unique [OF c] by (auto simp: plain_request_def is_word_def blank_def)
  have "map (\<lambda>prm. (cond_item_of (class_members sample_world ComponentDB) prm, string_operand (param_val prm))) sample_conds0 =
      zip (map (cond_item_of (class_members sample_world ComponentDB)) sample_conds0)
        (map (\<lambda>prm. string_operand (param_val prm)) sample_conds0)"
    by (simp add: zip_map_map zip_same_conv_map)
  also have "\<dots> = [((''n'', CT_AND, OT_EQUAL), 5)]"
    unfolding i by (simp add: sample_conds0_def make_param_def)
  finally show "request_matches sample_world (read_cond.truncate sample_update3) string_operand = (\<lambda>row. row ''n'' = 5)"
    using conds_of_unique [OF c] by (simp add: fun_eq_iff request_matches_def conds_hold_def)
qed


end
