(* ===== verification/Yan_Table.thy ===== *)
theory Yan_Table
  imports Yan_Change Yan_Sql_Effect "HOL-Library.Multiset" "HOL-Library.List_Lexorder" "HOL-Library.Char_ord"
begin

text \<open>
  Requests and the tables they change.  The SQLite library stays a parameter; what its documentation
  says of preparing, binding and stepping a statement is written as laws on a view of its state as tables.
  Under these laws the properties say what a user's request leaves in the tables, whatever code the
  library answers with.
\<close>

section \<open>Cells\<close>

text \<open>NULL sorts before an integer and an integer before a text, texts sort by their bytes.\<close>

datatype cell = Cell_null | Cell_int int | Cell_text string

instantiation cell :: linorder
begin

fun less_eq_cell :: "cell \<Rightarrow> cell \<Rightarrow> bool" where
  "less_eq_cell Cell_null b \<longleftrightarrow> True"
| "less_eq_cell a Cell_null \<longleftrightarrow> a = Cell_null"
| "less_eq_cell (Cell_int a) (Cell_int b) \<longleftrightarrow> a \<le> b"
| "less_eq_cell (Cell_int a) (Cell_text t) \<longleftrightarrow> True"
| "less_eq_cell (Cell_text s) (Cell_int b) \<longleftrightarrow> False"
| "less_eq_cell (Cell_text s) (Cell_text t) \<longleftrightarrow> s \<le> t"

definition less_cell :: "cell \<Rightarrow> cell \<Rightarrow> bool" where
  "less_cell a b \<longleftrightarrow> a \<le> b \<and> \<not> b \<le> a"

instance
proof
  fix a b c :: cell
  show "a < b \<longleftrightarrow> a \<le> b \<and> \<not> b \<le> a" by (rule less_cell_def)
  show "a \<le> a" by (cases a) simp_all
  show "a \<le> b \<Longrightarrow> b \<le> c \<Longrightarrow> a \<le> c" by (cases a; cases b; cases c) auto
  show "a \<le> b \<Longrightarrow> b \<le> a \<Longrightarrow> a = b" by (cases a; cases b) auto
  show "a \<le> b \<or> b \<le> a" by (cases a; cases b) auto
qed

end

fun text_cell :: "cell \<Rightarrow> bool" where
  "text_cell (Cell_text s) \<longleftrightarrow> True"
| "text_cell _ \<longleftrightarrow> False"

text \<open>The cell that a bound value becomes; a value of another type is never bound.\<close>

fun stored :: "param_value \<Rightarrow> cell" where
  "stored (PV (V_string s)) = Cell_text (c_str s)"
| "stored (PV (V_int32 x)) = Cell_int (sint x)"
| "stored (PV (V_int64 x)) = Cell_int (sint x)"
| "stored _ = Cell_int 0"

fun storable :: "param_value \<Rightarrow> bool" where
  "storable (PV (V_string s)) \<longleftrightarrow> True"
| "storable (PV (V_int32 x)) \<longleftrightarrow> True"
| "storable (PV (V_int64 x)) \<longleftrightarrow> True"
| "storable _ \<longleftrightarrow> False"

section \<open>The documented behaviour of the library\<close>

text \<open>
  A view of the library's state: the rows of the tables that have no trigger; the
  columns of a table, with whether they hold text; the statement that a handle stands for while it is prepared and
  not in the middle of a run; the operands that are bound to it; the words that are identifiers.
\<close>

record 'db table_view =
  tv_rows :: "'db \<Rightarrow> string \<Rightarrow> (string \<Rightarrow> cell) multiset option"
  tv_columns :: "'db \<Rightarrow> string \<Rightarrow> string list"
  tv_text_column :: "'db \<Rightarrow> string \<Rightarrow> string \<Rightarrow> bool option"
  tv_ready :: "'db \<Rightarrow> stmt \<Rightarrow> sql_stmt option"
  tv_operand :: "'db \<Rightarrow> stmt \<Rightarrow> int \<Rightarrow> cell"
  tv_identifier :: "string \<Rightarrow> bool"

definition same_tables :: "'db table_view \<Rightarrow> 'db \<Rightarrow> 'db \<Rightarrow> bool" where
  "same_tables v db db' \<longleftrightarrow> tv_rows v db' = tv_rows v db \<and> tv_columns v db' = tv_columns v db \<and>
     tv_text_column v db' = tv_text_column v db"

fun is_change :: "sql_stmt \<Rightarrow> bool" where
  "is_change (Sql_select columns table wh) \<longleftrightarrow> False"
| "is_change (Sql_update table columns wh) \<longleftrightarrow> True"
| "is_change (Sql_delete table wh) \<longleftrightarrow> True"

text \<open>
  A statement whose names are identifiers and whose operators are the comparisons of SQL; of the selections,
  those of all columns.
\<close>

fun selected :: "sql_stmt \<Rightarrow> string list" where
  "selected (Sql_select columns table wh) = columns"
| "selected _ = [''*'']"

definition preparable :: "'db table_view \<Rightarrow> sql_stmt \<Rightarrow> bool" where
  "preparable v stmt \<longleftrightarrow> tv_identifier v (sql_table stmt) \<and> list_all (tv_identifier v) (sql_columns stmt) \<and>
     sql_operators stmt \<subseteq> comparison_words \<and> selected stmt = [''*'']"

text \<open>Preparing changes no table; a prepared statement stands for what its text says.\<close>

definition prepare_law :: "'db sqlite_api \<Rightarrow> 'db table_view \<Rightarrow> bool" where
  "prepare_law api v \<longleftrightarrow> (\<forall>t db code st db'. sq_prepare api t db = ((code, st), db') \<longrightarrow>
     same_tables v db db' \<and>
     (\<forall>u stmt. t = u @ '';'' \<and> read_stmt u = Some stmt \<and> preparable v stmt \<and> code = SQLITE_OK \<longrightarrow>
        tv_ready v db' st = Some stmt))"

definition binds :: "'db table_view \<Rightarrow> stmt \<Rightarrow> int \<Rightarrow> cell \<Rightarrow> 'db \<Rightarrow> int \<times> 'db \<Rightarrow> bool" where
  "binds v st i x db r \<longleftrightarrow> same_tables v db (snd r) \<and> tv_ready v (snd r) = tv_ready v db \<and>
     (fst r = SQLITE_OK \<longrightarrow> tv_operand v (snd r) st = (tv_operand v db st)(i := x))"

definition bind_law :: "'db sqlite_api \<Rightarrow> 'db table_view \<Rightarrow> bool" where
  "bind_law api v \<longleftrightarrow> (\<forall>st i db.
     (\<forall>s. binds v st i (Cell_text (c_str s)) db (sq_bind_text api st i (c_str s) db)) \<and>
     (\<forall>x. binds v st i (Cell_int (sint x)) db (sq_bind_int api st i x db)) \<and>
     (\<forall>x. binds v st i (Cell_int (sint x)) db (sq_bind_int64 api st i x db)))"

text \<open>
  One step runs a change to its end: it yields no row; with \<open>SQLITE_DONE\<close> the table has changed as the
  statement says, with any other code the statement has been rolled back.  The operands are of the types of
  their columns, so that no conversion takes place.
\<close>

definition bound_operands :: "'db table_view \<Rightarrow> 'db \<Rightarrow> stmt \<Rightarrow> nat \<Rightarrow> cell list" where
  "bound_operands v db st n = map (\<lambda>i. tv_operand v db st (int i + 1)) [0..<n]"

definition operands_fit :: "'db table_view \<Rightarrow> 'db \<Rightarrow> sql_stmt \<Rightarrow> cell list \<Rightarrow> bool" where
  "operands_fit v db stmt xs \<longleftrightarrow>
     list_all2 (\<lambda>column x. tv_text_column v db (sql_table stmt) column = Some (text_cell x)) (sql_columns stmt) xs"

text \<open>The comparison with a NULL is neither true nor false; the laws are about statements that make none.\<close>

fun compared :: "sql_stmt \<Rightarrow> string list" where
  "compared (Sql_select columns table wh) = where_columns wh"
| "compared (Sql_update table columns wh) = where_columns wh"
| "compared (Sql_delete table wh) = where_columns wh"

definition no_null :: "(string \<Rightarrow> cell) multiset \<Rightarrow> string list \<Rightarrow> bool" where
  "no_null M columns \<longleftrightarrow> (\<forall>row \<in># M. \<forall>c \<in> set columns. row c \<noteq> Cell_null)"

definition step_law :: "'db sqlite_api \<Rightarrow> 'db table_view \<Rightarrow> bool" where
  "step_law api v \<longleftrightarrow> (\<forall>st stmt db rows code db'.
     let xs = bound_operands v db st (length (sql_columns stmt)) in
     tv_ready v db st = Some stmt \<and> is_change stmt \<and> tv_rows v db (sql_table stmt) = Some (mset rows) \<and>
     no_null (mset rows) (compared stmt) \<and> operands_fit v db stmt xs \<and> sq_step api st db = (code, db') \<longrightarrow>
       code \<noteq> SQLITE_ROW \<and> tv_text_column v db' = tv_text_column v db \<and>
       tv_rows v db' =
         (if code = SQLITE_DONE then (tv_rows v db)(sql_table stmt \<mapsto> mset (sql_effect stmt xs rows)) else tv_rows v db))"

text \<open>
  A selection of all columns delivers its rows in some order and ends; with \<open>SQLITE_DONE\<close> it has delivered
  the rows that its conditions hold for, each with the cells of the table's columns in their order.
\<close>

fun cell_at :: "'db sqlite_api \<Rightarrow> stmt \<Rightarrow> int \<Rightarrow> 'db \<Rightarrow> cell \<Rightarrow> bool" where
  "cell_at api st i r Cell_null \<longleftrightarrow>
     sq_column_text api st i r = None \<and> sq_column_int api st i r = 0 \<and> sq_column_int64 api st i r = 0"
| "cell_at api st i r (Cell_text s) \<longleftrightarrow> sq_column_text api st i r = Some s"
| "cell_at api st i r (Cell_int x) \<longleftrightarrow> sq_column_int api st i r = word_of_int x \<and> sq_column_int64 api st i r = word_of_int x"

definition row_at :: "'db sqlite_api \<Rightarrow> stmt \<Rightarrow> string list \<Rightarrow> (string \<Rightarrow> cell) \<Rightarrow> 'db \<Rightarrow> bool" where
  "row_at api st columns row r \<longleftrightarrow> (\<forall>i < length columns. cell_at api st (int i) r (row (columns ! i)))"

definition select_law :: "'db sqlite_api \<Rightarrow> 'db table_view \<Rightarrow> bool" where
  "select_law api v \<longleftrightarrow> (\<forall>db st table wh M.
     let xs = bound_operands v db st (length (where_columns wh)) in
     tv_ready v db st = Some (Sql_select [''*''] table wh) \<and> tv_rows v db table = Some M \<and>
     no_null M (where_columns wh) \<and> operands_fit v db (Sql_select [''*''] table wh) xs \<longrightarrow>
       (\<exists>rs code d. rows_then api st code d db rs \<and> code \<noteq> SQLITE_ROW \<and> length rs \<le> size M \<and> same_tables v db d \<and>
          (code = SQLITE_DONE \<longrightarrow> (\<exists>rows. mset rows = {#row \<in># M. where_selects wh xs row#} \<and>
             list_all2 (row_at api st (tv_columns v db table)) rows rs))))"

definition close_law :: "'db sqlite_api \<Rightarrow> 'db table_view \<Rightarrow> bool" where
  "close_law api v \<longleftrightarrow> (\<forall>st db. same_tables v db (sq_reset api st db) \<and>
     same_tables v db (sq_clear_bindings api st db) \<and> same_tables v db (sq_finalize api st db))"

definition keeps_tables :: "'db sqlite_api \<Rightarrow> 'db table_view \<Rightarrow> bool" where
  "keeps_tables api v \<longleftrightarrow> prepare_law api v \<and> bind_law api v \<and> step_law api v \<and>
     select_law api v \<and> close_law api v"

section \<open>Binding\<close>

lemma same_tables_refl: "same_tables v db db"
  by (simp add: same_tables_def)

lemma same_tables_trans: "same_tables v a b \<Longrightarrow> same_tables v b c \<Longrightarrow> same_tables v a c"
  by (simp add: same_tables_def)

lemma bind_value_binds:
  assumes "bind_law api v" and "bind_value api st i pv db = Some r"
  shows "binds v st i (stored pv) db r"
  using assms by (auto simp: bind_law_def bind_value_def split: param_value.splits yan_val.splits)

lemma bind_value_storable: "storable pv \<Longrightarrow> bind_value api st i pv db \<noteq> None"
  by (auto simp: bind_value_def split: param_value.splits yan_val.splits)

text \<open>
  After the operands of a request are bound, the statement has them in order; otherwise the library has refused
  one of them.
\<close>

definition bind_refused :: "'db sqlite_api \<Rightarrow> 'db table_view \<Rightarrow> stmt \<Rightarrow> int \<Rightarrow> bind_item list \<Rightarrow> 'db \<Rightarrow> 'db \<Rightarrow> bool" where
  "bind_refused api v st h items db db' \<longleftrightarrow> (\<exists>k < length items. \<exists>db1 code. same_tables v db db1 \<and> tv_ready v db1 = tv_ready v db \<and>
     bind_value api st (h + 1 + int k) (snd (snd (items ! k))) db1 = Some (code, db') \<and> code \<noteq> SQLITE_OK)"

lemma bind_refused_first:
  "bind_value api st (h + 1) pv db = Some (code, db') \<Longrightarrow> code \<noteq> SQLITE_OK \<Longrightarrow>
    bind_refused api v st h ((name, t, pv) # items) db db'"
  unfolding bind_refused_def using same_tables_refl by (intro exI [of _ "0 :: nat"] conjI exI [of _ db] exI [of _ code]) simp_all

lemma bind_refused_later:
  assumes "bind_refused api v st (h + 1) items db1 db'" and "same_tables v db db1" and "tv_ready v db1 = tv_ready v db"
  shows "bind_refused api v st h (item # items) db db'"
proof -
  from assms(1) obtain k db2 code where "k < length items" "same_tables v db1 db2" "tv_ready v db2 = tv_ready v db1"
    "bind_value api st (h + 1 + 1 + int k) (snd (snd (items ! k))) db2 = Some (code, db')" "code \<noteq> SQLITE_OK"
    unfolding bind_refused_def by blast
  with assms(2,3) show ?thesis
    unfolding bind_refused_def
    by (intro exI [of _ "Suc k"] conjI exI [of _ db2] exI [of _ code]) (auto simp: algebra_simps intro: same_tables_trans)
qed

lemma bind_seq_binds:
  assumes "bind_law api v" and "\<forall>(name, t, pv) \<in> set items. bindable t \<and> storable pv"
    and "bind_seq api st h items db = r"
  shows "case r of
    Inl (e, db') \<Rightarrow> same_tables v db db' \<and> exception_text e \<noteq> None \<and> bind_refused api v st h items db db'
  | Inr db' \<Rightarrow> same_tables v db db' \<and> tv_ready v db' = tv_ready v db \<and>
      (\<forall>i \<le> h. tv_operand v db' st i = tv_operand v db st i) \<and>
      (\<forall>k < length items. tv_operand v db' st (h + 1 + int k) = operand_values stored items ! k)"
  using assms(2,3)
proof (induction items arbitrary: h db)
  case Nil
  then show ?case by (auto simp: same_tables_refl)
next
  case (Cons item items)
  obtain name t pv where item: "item = (name, t, pv)" by (cases item)
  from Cons.prems(1) obtain code db1 where b: "bind_value api st (h + 1) pv db = Some (code, db1)"
    using bind_value_storable by (fastforce simp: item)
  from bind_value_binds [OF assms(1) b] have one: "same_tables v db db1" "tv_ready v db1 = tv_ready v db"
    "code = SQLITE_OK \<longrightarrow> tv_operand v db1 st = (tv_operand v db st)(h + 1 := stored pv)" by (simp_all add: binds_def)
  show ?case
  proof (cases "code = SQLITE_OK")
    case False
    with bind_refused_first [OF b] Cons.prems b one(1) show ?thesis by (auto simp: item bind_error_def)
  next
    case True
    with Cons.prems b have r: "bind_seq api st (h + 1) items db1 = r" by (simp add: item)
    have "\<forall>(name, t, pv) \<in> set items. bindable t \<and> storable pv" using Cons.prems(1) by simp
    note IH = Cons.IH [OF this r]
    show ?thesis
    proof (cases r)
      case (Inl p)
      with IH one bind_refused_later [of api v st h items db1 _ db item] show ?thesis
        by (auto simp: case_prod_unfold intro: same_tables_trans)
    next
      case (Inr db')
      have "tv_operand v db' st (h + 1 + int k) = operand_values stored (item # items) ! k" if "k < Suc (length items)" for k
        using IH one(3) True that Inr by (cases k) (auto simp: item operand_values_def algebra_simps)
      with IH one True Inr show ?thesis by (auto simp: same_tables_def)
    qed
  qed
qed

lemma bind_seq_operands:
  assumes "bind_law api v" and "\<forall>(name, t, pv) \<in> set items. bindable t \<and> storable pv"
    and "bind_seq api st 0 items db = Inr db'"
  shows "same_tables v db db'" and "tv_ready v db' = tv_ready v db"
    and "bound_operands v db' st (length items) = operand_values stored items"
proof -
  from bind_seq_binds [OF assms]
  have b: "same_tables v db db'" "tv_ready v db' = tv_ready v db"
    "\<forall>k < length items. tv_operand v db' st (1 + int k) = operand_values stored items ! k" by simp_all
  then show "same_tables v db db'" "tv_ready v db' = tv_ready v db" by simp_all
  show "bound_operands v db' st (length items) = operand_values stored items"
    by (rule nth_equalityI) (simp_all add: bound_operands_def operand_values_def b(3) [unfolded operand_values_def] add.commute)
qed

section \<open>A request on a connection\<close>

text \<open>
  A request that fits its table: its names are identifiers, and the operands have types that can be bound, those
  of their columns.
\<close>

definition request_fits :: "'db table_view \<Rightarrow> 'db \<Rightarrow> string \<Rightarrow> string list \<Rightarrow> bind_item list \<Rightarrow> bool" where
  "request_fits v db table columns items \<longleftrightarrow> tv_identifier v table \<and> list_all (tv_identifier v) columns \<and>
     list_all2 (\<lambda>column (name, t, pv). bindable t \<and> storable pv \<and>
       tv_text_column v db table column = Some (text_cell (stored pv))) columns items"

lemma request_fits_items:
  assumes "request_fits v db table columns items"
  shows "\<forall>(name, t, pv) \<in> set items. bindable t \<and> storable pv" and "length columns = length items"
    and "list_all2 (\<lambda>column x. tv_text_column v db table column = Some (text_cell x)) columns (operand_values stored items)"
  using assms
  by (auto simp: request_fits_def operand_values_def list_all2_conv_all_nth in_set_conv_nth split: prod.splits)

text \<open>
  The library refuses the request, in a state with the tables of \<open>db\<close>: preparing its text, binding one of its
  operands, or running the statement with its operands ends with an error code.
\<close>

definition refuses :: "'db sqlite_api \<Rightarrow> 'db table_view \<Rightarrow> 'db \<Rightarrow> string \<Rightarrow> bind_item list \<Rightarrow> bool" where
  "refuses api v db t items \<longleftrightarrow>
     (\<exists>code st db1 db2. same_tables v db db1 \<and> sq_prepare api (t @ '';'') db1 = ((code, st), db2) \<and> code \<noteq> SQLITE_OK) \<or>
     (\<exists>st db1 db2. same_tables v db db1 \<and> tv_ready v db1 st = read_stmt t \<and> bind_refused api v st 0 items db1 db2) \<or>
     (\<exists>st rs code db1 db2. same_tables v db db1 \<and> tv_ready v db1 st = read_stmt t \<and>
        bound_operands v db1 st (length items) = operand_values stored items \<and>
        rows_then api st code db2 db1 rs \<and> code \<notin> {SQLITE_ROW, SQLITE_DONE})"

text \<open>
  What a request ends with.  Either the library refuses it before a statement runs: an
  exception, with the tables as they were.  Or the statement ran with the operands of the request, and what its run
  left and answered is what the request leaves and answers, apart from the text of an exception.
\<close>

definition statement_ran ::
  "'db table_view \<Rightarrow> string \<Rightarrow> bind_item list \<Rightarrow> stmt \<Rightarrow> ('db, 'a) sq \<Rightarrow> 'db sq_state \<Rightarrow> 'db sq_state \<Rightarrow> 'db sq_state \<Rightarrow> error + 'a \<Rightarrow> bool" where
  "statement_ran v t items st m s u s' r \<longleftrightarrow> ss_world u = ss_world s \<and> same_tables v (ss_db s) (ss_db u) \<and>
     tv_ready v (ss_db u) st = read_stmt t \<and> bound_operands v (ss_db u) st (length items) = operand_values stored items \<and>
     (case m u of (u', r') \<Rightarrow> ss_world s' = ss_world u' \<and> same_tables v (ss_db u') (ss_db s') \<and>
        (case r' of Inr x \<Rightarrow> r = Inr x | Inl e \<Rightarrow> exception_text e \<noteq> None \<longrightarrow> (\<exists>e'. r = Inl (Runtime_error e'))))"

definition request_ends ::
  "'db sqlite_api \<Rightarrow> 'db table_view \<Rightarrow> string \<Rightarrow> bind_item list \<Rightarrow> (stmt \<Rightarrow> ('db, 'a) sq) \<Rightarrow> 'db sq_state \<Rightarrow> 'db sq_state \<Rightarrow>
   error + 'a \<Rightarrow> bool" where
  "request_ends api v t items exe s s' r \<longleftrightarrow>
     ss_world s' = ss_world s \<and> same_tables v (ss_db s) (ss_db s') \<and> (\<exists>e. r = Inl (Runtime_error e)) \<and>
       refuses api v (ss_db s) t items \<or>
     (\<exists>st u. statement_ran v t items st (exe st) s u s' r)"

lemma refuses_prepare:
  "sq_prepare api (t @ '';'') db = ((code, st), db2) \<Longrightarrow> code \<noteq> SQLITE_OK \<Longrightarrow> refuses api v db t items"
  unfolding refuses_def using same_tables_refl [of v db] by blast

lemma refuses_bind:
  "tv_ready v db st = read_stmt t \<Longrightarrow> bind_refused api v st 0 items db db2 \<Longrightarrow> refuses api v db t items"
  unfolding refuses_def using same_tables_refl [of v db] by blast

lemma refuses_same: "same_tables v db db' \<Longrightarrow> refuses api v db' t items \<Longrightarrow> refuses api v db t items"
  by (simp add: refuses_def same_tables_def)

lemma request_ends_same:
  assumes "same_tables v (ss_db s) (ss_db s1)" and "ss_world s1 = ss_world s" and "request_ends api v t items exe s1 s' r"
  shows "request_ends api v t items exe s s' r"
proof -
  have same: "same_tables v (ss_db s1) db \<Longrightarrow> same_tables v (ss_db s) db" for db
    using assms(1) by (rule same_tables_trans)
  have "\<forall>st u. statement_ran v t items st (exe st) s1 u s' r \<longrightarrow> statement_ran v t items st (exe st) s u s' r"
    using same assms(2) by (simp add: statement_ran_def)
  with assms(3) same [of "ss_db s'"] refuses_same [OF assms(1), of api t items] assms(2) show ?thesis
    unfolding request_ends_def by auto
qed

lemma drop_stmt_tables:
  assumes "close_law api v" and "drop_stmt api key st e s = (s', r)"
  shows "ss_world s' = ss_world s" and "same_tables v (ss_db s) (ss_db s')"
    and "exception_text e \<noteq> None \<Longrightarrow> \<exists>e'. r = Inl (Runtime_error e')"
  using assms by (auto simp: drop_stmt_def close_law_def same_tables_refl split: option.splits)

lemma run_stmt_ends:
  assumes laws: "bind_law api v" "close_law api v" and ready: "tv_ready v (ss_db s) st = read_stmt t"
    and items: "\<forall>(name, t, pv) \<in> set items. bindable t \<and> storable pv"
    and bnd: "map_sum (\<lambda>e. e) bc_db (bnd (ss_world s) \<lparr>bc_stmt = st, bc_index = 0, bc_db = ss_db s\<rparr>) =
      bind_seq api st 0 items (ss_db s)"
    and run: "run_stmt api key st bnd exe s = (s', r)"
  shows "request_ends api v t items exe s s' r"
proof (cases "bind_seq api st 0 items (ss_db s)")
  case (Inl p)
  obtain e db where p: "p = (e, db)" by (cases p)
  from Inl p bnd have "bnd (ss_world s) \<lparr>bc_stmt = st, bc_index = 0, bc_db = ss_db s\<rparr> = Inl (e, db)"
    by (cases "bnd (ss_world s) \<lparr>bc_stmt = st, bc_index = 0, bc_db = ss_db s\<rparr>") simp_all
  with run have d: "drop_stmt api key st e (s\<lparr>ss_db := db\<rparr>) = (s', r)" by (simp add: run_stmt_def)
  from bind_seq_binds [OF laws(1) items Inl [unfolded p]] have e: "exception_text e \<noteq> None" "same_tables v (ss_db s) db"
    and refused: "bind_refused api v st 0 items (ss_db s) db" by simp_all
  from ready refused have "refuses api v (ss_db s) t items" by (rule refuses_bind)
  moreover have "ss_world s' = ss_world s" "same_tables v db (ss_db s')" "\<exists>e'. r = Inl (Runtime_error e')"
    using drop_stmt_tables [OF laws(2) d] e(1) by simp_all
  moreover from this(2) have "same_tables v (ss_db s) (ss_db s')" by (rule same_tables_trans [OF e(2)])
  ultimately show ?thesis by (simp add: request_ends_def)
next
  case (Inr db)
  then obtain ctx where ctx: "bnd (ss_world s) \<lparr>bc_stmt = st, bc_index = 0, bc_db = ss_db s\<rparr> = Inr ctx" "bc_db ctx = db"
    using bnd by (cases "bnd (ss_world s) \<lparr>bc_stmt = st, bc_index = 0, bc_db = ss_db s\<rparr>") simp_all
  let ?t = "s\<lparr>ss_db := db\<rparr>"
  obtain t' r' where exe: "exe st ?t = (t', r')" by force
  have "ss_world s' = ss_world t' \<and> same_tables v (ss_db t') (ss_db s') \<and>
      (case r' of Inr x \<Rightarrow> r = Inr x | Inl e \<Rightarrow> exception_text e \<noteq> None \<longrightarrow> (\<exists>e'. r = Inl (Runtime_error e')))"
  proof (cases r')
    case (Inl e)
    then have "drop_stmt api key st e t' = (s', r)" using run ctx exe by (simp add: run_stmt_def)
    from drop_stmt_tables [OF laws(2) this] Inl show ?thesis by simp
  next
    case (Inr x)
    then have "s' = t'\<lparr>ss_db := sq_clear_bindings api st (sq_reset api st (ss_db t'))\<rparr>" "r = Inr x"
      using run ctx exe by (simp_all add: run_stmt_def)
    with laws(2) Inr show ?thesis by (simp add: close_law_def same_tables_def)
  qed
  then have "statement_ran v t items st (exe st) s ?t s' r"
    using bind_seq_operands [OF laws(1) items Inr] ready exe by (simp add: statement_ran_def)
  then show ?thesis unfolding request_ends_def by blast
qed

text \<open>The statement is taken from the cache or prepared.\<close>

lemma execute_ends:
  assumes laws: "keeps_tables api v"
    and cached: "\<And>st. ss_stmts s key = Some st \<Longrightarrow> tv_ready v (ss_db s) st = read_stmt t"
    and made: "mk (ss_world s) = (ss_world s, Inr t)" "read_stmt t = Some stmt" "preparable v stmt" "CHR 0x00 \<notin> set t"
    and items: "\<forall>(name, t, pv) \<in> set items. bindable t \<and> storable pv"
    and bnd: "\<And>st db. map_sum (\<lambda>e. e) bc_db (bnd (ss_world s) \<lparr>bc_stmt = st, bc_index = 0, bc_db = db\<rparr>) = bind_seq api st 0 items db"
    and run: "execute api kf key mk bnd exe s = (s', r)"
  shows "request_ends api v t items exe s s' r"
proof -
  have laws': "prepare_law api v" "bind_law api v" "close_law api v" using laws by (simp_all add: keeps_tables_def)
  show ?thesis
  proof (cases "ss_stmts s key")
    case (Some st)
    with run have "run_stmt api key st bnd exe s = (s', r)" by (simp add: execute_cached)
    from run_stmt_ends [where bnd = bnd and exe = exe, OF laws'(2,3) cached [OF Some] items bnd this] show ?thesis .
  next
    case None
    have c_str: "c_str (t @ '';'') = t @ '';''" using made(4) by (auto simp: c_str_def takeWhile_eq_all_conv)
    obtain code st db where p: "sq_prepare api (t @ '';'') (ss_db s) = ((code, st), db)" by (metis prod.collapse)
    with laws'(1) made(2,3) have db: "same_tables v (ss_db s) db" "code = SQLITE_OK \<Longrightarrow> tv_ready v db st = read_stmt t"
      unfolding prepare_law_def by metis+
    show ?thesis
    proof (cases "code = SQLITE_OK")
      case False
      with None run made c_str p have "ss_world s' = ss_world s" "ss_db s' = db"
        "r = Inl (errmsg api db ''sqlite create prepared statement failed'' code)"
        by (auto simp: execute_def create_stmt_def bindS_apply in_world_def split: if_splits)
      moreover have "refuses api v (ss_db s) t items" by (rule refuses_prepare [OF p False])
      ultimately show ?thesis using db(1) by (simp add: request_ends_def errmsg_def)
    next
      case True
      let ?s = "s\<lparr>ss_db := db, ss_stmts := (ss_stmts s)(key \<mapsto> st)\<rparr>"
      from True None run made c_str p have run: "run_stmt api key st bnd exe ?s = (s', r)"
        by (auto simp: execute_def create_stmt_def bindS_apply in_world_def)
      have "tv_ready v (ss_db ?s) st = read_stmt t"
        "map_sum (\<lambda>e. e) bc_db (bnd (ss_world ?s) \<lparr>bc_stmt = st, bc_index = 0, bc_db = ss_db ?s\<rparr>) =
          bind_seq api st 0 items (ss_db ?s)" using db(2) [OF True] bnd by simp_all
      from run_stmt_ends [where bnd = bnd and exe = exe, OF laws'(2,3) this(1) items this(2) run]
      have "request_ends api v t items exe ?s s' r" .
      with request_ends_same [of v s ?s] db(1) show ?thesis by simp
    qed
  qed
qed

section \<open>A change on a connection\<close>

text \<open>
  What a change may end with: either it is made, and its caller makes a value of \<open>SQLITE_DONE\<close>; or the library
  refuses it and no table has changed, with an exception or with the value that the caller makes of another code.
\<close>

lemma change_ends:
  assumes "request_ends api v t items exe s s' r" and laws: "keeps_tables api v"
    and stmt: "read_stmt t = Some stmt" "is_change stmt" "length (sql_columns stmt) = length items"
    and M: "tv_rows v (ss_db s) (sql_table stmt) = Some (mset rows)" and nulls: "no_null (mset rows) (compared stmt)"
    and fit: "operands_fit v (ss_db s) stmt (operand_values stored items)"
    and exe: "\<forall>st s code d. sq_step api st (ss_db s) = (code, d) \<longrightarrow> code \<noteq> SQLITE_ROW \<longrightarrow> exe st s = (s\<lparr>ss_db := d\<rparr>, f code d)"
    and f: "\<forall>d. \<exists>x. f SQLITE_DONE d = Inr x" "\<forall>code d e. f code d = Inl e \<longrightarrow> exception_text e \<noteq> None"
  shows "ss_world s' = ss_world s \<and>
    ((\<exists>d x. f SQLITE_DONE d = Inr x \<and> r = Inr x \<and>
        tv_rows v (ss_db s') = (tv_rows v (ss_db s))(sql_table stmt \<mapsto> mset (sql_effect stmt (operand_values stored items) rows))) \<or>
     refuses api v (ss_db s) t items \<and> tv_rows v (ss_db s') = tv_rows v (ss_db s) \<and>
       ((\<exists>e. r = Inl (Runtime_error e)) \<or> (\<exists>code d x. code \<noteq> SQLITE_DONE \<and> f code d = Inr x \<and> r = Inr x)))"
proof -
  let ?xs = "operand_values stored items"
  let ?rows' = "\<lambda>code. if code = SQLITE_DONE then (tv_rows v (ss_db s))(sql_table stmt \<mapsto> mset (sql_effect stmt ?xs rows))
    else tv_rows v (ss_db s)"
  from assms(1) consider "ss_world s' = ss_world s" "same_tables v (ss_db s) (ss_db s')" "\<exists>e. r = Inl (Runtime_error e)"
      "refuses api v (ss_db s) t items"
    | st u where "statement_ran v t items st (exe st) s u s' r"
    unfolding request_ends_def by blast
  then show ?thesis
  proof cases
    case 1
    then show ?thesis by (simp add: same_tables_def)
  next
    case 2
    note ran = this [unfolded statement_ran_def]
    obtain code d where step: "sq_step api st (ss_db u) = (code, d)" by force
    have at: "tv_rows v (ss_db u) (sql_table stmt) = Some (mset rows)" "operands_fit v (ss_db u) stmt ?xs"
      using ran M fit by (simp_all add: same_tables_def operands_fit_def)
    from laws have "step_law api v" by (simp add: keeps_tables_def)
    from this [unfolded step_law_def Let_def, rule_format, of "ss_db u" st stmt rows code d] ran at stmt nulls step
    have d: "code \<noteq> SQLITE_ROW" "tv_rows v d = ?rows' code" by (simp_all add: same_tables_def)
    have e: "exe st u = (u\<lparr>ss_db := d\<rparr>, f code d)" using exe step d(1) by blast
    with ran d(2) have left: "ss_world s' = ss_world s" "tv_rows v (ss_db s') = ?rows' code"
      "case f code d of Inr x \<Rightarrow> r = Inr x | Inl e \<Rightarrow> exception_text e \<noteq> None \<longrightarrow> (\<exists>e'. r = Inl (Runtime_error e'))"
      by (simp_all add: same_tables_def)
    show ?thesis
    proof (cases "code = SQLITE_DONE")
      case True
      with f(1) obtain x where "f SQLITE_DONE d = Inr x" by blast
      with True left show ?thesis by auto
    next
      case False
      have "rows_then api st code d (ss_db u) []" using step by simp
      with ran False d(1) have "refuses api v (ss_db s) t items" unfolding refuses_def by blast
      moreover have "(\<exists>e. r = Inl (Runtime_error e)) \<or> (\<exists>code d x. code \<noteq> SQLITE_DONE \<and> f code d = Inr x \<and> r = Inr x)"
        using left(3) f(2) False by (cases "f code d") auto
      ultimately show ?thesis using left False by simp
    qed
  qed
qed

section \<open>A delete, from the user's call to the tables\<close>

lemma bind_read_seq:
  assumes "plain_request w rc c"
  shows "map_sum (\<lambda>e. e) bc_db (bind_read api w \<lparr>bc_stmt = st, bc_index = 0, bc_db = db\<rparr> rc) = bind_seq api st 0 (cond_operands w rc) db"
proof (cases "has_cond rc")
  case False
  then show ?thesis by (simp add: bind_read_def cond_operands_def)
next
  case True
  with assms obtain ps where "conds_of w rc c ps" "ps \<noteq> []" by (auto simp: plain_request_def)
  from bind_read_run [OF this, of "\<lparr>bc_stmt = st, bc_index = 0, bc_db = db\<rparr>" api] show ?thesis
    by (auto simp: bound_def split: sum.split)
qed

lemma ctx_del_ends:
  assumes laws: "keeps_tables api v" and req: "plain_request w rc c" "table = class_name w c" and w: "w = ss_world s"
    and M: "tv_rows v (ss_db s) table = Some M" "no_null M (cond_columns w rc)"
    and fits: "request_fits v (ss_db s) table (cond_columns w rc) (cond_operands w rc)"
    and nul: "CHR 0x00 \<notin> set (delete_text w rc)"
    and cached: "\<And>st. ss_stmts s (rc_hash_value w rc @ ''D'') = Some st \<Longrightarrow> tv_ready v (ss_db s) st = read_stmt (delete_text w rc)"
    and "fuel \<noteq> 0" and run: "ctx_del fuel api kf rc s = (s', r)"
  shows "r = Inr 0 \<and> tv_rows v (ss_db s') = (tv_rows v (ss_db s))(table \<mapsto> {#row \<in># M. \<not> request_matches w rc stored row#}) \<or>
    refuses api v (ss_db s) (delete_text w rc) (cond_operands w rc) \<and> tv_rows v (ss_db s') = tv_rows v (ss_db s) \<and>
      (\<exists>e. r = Inl (Runtime_error e))"
proof -
  let ?f = "\<lambda>code d. if code = SQLITE_DONE then Inr (0 :: 64 word) else Inl (errmsg api d ''sqlite update/delete value failed'' code)"
  have c: "rc_cys rc = Some c" using req(1) by (simp add: plain_request_def)
  then have text_of: "delete_text w rc = ''DELETE FROM '' @ table @ where_clause w rc" by (simp add: delete_text_def table_of_def req(2))
  obtain wh where wh: "read_stmt (delete_text w rc) = Some (Sql_delete table wh)"
    "sql_columns (Sql_delete table wh) = cond_columns w rc" "sql_operators (Sql_delete table wh) \<subseteq> comparison_words"
    "\<And>(val :: param_value \<Rightarrow> cell) rows. sql_effect (Sql_delete table wh) (operand_values val (cond_operands w rc)) rows =
      filter (\<lambda>row. \<not> request_matches w rc val row) rows"
    unfolding text_of req(2) by (rule delete_effect [where 'v = cell, OF req(1)]) blast
  let ?stmt = "Sql_delete table wh" and ?items = "cond_operands w rc"
  note items = request_fits_items [OF fits]
  have named: "preparable v ?stmt" using fits wh(2,3) by (simp add: preparable_def request_fits_def del: sql_columns.simps sql_operators.simps)
  have fit: "operands_fit v (ss_db s) ?stmt (operand_values stored ?items)"
    using items(3) by (simp add: operands_fit_def wh(2) del: sql_columns.simps)
  have made: "(\<lambda>w. (w, delete_make w rc)) (ss_world s) = (ss_world s, Inr (delete_text w rc))"
    using delete_make_text [OF c plain_request_conds [OF req(1)]] by (simp add: w [symmetric] text_of req(2))
  have exe: "\<forall>st t code d. sq_step api st (ss_db t) = (code, d) \<longrightarrow> code \<noteq> SQLITE_ROW \<longrightarrow>
      exec_entity fuel api st 0 t = (t\<lparr>ss_db := d\<rparr>, ?f code d)"
    using exec_entity_run [of api _ _ _ _ "[]" fuel 0] assms(10) by simp
  have f: "\<forall>d. \<exists>x. ?f SQLITE_DONE d = Inr x" "\<forall>code d e. ?f code d = Inl e \<longrightarrow> exception_text e \<noteq> None"
    by (auto simp: errmsg_def split: if_splits)
  obtain rows where rows: "M = mset rows" using ex_mset by metis
  have shape: "is_change ?stmt" "length (sql_columns ?stmt) = length ?items" "tv_rows v (ss_db s) (sql_table ?stmt) = Some (mset rows)"
    "no_null (mset rows) (compared ?stmt)"
    using M items(2) wh(2) by (simp_all add: rows)
  have bnd: "map_sum (\<lambda>e. e) bc_db (bind_read api (ss_world s) \<lparr>bc_stmt = st, bc_index = 0, bc_db = db\<rparr> rc) = bind_seq api st 0 ?items db"
    for st db using bind_read_seq [OF req(1)] by (simp add: w)
  have run: "execute api kf (rc_hash_value w rc @ ''D'') (\<lambda>w. (w, delete_make w rc)) (\<lambda>w ctx. bind_read api w ctx rc)
      (\<lambda>st. exec_entity fuel api st 0) s = (s', r)"
    using run by (simp add: ctx_del_def w)
  note ends = execute_ends [where bnd = "\<lambda>w ctx. bind_read api w ctx rc" and exe = "\<lambda>st. exec_entity fuel api st 0",
      OF laws cached made wh(1) named nul items(1) bnd run]
  from change_ends [where f = ?f and exe = "\<lambda>st. exec_entity fuel api st 0", OF ends laws wh(1) shape fit exe f]
  show ?thesis unfolding wh(4) rows by (auto split: if_splits)
qed


section \<open>An update, from the user's call to the tables\<close>

lemma ctx_update_ends:
  assumes laws: "keeps_tables api v" and ok: "update_request_ok w uc p ob" "ob_seqset ob \<noteq> []"
    and req: "plain_request w rc (ob_class ob)" "rc = read_cond.truncate uc" "table = class_name w (ob_class ob)" and w: "w = ss_world s"
    and M: "tv_rows v (ss_db s) table = Some M" "no_null M (cond_columns w rc)"
    and fits: "request_fits v (ss_db s) table (map fst (row_of w p) @ cond_columns w rc) (map row_bind_item (row_of w p) @ cond_operands w rc)"
    and names: "\<forall>i \<in> set (row_of w p). is_word (fst i)"
    and nul: "CHR 0x00 \<notin> set (update_text table (row_of w p) @ where_clause w rc)"
    and key: "uc_hash_value w uc = Inr hash"
    and cached: "\<And>st. ss_stmts s (hash @ ''U'') = Some st \<Longrightarrow>
      tv_ready v (ss_db s) st = read_stmt (update_text table (row_of w p) @ where_clause w rc)"
    and run: "ctx_update api kf raw_size uc s = (s', r)"
  shows "ss_world s' = w \<and>
    (r = Inr () \<and> tv_rows v (ss_db s') =
       (tv_rows v (ss_db s))(table \<mapsto> {#if request_matches w rc stored row then assigns w p stored row else row. row \<in># M#}) \<or>
     refuses api v (ss_db s) (update_text table (row_of w p) @ where_clause w rc) (map row_bind_item (row_of w p) @ cond_operands w rc) \<and>
       tv_rows v (ss_db s') = tv_rows v (ss_db s) \<and> (r = Inr () \<or> (\<exists>e. r = Inl (Runtime_error e))))"
proof -
  let ?row = "row_of w p" and ?f = "\<lambda>(code :: int) (d :: 'a). Inr () :: error + unit"
  have ne: "?row \<noteq> []" using ok by (simp add: update_request_ok_def row_of_def)
  obtain wh where wh: "read_stmt (update_text table ?row @ where_clause w rc) = Some (Sql_update table (map fst ?row) wh)"
    "sql_columns (Sql_update table (map fst ?row) wh) = map fst ?row @ cond_columns w rc"
    "sql_operators (Sql_update table (map fst ?row) wh) \<subseteq> comparison_words"
    "\<And>(val :: param_value \<Rightarrow> cell) rows. sql_effect (Sql_update table (map fst ?row) wh)
      (operand_values val (map row_bind_item ?row @ cond_operands w rc)) rows =
      map (\<lambda>row. if request_matches w rc val row then assigns w p val row else row) rows"
    unfolding req(3) by (rule update_effect [where 'v = cell, OF req(1) ne names]) blast
  let ?stmt = "Sql_update table (map fst ?row) wh" and ?items = "map row_bind_item ?row @ cond_operands w rc"
  note items = request_fits_items [OF fits]
  have named: "preparable v ?stmt" using fits wh(2,3) by (simp add: preparable_def request_fits_def del: sql_columns.simps sql_operators.simps)
  have fit: "operands_fit v (ss_db s) ?stmt (operand_values stored ?items)"
    using items(3) by (simp add: operands_fit_def wh(2) del: sql_columns.simps)
  have made: "(\<lambda>w. (w, update_make raw_size w uc)) (ss_world s) = (ss_world s, Inr (update_text table ?row @ where_clause w rc))"
    using update_make_text_run [OF ok(1)] ok(2) by (simp add: w [symmetric] req(2,3))
  have bnd: "map_sum (\<lambda>e. e) bc_db (bind_update api raw_size (ss_world s) \<lparr>bc_stmt = st, bc_index = 0, bc_db = db\<rparr> uc) =
      bind_seq api st 0 ?items db" for st db
    using bind_update_run [OF ok, of "\<lparr>bc_stmt = st, bc_index = 0, bc_db = db\<rparr>" api raw_size]
    by (simp add: w [symmetric] req(2) bound_def Let_def split: sum.split)
  have exe: "\<forall>st t code d. sq_step api st (ss_db t) = (code, d) \<longrightarrow> code \<noteq> SQLITE_ROW \<longrightarrow>
      bindS (step_stmt api st) (\<lambda>_. returnS ()) t = (t\<lparr>ss_db := d\<rparr>, ?f code d)"
    by (simp add: bindS_apply step_stmt_run)
  have f: "\<forall>d. \<exists>x. ?f SQLITE_DONE d = Inr x" "\<forall>code d e. ?f code d = Inl e \<longrightarrow> exception_text e \<noteq> None" by simp_all
  obtain rows where rows: "M = mset rows" using ex_mset by metis
  have shape: "is_change ?stmt" "length (sql_columns ?stmt) = length ?items" "tv_rows v (ss_db s) (sql_table ?stmt) = Some (mset rows)"
    "no_null (mset rows) (compared ?stmt)"
    using M items(2) wh(2) by (simp_all add: rows)
  have run: "execute api kf (hash @ ''U'') (\<lambda>w. (w, update_make raw_size w uc)) (\<lambda>w ctx. bind_update api raw_size w ctx uc)
      (\<lambda>st. bindS (step_stmt api st) (\<lambda>_. returnS ())) s = (s', r)"
    using run key by (simp add: ctx_update_def w [symmetric])
  note ends = execute_ends [where bnd = "\<lambda>w ctx. bind_update api raw_size w ctx uc" and exe = "\<lambda>st. bindS (step_stmt api st) (\<lambda>_. returnS ())",
      OF laws cached made wh(1) named nul items(1) bnd run]
  from change_ends [where f = ?f and exe = "\<lambda>st. bindS (step_stmt api st) (\<lambda>_. returnS ())", OF ends laws wh(1) shape fit exe f]
  show ?thesis unfolding wh(4) rows w [symmetric] by auto
qed

lemma same_request:
  assumes "w_reg w' = w_reg w" and "w_plists w' = w_plists w"
  shows "cond_columns w' rc = cond_columns w rc" and "request_matches w' rc = request_matches w rc"
    and "plain_request w' rc c = plain_request w rc c"
proof -
  have p: "params_of w' rc = params_of w rc" "rc_param_list w' rc = rc_param_list w rc"
    using assms(2) by (simp_all add: params_of_def rc_param_list_def cong: option.case_cong)
  note r = same_registry(1,2) [OF assms(1)]
  show "cond_columns w' rc = cond_columns w rc" by (simp add: cond_columns_def p r)
  show "request_matches w' rc = request_matches w rc" by (intro ext) (simp add: request_matches_def p r)
  show "plain_request w' rc c = plain_request w rc c"
    using assms(1) by (simp add: plain_request_def conds_of_def p r)
qed


end
