(* ===== verification/Yan_Table_Read.thy ===== *)
theory Yan_Table_Read
  imports Yan_Table
begin

text \<open>
  A read and the table it is about: the objects that the user's future holds are the rows of the table that match
  the conditions, one object for each.  The laws of the library are those of \<open>Yan_Table\<close>.
\<close>

section \<open>Rows as objects\<close>

text \<open>The value that a member of the given type takes from a cell; a NULL is 0 for an integer, and nothing for a string.\<close>

fun cell_value :: "ctype \<Rightarrow> cell \<Rightarrow> yan_val option" where
  "cell_value C_string (Cell_text s) = Some (V_string (c_str s))"
| "cell_value C_int32 (Cell_int x) = Some (V_int32 (word_of_int x))"
| "cell_value C_int64 (Cell_int x) = Some (V_int64 (word_of_int x))"
| "cell_value C_int32 Cell_null = Some (V_int32 0)"
| "cell_value C_int64 Cell_null = Some (V_int64 0)"
| "cell_value _ _ = None"

text \<open>An object that the user has not assigned to, with the cells of a row in its members.\<close>

definition shows_row :: "class_decl \<Rightarrow> string list \<Rightarrow> (string \<Rightarrow> cell) \<Rightarrow> yan_obj \<Rightarrow> bool" where
  "shows_row c columns row ob \<longleftrightarrow> ob_class ob = c \<and> ob_seqset ob = [] \<and> ob_conds ob = None \<and>
     (\<forall>i < length (cd_members c). \<exists>m.
        ob_mems ob (member_decl_name (cd_members c ! i)) = Some (MO_value m) \<and>
        (case cell_value (decl_ctype (cd_members c ! i)) (row (columns ! i)) of
           None \<Rightarrow> \<not> vm_flag m
         | Some x \<Rightarrow> vm_flag m \<and> vm_value m = Some x))"

text \<open>A table of the class: a column for each member, in the order of the members and of its type.\<close>

definition table_of_class :: "class_decl \<Rightarrow> string list \<Rightarrow> (string \<Rightarrow> cell) multiset \<Rightarrow> bool" where
  "table_of_class c columns M \<longleftrightarrow> length columns = length (cd_members c) \<and>
     (\<forall>row \<in># M. \<forall>i < length columns.
        row (columns ! i) = Cell_null \<or> (text_cell (row (columns ! i)) \<longleftrightarrow> decl_ctype (cd_members c ! i) = C_string))"

lemma column_value_cell:
  assumes "cell_at api st i r x" and "t \<in> {C_string, C_int32, C_int64}" and "x = Cell_null \<or> (text_cell x \<longleftrightarrow> t = C_string)"
  shows "column_value api st r t i = cell_value t x"
  using assms by (cases x) auto

lemma holds_row_shows:
  assumes "holds_row api st c r ob" and "row_at api st columns row r" and "list_all fetchable (cd_members c)"
    and "table_of_class c columns M" and "row \<in># M"
  shows "shows_row c columns row ob"
  unfolding shows_row_def
proof (intro conjI allI impI)
  fix i
  assume i: "i < length (cd_members c)"
  let ?d = "cd_members c ! i"
  from assms(3) i have "fetchable ?d" by (simp add: list_all_length)
  then have t: "decl_ctype ?d \<in> {C_string, C_int32, C_int64}"
    by (cases ?d) (auto simp: fetchable_def)
  have "i < length columns" using assms(4) i by (simp add: table_of_class_def)
  with assms(2,4,5) have "cell_at api st (int i) r (row (columns ! i))"
    "row (columns ! i) = Cell_null \<or> (text_cell (row (columns ! i)) \<longleftrightarrow> decl_ctype ?d = C_string)"
    by (auto simp: row_at_def table_of_class_def)
  note shown = column_value_cell [OF this(1) t this(2)]
  show "\<exists>m. ob_mems ob (member_decl_name ?d) = Some (MO_value m) \<and>
      (case cell_value (decl_ctype ?d) (row (columns ! i)) of None \<Rightarrow> \<not> vm_flag m | Some x \<Rightarrow> vm_flag m \<and> vm_value m = Some x)"
    using assms(1) i unfolding holds_row_def shown [symmetric] by blast
qed (use assms(1) in \<open>simp_all add: holds_row_def\<close>)

section \<open>A read on a connection\<close>

text \<open>The result of a read: new objects, one for each matching row.\<close>

definition shows_matches ::
  "class_decl \<Rightarrow> string list \<Rightarrow> (string \<Rightarrow> cell) multiset \<Rightarrow> ((string \<Rightarrow> cell) \<Rightarrow> bool) \<Rightarrow> world \<Rightarrow> world \<Rightarrow> addr list \<Rightarrow> bool" where
  "shows_matches c columns M P w w' qs \<longleftrightarrow> (\<exists>rows. mset rows = {#row \<in># M. P row#} \<and>
     list_all2 (\<lambda>row q. w_next w \<le> q \<and> (\<exists>ob. w_objs w' q = Some ob \<and> shows_row c columns row ob)) rows qs)"

lemma shows_matches_rows:
  assumes "adds_rows api st c rs w w' qs" and "list_all2 (row_at api st columns) rows rs" and "mset rows = {#row \<in># M. P row#}"
    and "list_all fetchable (cd_members c)" and "table_of_class c columns M"
  shows "shows_matches c columns M P w w' qs"
proof -
  from assms(1) have qs: "list_all2 (\<lambda>r q. \<exists>ob. w_objs w' q = Some ob \<and> holds_row api st c r ob) rs qs"
    "\<forall>q \<in> set qs. w_next w \<le> q" by (auto simp: adds_rows_def)
  have len: "length rows = length rs" "length rs = length qs" using assms(2) qs(1) by (auto dest: list_all2_lengthD)
  have "w_next w \<le> qs ! i \<and> (\<exists>ob. w_objs w' (qs ! i) = Some ob \<and> shows_row c columns (rows ! i) ob)" if "i < length rows" for i
  proof -
    from that assms(2) have "row_at api st columns (rows ! i) (rs ! i)" by (simp add: list_all2_nthD)
    moreover from list_all2_nthD [OF qs(1), of i] that len obtain ob where
      "w_objs w' (qs ! i) = Some ob" "holds_row api st c (rs ! i) ob" by auto
    moreover have "rows ! i \<in># M"
    proof -
      have "rows ! i \<in># mset rows" using that by simp
      then show ?thesis unfolding assms(3) by simp
    qed
    ultimately show ?thesis using holds_row_shows [OF _ _ assms(4,5)] qs(2) that len by auto
  qed
  then show ?thesis unfolding shows_matches_def using assms(3) len by (intro exI [of _ rows]) (simp add: list_all2_conv_all_nth)
qed

lemma ctx_read_ends:
  assumes laws: "keeps_tables api v" and req: "plain_request w rc c" "rc_ret rc = Ret_class c" "read_request_ok w rc"
    and table: "table = class_name w c" and w: "w = ss_world s" and c: "row_class c w"
    and M: "tv_rows v (ss_db s) table = Some M" "table_of_class c (tv_columns v (ss_db s) table) M" "no_null M (cond_columns w rc)"
    and fits: "request_fits v (ss_db s) table (cond_columns w rc) (cond_operands w rc)"
    and nul: "CHR 0x00 \<notin> set (select_text w rc)"
    and cached: "\<And>st. ss_stmts s (rc_hash_value w rc) = Some st \<Longrightarrow> tv_ready v (ss_db s) st = read_stmt (select_text w rc)"
    and fuel: "size M < fuel" and run: "ctx_read fuel api kf (R_objs c []) rc s = (s', r)"
  shows "same_tables v (ss_db s) (ss_db s') \<and>
    ((\<exists>qs. r = Inr (R_objs c qs) \<and>
        shows_matches c (tv_columns v (ss_db s) table) M (request_matches w rc stored) w (ss_world s') qs) \<or>
     refuses api v (ss_db s) (select_text w rc) (cond_operands w rc) \<and> (\<exists>e. r = Inl (Runtime_error e)))"
proof -
  have star: "ret_columns_text w rc = ''*''" using req(1,2) by (simp add: ret_columns_text_def plain_request_def)
  have words: "sql_words (ret_columns_text w rc) = [''*'']"
    unfolding star using sql_words_word(2) [of "''*''"] by (simp add: is_word_def blank_def)
  obtain wh where wh: "read_stmt (select_text w rc) = Some (Sql_select [''*''] table wh)"
    "sql_columns (Sql_select [''*''] table wh) = cond_columns w rc" "sql_operators (Sql_select [''*''] table wh) \<subseteq> comparison_words"
    "\<And>(val :: param_value \<Rightarrow> cell) rows. sql_effect (Sql_select [''*''] table wh) (operand_values val (cond_operands w rc)) rows =
      filter (request_matches w rc val) rows"
    unfolding table by (rule select_effect [where 'v = cell and cs = "[''*'']", OF req(1)]) (simp_all add: words)
  let ?stmt = "Sql_select [''*''] table wh" and ?items = "cond_operands w rc" and ?exe = "\<lambda>st. exec fuel api st (R_objs c [])"
  let ?xs = "operand_values stored ?items" and ?columns = "tv_columns v (ss_db s) table"
  note items = request_fits_items [OF fits]
  have named: "preparable v ?stmt" using fits wh(2,3) by (simp add: preparable_def request_fits_def)
  have fit: "operands_fit v (ss_db s) ?stmt ?xs"
    using items(3) by (simp add: operands_fit_def wh(2) del: sql_columns.simps)
  have made: "query_text (query_make rc) (ss_world s) = (ss_world s, Inr (select_text w rc))"
    using query_text_run [OF req(3)] by (simp add: w)
  have bnd: "map_sum (\<lambda>e. e) bc_db (bind_read api (ss_world s) \<lparr>bc_stmt = st, bc_index = 0, bc_db = db\<rparr> rc) = bind_seq api st 0 ?items db"
    for st db using bind_read_seq [OF req(1)] by (simp add: w)
  have run: "execute api kf (rc_hash_value w rc) (query_text (query_make rc)) (\<lambda>w ctx. bind_read api w ctx rc) ?exe s = (s', r)"
    using run by (simp add: ctx_read_def w)
  have "request_ends api v (select_text w rc) ?items ?exe s s' r"
    by (rule execute_ends [where bnd = "\<lambda>w ctx. bind_read api w ctx rc" and exe = ?exe,
        OF laws cached made wh(1) named nul items(1) bnd run])
  then consider "same_tables v (ss_db s) (ss_db s')" "\<exists>e. r = Inl (Runtime_error e)" "refuses api v (ss_db s) (select_text w rc) ?items"
    | st t where "statement_ran v (select_text w rc) ?items st (?exe st) s t s' r"
    unfolding request_ends_def by blast
  then show ?thesis
  proof cases
    case 1
    then show ?thesis by blast
  next
    case 2
    obtain t' r' where exe: "?exe st t = (t', r')" by force
    note ran = 2 [unfolded statement_ran_def exe prod.case]
    have cols: "length (where_columns wh) = length ?items" using items(2) wh(2) by simp
    have there: "tv_rows v (ss_db t) table = Some M" "operands_fit v (ss_db t) ?stmt ?xs" "tv_columns v (ss_db t) table = ?columns"
      "no_null M (where_columns wh)"
      using ran M fit wh(2) by (simp_all add: same_tables_def operands_fit_def)
    from laws have "select_law api v" by (simp add: keeps_tables_def)
    from this [unfolded select_law_def Let_def, rule_format, of "ss_db t" st table wh M] ran there obtain rs code d where
      rs: "rows_then api st code d (ss_db t) rs" "code \<noteq> SQLITE_ROW" "length rs \<le> size M" "same_tables v (ss_db t) d"
      and all: "code = SQLITE_DONE \<Longrightarrow> \<exists>rows. mset rows = {#row \<in># M. where_selects wh ?xs row#} \<and> list_all2 (row_at api st ?columns) rows rs"
      by (auto simp: cols wh(1))
    have "row_class c (ss_world t)" "length rs < fuel" using c ran w rs(3) fuel by simp_all
    from exec_rows_objects [OF this(1) rs(1,2) this(2), of "[]"] exe obtain w' qs where
      add: "adds_rows api st c rs (ss_world t) w' qs" and t': "t' = t\<lparr>ss_world := w', ss_db := d\<rparr>"
        "r' = (if code = SQLITE_DONE then Inr (R_objs c qs) else Inl (errmsg api d ''sqlite query multi-value failed: '' code))"
      by (auto simp: exec_def)
    have same: "same_tables v (ss_db s) (ss_db s')"
      using ran rs(4) t'(1) by (auto intro: same_tables_trans)
    show ?thesis
    proof (cases "code = SQLITE_DONE")
      case False
      with ran rs(1,2) have "refuses api v (ss_db s) (select_text w rc) ?items" unfolding refuses_def by blast
      with False ran t'(2) same show ?thesis by (simp add: errmsg_def)
    next
      case True
      from all [OF this] obtain rows where rows: "mset rows = {#row \<in># M. where_selects wh ?xs row#}" "list_all2 (row_at api st ?columns) rows rs"
        by blast
      have "filter (where_selects wh ?xs) [row] = filter (request_matches w rc stored) [row]" for row
        using wh(4) [of stored "[row]"] by simp
      then have "where_selects wh ?xs = request_matches w rc stored" by (intro ext) (metis filter.simps list.distinct(1))
      with rows(1) have "mset rows = {#row \<in># M. request_matches w rc stored row#}" by simp
      from shows_matches_rows [OF add rows(2) this _ M(2)] c ran t' True same w show ?thesis
        by (simp add: row_class_def)
    qed
  qed
qed

section \<open>From the user's call to the objects in the future\<close>


end
