(* ===== verification/Yan_Table_Example.thy ===== *)
theory Yan_Table_Example
  imports Yan_Table_Read
begin

text \<open>
  A small engine that satisfies the laws of \<open>Yan_Table\<close>: tables, prepared statements with their
  operands, and the rows that a selection has still to deliver.  Requests of the example classes are run on it from
  the user's call to the future.
\<close>

section \<open>The engine\<close>

record mini_db =
  mn_rows :: "string \<Rightarrow> (string \<Rightarrow> cell) list option"
  mn_types :: "string \<Rightarrow> (string \<times> bool) list"
  mn_stmts :: "nat \<Rightarrow> sql_stmt option"
  mn_operands :: "stmt \<Rightarrow> int \<Rightarrow> cell"
  mn_cursor :: "nat \<Rightarrow> (string \<Rightarrow> cell) list"
  mn_next :: nat
  mn_busy :: bool

text \<open>The statement has the given rows still to deliver, the first of them being its current row.\<close>

definition mini_at :: "mini_db \<Rightarrow> nat \<Rightarrow> (string \<Rightarrow> cell) list \<Rightarrow> mini_db" where
  "mini_at db n out = db\<lparr>mn_cursor := (mn_cursor db)(n := out)\<rparr>"

lemma mini_at_simps [simp]:
  "mn_cursor (mini_at db n out) n = out" "mini_at (mini_at db n out) n out' = mini_at db n out'"
  "mn_stmts (mini_at db n out) = mn_stmts db" "mn_rows (mini_at db n out) = mn_rows db" "mn_types (mini_at db n out) = mn_types db"
  by (cases db; simp add: mini_at_def fun_eq_iff)+

definition mini_prepare :: "string \<Rightarrow> mini_db \<Rightarrow> (int \<times> stmt) \<times> mini_db" where
  "mini_prepare t db =
     (case read_stmt (butlast t) of
        None \<Rightarrow> ((1, None), db)
      | Some stmt \<Rightarrow>
          ((0, Some (mn_next db)), db\<lparr>mn_stmts := (mn_stmts db)(mn_next db \<mapsto> stmt),
             mn_cursor := (mn_cursor db)(mn_next db := []), mn_next := mn_next db + 1\<rparr>))"

definition mini_bind :: "stmt \<Rightarrow> int \<Rightarrow> cell \<Rightarrow> mini_db \<Rightarrow> int \<times> mini_db" where
  "mini_bind st i x db = (0, db\<lparr>mn_operands := (mn_operands db)(st := (mn_operands db st)(i := x))\<rparr>)"

definition mini_bound :: "mini_db \<Rightarrow> stmt \<Rightarrow> sql_stmt \<Rightarrow> cell list" where
  "mini_bound db st stmt = map (\<lambda>i. mn_operands db st (int i + 1)) [0..<length (sql_columns stmt)]"

text \<open>A statement that is not running starts; a busy engine refuses to start one.\<close>

definition mini_start :: "nat \<Rightarrow> sql_stmt \<Rightarrow> (string \<Rightarrow> cell) list \<Rightarrow> mini_db \<Rightarrow> int \<times> mini_db" where
  "mini_start n stmt rows db =
     (let out = sql_effect stmt (mini_bound db (Some n) stmt) rows in
      if mn_busy db then (5, db)
      else if is_change stmt then (SQLITE_DONE, db\<lparr>mn_rows := (mn_rows db)(sql_table stmt \<mapsto> out)\<rparr>)
      else (if out = [] then SQLITE_DONE else SQLITE_ROW, mini_at db n out))"

definition mini_step :: "stmt \<Rightarrow> mini_db \<Rightarrow> int \<times> mini_db" where
  "mini_step st db =
     (case st of
        None \<Rightarrow> (21, db)
      | Some n \<Rightarrow>
          (case mn_cursor db n of
             row # rest \<Rightarrow> (if rest = [] then SQLITE_DONE else SQLITE_ROW, mini_at db n rest)
           | [] \<Rightarrow>
               (case mn_stmts db n of
                  None \<Rightarrow> (21, db)
                | Some stmt \<Rightarrow>
                    (case mn_rows db (sql_table stmt) of None \<Rightarrow> (1, db) | Some rows \<Rightarrow> mini_start n stmt rows db))))"

text \<open>The cell of the current row.\<close>

definition mini_cell :: "stmt \<Rightarrow> int \<Rightarrow> mini_db \<Rightarrow> cell option" where
  "mini_cell st i db =
     (case st of
        None \<Rightarrow> None
      | Some n \<Rightarrow>
          (case (mn_cursor db n, mn_stmts db n) of
             (row # rest, Some stmt) \<Rightarrow> Some (row (map fst (mn_types db (sql_table stmt)) ! nat i))
           | _ \<Rightarrow> None))"

definition mini_int :: "stmt \<Rightarrow> int \<Rightarrow> mini_db \<Rightarrow> int" where
  "mini_int st i db = (case mini_cell st i db of Some (Cell_int x) \<Rightarrow> x | _ \<Rightarrow> 0)"

definition mini_api :: "mini_db sqlite_api" where
  "mini_api =
     \<lparr>sq_prepare = mini_prepare, sq_exec = (\<lambda>s db. (0, db)),
      sq_bind_text = (\<lambda>st i s. mini_bind st i (Cell_text s)), sq_bind_int = (\<lambda>st i x. mini_bind st i (Cell_int (sint x))),
      sq_bind_int64 = (\<lambda>st i x. mini_bind st i (Cell_int (sint x))), sq_step = mini_step,
      sq_reset = (\<lambda>st db. case st of None \<Rightarrow> db | Some n \<Rightarrow> mini_at db n []),
      sq_clear_bindings = (\<lambda>st db. db),
      sq_finalize = (\<lambda>st db. case st of None \<Rightarrow> db | Some n \<Rightarrow> db\<lparr>mn_stmts := (mn_stmts db)(n := None)\<rparr>),
      sq_column_text = (\<lambda>st i db. case mini_cell st i db of Some (Cell_text s) \<Rightarrow> Some s | _ \<Rightarrow> None),
      sq_column_int = (\<lambda>st i db. word_of_int (mini_int st i db)), sq_column_int64 = (\<lambda>st i db. word_of_int (mini_int st i db)),
      sq_errstr = (\<lambda>i. ''error''), sq_errmsg = (\<lambda>db. ''error'')\<rparr>"

definition mini_view :: "mini_db table_view" where
  "mini_view =
     \<lparr>tv_rows = (\<lambda>db n. map_option mset (mn_rows db n)), tv_columns = (\<lambda>db n. map fst (mn_types db n)),
      tv_text_column = (\<lambda>db n. map_of (mn_types db n)),
      tv_ready = (\<lambda>db st. case st of None \<Rightarrow> None | Some n \<Rightarrow> if mn_cursor db n = [] then mn_stmts db n else None),
      tv_operand = mn_operands, tv_identifier = (\<lambda>n. True)\<rparr>"

section \<open>The engine keeps the laws\<close>

lemma mini_view_simps [simp]:
  "tv_rows mini_view db n = map_option mset (mn_rows db n)" "tv_columns mini_view db n = map fst (mn_types db n)"
  "tv_text_column mini_view db n = map_of (mn_types db n)" "tv_operand mini_view db st = mn_operands db st"
  "tv_identifier mini_view s" "tv_ready mini_view db None = None"
  "tv_ready mini_view db (Some h) = (if mn_cursor db h = [] then mn_stmts db h else None)"
  by (simp_all add: mini_view_def)

lemma mini_ready: "tv_ready mini_view db st = Some stmt \<longleftrightarrow> (\<exists>n. st = Some n \<and> mn_cursor db n = [] \<and> mn_stmts db n = Some stmt)"
  by (cases st) auto

lemma mini_same_tables:
  "mn_rows db' = mn_rows db \<Longrightarrow> mn_types db' = mn_types db \<Longrightarrow> same_tables mini_view db db'"
  by (simp add: same_tables_def fun_eq_iff)

lemma mini_prepare_law: "prepare_law mini_api mini_view"
  by (auto simp: prepare_law_def mini_api_def mini_prepare_def SQLITE_OK_def split: option.splits intro!: mini_same_tables)

lemma mini_binds: "binds mini_view st i x db (mini_bind st i x db)"
proof -
  have "tv_ready mini_view (snd (mini_bind st i x db)) st' = tv_ready mini_view db st'" for st'
    by (cases st') (simp_all add: mini_bind_def)
  then show ?thesis by (auto simp: binds_def mini_bind_def fun_eq_iff intro!: mini_same_tables)
qed

lemma mini_bind_law: "bind_law mini_api mini_view"
  using mini_binds by (simp add: bind_law_def mini_api_def)

lemma mini_close_law: "close_law mini_api mini_view"
  by (auto simp: close_law_def mini_api_def split: option.split intro!: mini_same_tables)

lemma sql_effect_mset: "mset rows = mset rows' \<Longrightarrow> mset (sql_effect stmt xs rows) = mset (sql_effect stmt xs rows')"
  by (cases stmt) (simp_all del: mset_map add: mset_map)

lemma mini_bound_operands: "bound_operands mini_view db st (length (sql_columns stmt)) = mini_bound db st stmt"
  by (simp add: bound_operands_def mini_bound_def)

lemma mini_step_law: "step_law mini_api mini_view"
  unfolding step_law_def Let_def mini_bound_operands
proof (intro allI impI, elim conjE)
  fix st stmt db rows code db'
  assume "tv_ready mini_view db st = Some stmt" and stmt: "is_change stmt"
    and "tv_rows mini_view db (sql_table stmt) = Some (mset rows)" and step: "sq_step mini_api st db = (code, db')"
  then obtain n rows0 where n: "st = Some n" "mn_cursor db n = []" "mn_stmts db n = Some stmt"
    and rows: "mn_rows db (sql_table stmt) = Some rows0" "mset rows0 = mset rows" by (auto simp: mini_ready)
  let ?out = "sql_effect stmt (mini_bound db st stmt)"
  have "(code, db') = (if mn_busy db then (5, db) else (SQLITE_DONE, db\<lparr>mn_rows := (mn_rows db)(sql_table stmt \<mapsto> ?out rows0)\<rparr>))"
    using step n rows(1) stmt by (auto simp: mini_api_def mini_step_def mini_start_def Let_def split: if_splits)
  moreover have "mset (?out rows0) = mset (?out rows)" by (rule sql_effect_mset [OF rows(2)])
  ultimately show "code \<noteq> SQLITE_ROW \<and> tv_text_column mini_view db' = tv_text_column mini_view db \<and>
      tv_rows mini_view db' = (if code = SQLITE_DONE then (tv_rows mini_view db)(sql_table stmt \<mapsto> mset (?out rows)) else tv_rows mini_view db)"
    by (auto simp: fun_eq_iff SQLITE_ROW_def SQLITE_DONE_def split: if_splits)
qed

text \<open>The states of a selection that delivers the rows \<open>out\<close>.\<close>

fun mini_states :: "mini_db \<Rightarrow> nat \<Rightarrow> (string \<Rightarrow> cell) list \<Rightarrow> mini_db list" where
  "mini_states db n [] = []"
| "mini_states db n (row # rest) = mini_at db n (row # rest) # mini_states db n rest"

lemma mini_states_length [simp]: "length (mini_states db n out) = length out"
  by (induction out) simp_all

lemma mini_rows_from:
  "rows_then mini_api (Some n) SQLITE_DONE (mini_at db n [])
     (mini_at db n (row # rest)) (mini_states db n rest)"
proof (induction rest arbitrary: row)
  case Nil
  show ?case by (simp add: mini_api_def mini_step_def)
next
  case (Cons row' rest)
  then show ?case by (simp add: mini_api_def mini_step_def)
qed

lemma mini_rows_shown:
  assumes "mn_stmts db n = Some stmt"
  shows "list_all2 (row_at mini_api (Some n) (map fst (mn_types db (sql_table stmt)))) out (mini_states db n out)"
proof (induction out)
  case (Cons row out)
  let ?r = "mini_at db n (row # out)"
  have cell: "mini_cell (Some n) (int i) ?r = Some (row (map fst (mn_types db (sql_table stmt)) ! i))" for i
    using assms by (simp add: mini_cell_def)
  have "cell_at mini_api (Some n) (int i) ?r (row (map fst (mn_types db (sql_table stmt)) ! i))" for i
    using cell [of i] by (cases "row (map fst (mn_types db (sql_table stmt)) ! i)") (simp_all add: mini_api_def mini_int_def)
  then have "row_at mini_api (Some n) (map fst (mn_types db (sql_table stmt))) row ?r" unfolding row_at_def by blast
  then show ?case using Cons by simp
qed simp

lemma mini_select_law: "select_law mini_api mini_view"
  unfolding select_law_def Let_def
proof (intro allI impI, elim conjE)
  fix db st table wh M
  let ?stmt = "Sql_select [''*''] table wh" and ?xs = "bound_operands mini_view db st (length (where_columns wh))"
  assume "tv_ready mini_view db st = Some ?stmt" and "tv_rows mini_view db table = Some M"
  then obtain n rows where n: "st = Some n" "mn_cursor db n = []" "mn_stmts db n = Some ?stmt"
    and rows: "mn_rows db table = Some rows" "M = mset rows" by (auto simp: mini_ready)
  let ?out = "filter (where_selects wh ?xs) rows"
  have xs: "mini_bound db (Some n) ?stmt = ?xs" using mini_bound_operands [of db st ?stmt] by (simp add: n(1))
  have step: "sq_step mini_api st db =
      (if mn_busy db then (5, db) else (if ?out = [] then SQLITE_DONE else SQLITE_ROW, mini_at db n ?out))"
    using n rows(1) by (simp add: mini_api_def mini_step_def mini_start_def Let_def xs)
  show "\<exists>rs code d. rows_then mini_api st code d db rs \<and> code \<noteq> SQLITE_ROW \<and> length rs \<le> size M \<and> same_tables mini_view db d \<and>
      (code = SQLITE_DONE \<longrightarrow> (\<exists>rows. mset rows = {#row \<in># M. where_selects wh ?xs row#} \<and>
         list_all2 (row_at mini_api st (tv_columns mini_view db table)) rows rs))"
  proof (cases "mn_busy db")
    case True
    with step show ?thesis
      by (intro exI [of _ "[]"] exI [of _ 5] exI [of _ db]) (simp add: same_tables_refl SQLITE_ROW_def SQLITE_DONE_def)
  next
    case False
    have "rows_then mini_api st SQLITE_DONE (mini_at db n []) db (mini_states db n ?out)"
      using step False mini_rows_from [of n db] by (cases ?out) (simp_all add: n(1))
    moreover have "list_all2 (row_at mini_api st (tv_columns mini_view db table)) ?out (mini_states db n ?out)"
      using mini_rows_shown [OF n(3), of ?out] by (simp add: n(1))
    moreover have "length ?out \<le> size M" "mset ?out = {#row \<in># M. where_selects wh ?xs row#}" by (simp_all add: rows(2))
    moreover have "same_tables mini_view db (mini_at db n [])" by (rule mini_same_tables) simp_all
    ultimately show ?thesis
      by (intro exI [of _ "mini_states db n ?out"] exI [of _ SQLITE_DONE] exI [of _ "mini_at db n []"] conjI impI exI [of _ ?out]) simp_all
  qed
qed

lemma mini_keeps_tables: "keeps_tables mini_api mini_view"
  by (simp add: keeps_tables_def mini_prepare_law mini_bind_law mini_step_law mini_select_law mini_close_law)

section \<open>A facade on the engine\<close>

definition mini_lib :: "mini_db sqlite_lib" where
  "mini_lib = \<lparr>lib_open = (\<lambda>path db. ((0, 0), db)), lib_conn = (\<lambda>h. mini_api)\<rparr>"

definition mini_cf :: "mini_db config" where
  "mini_cf = \<lparr>cf_lib = mini_lib, cf_key_first = False, cf_raw_size = (\<lambda>_. 0), cf_fuel = 5\<rparr>"

definition mini_row :: "int \<Rightarrow> string \<Rightarrow> string \<Rightarrow> string \<Rightarrow> cell" where
  "mini_row i n v = (\<lambda>_. Cell_null)(''id'' := Cell_int i, ''n'' := Cell_text n, ''v'' := Cell_text v)"

text \<open>The table of \<open>ComponentDB\<close> with two rows.\<close>

definition mini_start_db :: "bool \<Rightarrow> mini_db" where
  "mini_start_db busy =
     \<lparr>mn_rows = [''tc'' \<mapsto> [mini_row 1 ''MySQL'' ''v5.5'', mini_row 2 ''Redis'' ''v7'']],
      mn_types = (\<lambda>n. [(''id'', False), (''c'', True), (''n'', True), (''v'', True), (''h'', True)]),
      mn_stmts = (\<lambda>n. None), mn_operands = (\<lambda>st i. Cell_int 0), mn_cursor = (\<lambda>n. []), mn_next = 1, mn_busy = busy\<rparr>"

definition mini_engine :: "bool \<Rightarrow> mini_db engine" where
  "mini_engine busy = \<lparr>en_world = sample_world, en_db = mini_start_db busy, en_caches = (\<lambda>_ _. None)\<rparr>"

definition mini_opened :: "bool \<Rightarrow> mini_db sqlite" where
  "mini_opened busy =
     worker_turn (run_job mini_cf) (fst (send mini_cf (\<lambda>_. True) (Req_write []) (Sqlite_init ''db'' (mini_engine busy))))"

lemma mini_opens:
  "write_handle (cf_lib mini_cf) \<lparr>we_sqls = [], we_entity = 0\<rparr> (ConnectionPool ''db'', mini_engine busy) =
     (((idle_pool [0])\<lparr>pl_used_conns := 1\<rparr>, mini_engine busy), Set_value 0)"
  by (simp add: write_handle_def handle_def use_connection_def with_connection_def pool_get_def pool_release_def
      on_connection_run idle_pool_def ConnectionPool_def bindS_apply mini_cf_def mini_lib_def mini_engine_def new_connection_def
      SqliteContext_def sqlite_pragmas_def mini_api_def SQLITE_OK_def fun_eq_iff)

lemmas mini_opened_run = opened_run [OF mini_opens mini_opened_def]

text \<open>A request on \<open>ComponentDB\<close> with the conditions of the object at 0.\<close>

lemma named_request:
  assumes "rc_cys rc = Some ComponentDB" and "rc_params rc = Some 1"
  shows "plain_request sample_world rc ComponentDB" and "cond_columns sample_world rc = [''n'']"
    and "cond_operands sample_world rc = [(''n'', T_val C_string, PV (V_string ''MySQL''))]"
    and "request_matches sample_world rc val = (\<lambda>row. row ''n'' = val (PV (V_string ''MySQL'')))"
    and "where_clause sample_world rc = '' WHERE n == ?''"
proof -
  have c: "conds_of sample_world rc ComponentDB sample_conds0"
    using assms sample_named_request(2) by (simp add: conds_of_def rc_param_list_def sample_named_def)
  note u = conds_of_unique [OF c]
  have item: "map (cond_item_of (class_members sample_world ComponentDB)) sample_conds0 = [(''n'', CT_AND, OT_EQUAL)]"
    unfolding sample_class_members
    by (simp add: sample_conds0_def cond_item_of_def make_param_def ComponentDB_def mi_get_name_def)
  have "plain_field j" if "j \<in> set (map (cond_item_of (class_members sample_world ComponentDB)) sample_conds0)" for j
    using that unfolding item by (simp add: plain_field_def is_word_def blank_def field_cond_def comparison_op_def)
  then have "\<forall>prm \<in> set sample_conds0. plain_field (cond_item_of (class_members sample_world ComponentDB) prm)" by simp
  moreover have "sample_conds0 \<noteq> []" by (simp add: sample_conds0_def)
  ultimately show "plain_request sample_world rc ComponentDB"
    using assms(1) c by (auto simp: plain_request_def is_word_def blank_def)
  have "cond_columns sample_world rc = map fst (map (cond_item_of (class_members sample_world ComponentDB)) sample_conds0)"
    using u assms(1) by (simp add: cond_columns_def)
  then show "cond_columns sample_world rc = [''n'']" by (simp add: item)
  show "cond_operands sample_world rc = [(''n'', T_val C_string, PV (V_string ''MySQL''))]"
    using sample_named_operands conds_of_unique [OF sample_named_request(2)] u
    by (simp add: cond_operands_def sample_named_def assms(1))
  have "map (\<lambda>prm. (cond_item_of (class_members sample_world ComponentDB) prm, val (param_val prm))) sample_conds0 =
      zip (map (cond_item_of (class_members sample_world ComponentDB)) sample_conds0) (map (\<lambda>prm. val (param_val prm)) sample_conds0)"
    by (simp add: zip_map_map zip_same_conv_map)
  also have "\<dots> = [((''n'', CT_AND, OT_EQUAL), val (PV (V_string ''MySQL'')))]"
    unfolding item by (simp add: sample_conds0_def make_param_def)
  finally show "request_matches sample_world rc val = (\<lambda>row. row ''n'' = val (PV (V_string ''MySQL'')))"
    using u assms(1) by (simp add: fun_eq_iff request_matches_def conds_hold_def)
  show "where_clause sample_world rc = '' WHERE n == ?''"
    using u assms(1) by (simp add: where_clause_def where_text_def item field_cond_def)
qed

text \<open>A request that the engine accepts: prepared as statement 1, bound, and about to start.\<close>

lemma mini_bind_all:
  "\<forall>(name, t, pv) \<in> set items. bindable t \<and> storable pv \<Longrightarrow>
    \<exists>xs. bind_seq mini_api st h items db = Inr (db\<lparr>mn_operands := xs\<rparr>)"
proof (induction items arbitrary: h db)
  case Nil
  have "db = db\<lparr>mn_operands := mn_operands db\<rparr>" by simp
  then show ?case by (metis bind_seq.simps(1))
next
  case (Cons item items)
  obtain name t pv where item: "item = (name, t, pv)" by (cases item)
  with Cons.prems have t: "bindable t" "storable pv" by simp_all
  from t(2) obtain x where "bind_value mini_api st (h + 1) pv db = Some (mini_bind st (h + 1) x db)"
    by (cases pv rule: storable.cases) (auto simp: bind_value_def mini_api_def)
  then obtain xs where b: "bind_value mini_api st (h + 1) pv db = Some (0, db\<lparr>mn_operands := xs\<rparr>)"
    by (auto simp: mini_bind_def)
  have "\<forall>(name, t, pv) \<in> set items. bindable t \<and> storable pv" using Cons.prems by simp
  from Cons.IH [OF this, of "h + 1" "db\<lparr>mn_operands := xs\<rparr>"] obtain ys where
    "bind_seq mini_api st (h + 1) items (db\<lparr>mn_operands := xs\<rparr>) = Inr (db\<lparr>mn_operands := xs\<rparr>\<lparr>mn_operands := ys\<rparr>)" by blast
  with b t(1) show ?case by (auto simp: item SQLITE_OK_def)
qed

lemma mini_accepts:
  assumes "read_stmt t = Some stmt" and "CHR 0x00 \<notin> set t" and "sql_table stmt = ''tc''"
    and "\<forall>(name, t, pv) \<in> set items. bindable t \<and> storable pv"
  obtains db1 db2 where
    "\<forall>key. statement_for mini_api (\<lambda>_. None) key t (mini_start_db busy) = (db1, Inr (Some 1))"
    and "bind_seq mini_api (Some 1) 0 items db1 = Inr db2" and "mn_rows db2 = mn_rows (mini_start_db busy)"
    and "mn_stmts db2 1 = Some stmt" and "mn_cursor db2 = (\<lambda>n. [])" and "mn_types db2 = mn_types (mini_start_db busy)"
    and "sq_step mini_api (Some 1) db2 =
      mini_start 1 stmt [mini_row 1 ''MySQL'' ''v5.5'', mini_row 2 ''Redis'' ''v7''] db2"
    and "mn_busy db2 = busy"
proof -
  have c: "c_str (t @ '';'') = t @ '';''" using assms(2) by (auto simp: c_str_def takeWhile_eq_all_conv)
  obtain db1 where db1: "sq_prepare mini_api (t @ '';'') (mini_start_db busy) = ((0, Some 1), db1)"
    "mn_stmts db1 1 = Some stmt" "mn_cursor db1 = (\<lambda>n. [])" "mn_rows db1 = mn_rows (mini_start_db busy)"
    "mn_types db1 = mn_types (mini_start_db busy)" "mn_busy db1 = busy"
    by (simp add: mini_api_def mini_prepare_def assms(1)) (simp add: mini_start_db_def fun_eq_iff)
  from mini_bind_all [OF assms(4)] obtain xs where b: "bind_seq mini_api (Some 1) 0 items db1 = Inr (db1\<lparr>mn_operands := xs\<rparr>)" by blast
  show ?thesis
  proof (rule that [OF _ b])
    show "\<forall>key. statement_for mini_api (\<lambda>_. None) key t (mini_start_db busy) = (db1, Inr (Some 1))"
      using db1(1) by (simp add: statement_for_def c SQLITE_OK_def)
    have "mn_rows db1 ''tc'' = Some [mini_row 1 ''MySQL'' ''v5.5'', mini_row 2 ''Redis'' ''v7'']"
      using db1(4) by (simp add: mini_start_db_def)
    then show "sq_step mini_api (Some 1) (db1\<lparr>mn_operands := xs\<rparr>) =
        mini_start 1 stmt [mini_row 1 ''MySQL'' ''v5.5'', mini_row 2 ''Redis'' ''v7''] (db1\<lparr>mn_operands := xs\<rparr>)"
      using db1(2,3) assms(3) by (simp add: mini_api_def mini_step_def)
  qed (use db1 in simp_all)
qed

lemma mini_engine_simps [simp]:
  "en_world (mini_engine busy) = sample_world" "en_db (mini_engine busy) = mini_start_db busy"
  "en_caches (mini_engine busy) h = (\<lambda>_. None)"
  "tv_rows mini_view (mini_start_db busy) ''tc'' = Some {#mini_row 1 ''MySQL'' ''v5.5'', mini_row 2 ''Redis'' ''v7''#}"
  "tv_identifier mini_view n" "lib_conn (cf_lib mini_cf) h = mini_api" "cf_fuel mini_cf = 5"
  by (simp_all add: mini_engine_def mini_start_db_def mini_cf_def mini_lib_def)

lemma mini_fits:
  "request_fits mini_view (mini_start_db busy) ''tc'' [''n''] [(''n'', T_val C_string, PV (V_string ''MySQL''))]"
  by (simp add: request_fits_def mini_start_db_def bindable_def)

section \<open>Concrete runs\<close>


text \<open>
  The object at 0 is updated: its version goes into the row with its name.  When the engine is busy, nothing is
  changed, and the future holds 1 all the same.
\<close>

lemma mini_closed: "tv_rows mini_view (sq_clear_bindings mini_api st (sq_reset mini_api st d)) = tv_rows mini_view d"
  using mini_close_law by (simp add: close_law_def same_tables_def del: mini_view_simps)


text \<open>The objects named \<open>MySQL\<close> are read: one new object, with the cells of its row.\<close>

lemma mini_table_of_class:
  "table_of_class ComponentDB (tv_columns mini_view (mini_start_db busy) ''tc'')
     {#mini_row 1 ''MySQL'' ''v5.5'', mini_row 2 ''Redis'' ''v7''#}"
  by (auto simp: table_of_class_def mini_start_db_def ComponentDB_def mini_row_def less_Suc_eq numeral_nat)


end
